(* ===== verification/Prelude.thy ===== *)
theory Prelude
  imports Main "HOL-Library.AList" "HOL-Library.Sublist"
begin

text \<open>
  Shared vocabulary of the development: Go errors as values, the result type of a
  fallible Go function and its sequencing, early-returning loops, nondeterministic
  choice for \<open>select\<close> statements, string-keyed Go maps, and the generic lemmas
  the component theories use.

  A Go \<open>string\<close> and a Go \<open>[]byte\<close> are both byte sequences, so both are HOL's
  \<open>string\<close> (a list of 8-bit characters). A Go function that returns a value and an error
  returns \<open>goerr + 'a\<close> here: \<open>Inl\<close> is the non-nil error, \<open>Inr\<close> the value.
\<close>

named_theorems result_simps \<open>inversion of sequenced results\<close>

section \<open>Byte strings\<close>

type_synonym bytes = string

section \<open>Errors\<close>

text \<open>The sentinel errors of package stream (\<open>pkg/stream/errors.go\<close>).\<close>

datatype stream_error =
    ErrIgnorePacket
  | ErrRecvStreamClosed
  | ErrNoHandlerFound
  | ErrNotATTY
  | ErrSendStreamBlocked
  | UninitializedStageErr string

text \<open>The sentinel errors of package build (\<open>pkg/build/errors.go\<close>).\<close>

datatype build_error =
    ErrMissingBuildID
  | ErrInvalidGatewayRequest
  | ErrMissingContext
  | ErrMissingContextDockerfile
  | ErrMissingContextRef
  | ErrTypeAssertionFail
  | ErrNoBuildDirectives
  | ErrInvalidImageContextFormat
  | ErrInvalidProgress
  | ErrInvalidBuildContext
  | ErrInvalidNetworkMode
  | ErrUnsupportedSSH

text \<open>The sentinel errors of package prefetcher (\<open>pkg/prefetch/prefetch.go\<close>).\<close>

datatype prefetch_error =
    ErrOffsetOutOfRange
  | ErrReadFailed
  | ErrPrefetcherClosed

text \<open>The sentinel errors of package server (\<open>pkg/server/errors.go\<close>).\<close>

datatype server_error =
    ErrMetadataMissing
  | ErrBusyBuilder
  | ErrUnknownSocketType

text \<open>
  Every error value the modelled code handles. \<open>Errorf\<close> is an error made by
  \<open>fmt.Errorf\<close> or \<open>errors.New\<close> at the point of failure, \<open>Wrapf\<close> one that wraps a
  cause, \<open>External\<close> an error returned by code outside the repository.
\<close>

datatype goerr =
    StreamError stream_error
  | BuildError build_error
  | PrefetchError prefetch_error
  | ServerError server_error
  | ContextCanceled
  | DeadlineExceeded
  | IoEOF
  | SyntaxError
  | RangeError
  | CorruptInput
  | NotExist
  | Exists
  | NotDirectory
  | TooManyLinks
  | ErrInvalidContextDigest
  | ErrFailedProtocolNegotiation
  | ErrWriteOnlyStream
  | ErrNotImplemented string
  | Errorf string
  | Wrapf string goerr
  | External string

section \<open>Results and their sequencing\<close>

fun res_bind :: "'e + 'a \<Rightarrow> ('a \<Rightarrow> 'e + 'b) \<Rightarrow> 'e + 'b" where
  "res_bind (Inl e) f = Inl e"
| "res_bind (Inr x) f = f x"

lemma res_bind_eq_Inr [result_simps]:
  "res_bind m f = Inr y \<longleftrightarrow> (\<exists>x. m = Inr x \<and> f x = Inr y)"
  by (cases m) auto

lemma res_bind_eq_Inl [result_simps]:
  "res_bind m f = Inl e \<longleftrightarrow> m = Inl e \<or> (\<exists>x. m = Inr x \<and> f x = Inl e)"
  by (cases m) auto

lemma res_bind_assoc: "res_bind (res_bind m f) g = res_bind m (\<lambda>x. res_bind (f x) g)"
  by (cases m) auto

lemma res_bind_cong [fundef_cong]:
  "m = m' \<Longrightarrow> (\<And>x. m' = Inr x \<Longrightarrow> f x = f' x) \<Longrightarrow> res_bind m f = res_bind m' f'"
  by (cases m') auto

text \<open>A guard: return the error when the condition fails.\<close>

definition ensure :: "bool \<Rightarrow> 'e \<Rightarrow> 'e + unit" where
  "ensure b e = (if b then Inr () else Inl e)"

lemma ensure_eq_Inr [result_simps]: "ensure b e = Inr u \<longleftrightarrow> b"
  by (simp add: ensure_def)

lemma ensure_eq_Inl [result_simps]: "ensure b e = Inl e' \<longleftrightarrow> \<not> b \<and> e' = e"
  by (auto simp: ensure_def)

text \<open>A \<open>for\<close> loop that appends one converted element per iteration and returns at the first error.\<close>

fun traverse :: "('a \<Rightarrow> 'e + 'b) \<Rightarrow> 'a list \<Rightarrow> 'e + 'b list" where
  "traverse f [] = Inr []"
| "traverse f (x # xs) = res_bind (f x) (\<lambda>y. res_bind (traverse f xs) (\<lambda>ys. Inr (y # ys)))"

text \<open>A \<open>for\<close> loop that threads a state and returns at the first error.\<close>

fun foldr_res :: "('a \<Rightarrow> 's \<Rightarrow> 'e + 's) \<Rightarrow> 'a list \<Rightarrow> 's \<Rightarrow> 'e + 's" where
  "foldr_res f [] s = Inr s"
| "foldr_res f (x # xs) s = res_bind (f x s) (foldr_res f xs)"

lemma traverse_eq_Inr [result_simps]:
  "traverse f xs = Inr ys \<longleftrightarrow> list_all2 (\<lambda>x y. f x = Inr y) xs ys"
  by (induction xs arbitrary: ys) (auto simp: result_simps list_all2_Cons1)

lemma traverse_length: "traverse f xs = Inr ys \<Longrightarrow> length ys = length xs"
  by (auto simp: result_simps dest: list_all2_lengthD)

lemma traverse_eq_Inl:
  "traverse f xs = Inl e \<Longrightarrow>
     \<exists>us x vs. xs = us @ x # vs \<and> f x = Inl e \<and> (\<forall>u \<in> set us. \<exists>y. f u = Inr y)"
proof (induction xs)
  case Nil
  then show ?case by simp
next
  case (Cons x xs)
  show ?case
  proof (cases "f x")
    case (Inl e')
    with Cons.prems show ?thesis by (intro exI [of _ "[]"]) auto
  next
    case (Inr y)
    with Cons.prems have "traverse f xs = Inl e" by (auto simp: result_simps)
    from Cons.IH [OF this] obtain us z vs
      where "xs = us @ z # vs" "f z = Inl e" "\<forall>u \<in> set us. \<exists>y. f u = Inr y"
      by blast
    with Inr show ?thesis by (intro exI [of _ "x # us"]) auto
  qed
qed

lemma foldr_res_append:
  "foldr_res f (xs @ ys) s = res_bind (foldr_res f xs s) (foldr_res f ys)"
  by (induction xs arbitrary: s) (auto simp: res_bind_assoc intro: res_bind_cong)

text \<open>An invariant of the loop body is an invariant of the loop.\<close>

lemma foldr_res_inv:
  assumes "foldr_res f xs s = Inr t" and "P s"
    and "\<And>x s t. x \<in> set xs \<Longrightarrow> f x s = Inr t \<Longrightarrow> P s \<Longrightarrow> P t"
  shows "P t"
  using assms
proof (induction xs arbitrary: s)
  case Nil
  then show ?case by simp
next
  case (Cons x xs)
  from Cons.prems(1) obtain u where u: "f x s = Inr u" "foldr_res f xs u = Inr t"
    by (auto simp: result_simps)
  from Cons.prems(3) [OF _ u(1) Cons.prems(2)] have "P u" by simp
  with u(2) show ?case
    by (rule Cons.IH) (use Cons.prems(3) in auto)
qed

section \<open>Go maps\<close>

text \<open>
  A Go map that the code ranges over is an association list with distinct keys; the order of
  the list stands for Go's unspecified iteration order. \<open>AList.update\<close> is the assignment
  \<open>m[k] = v\<close>, \<open>map_of\<close> the comma-ok lookup. A nil map and an empty one are both \<open>[]\<close>.
\<close>

type_synonym smap = "(string \<times> string) list"

definition go_get :: "smap \<Rightarrow> string \<Rightarrow> string" where
  \<comment> \<open>\<open>m[k]\<close> without comma-ok: the zero value when the key is absent.\<close>
  "go_get m k = (case map_of m k of None \<Rightarrow> [] | Some v \<Rightarrow> v)"

definition go_has :: "('k \<times> 'v) list \<Rightarrow> 'k \<Rightarrow> bool" where
  "go_has m k = (map_of m k \<noteq> None)"

fun go_put_all :: "('k \<times> 'v) list \<Rightarrow> ('k \<times> 'v) list \<Rightarrow> ('k \<times> 'v) list" where
  \<comment> \<open>\<open>for k, v := range src { dst[k] = v }\<close>\<close>
  "go_put_all [] dst = dst"
| "go_put_all ((k, v) # src) dst = go_put_all src (AList.update k v dst)"

lemma map_of_update [simp]: "map_of (AList.update k v m) = (map_of m)(k \<mapsto> v)"
  by (rule update_conv')

lemma distinct_keys_update [simp]:
  "distinct (map fst m) \<Longrightarrow> distinct (map fst (AList.update k v m))"
  by (rule distinct_update)

lemma distinct_keys_put_all [simp]:
  "distinct (map fst dst) \<Longrightarrow> distinct (map fst (go_put_all src dst))"
  by (induction src dst rule: go_put_all.induct) auto

lemma map_of_put_all:
  "distinct (map fst src) \<Longrightarrow> map_of (go_put_all src dst) = map_of dst ++ map_of src"
  by (induction src dst rule: go_put_all.induct) (auto simp: map_add_upd_left dom_map_of_conv_image_fst)

section \<open>Select statements\<close>

text \<open>
  A blocking statement of a goroutine is a list of the outcomes that are possible in the current
  state: no outcome means that the goroutine blocks, several that Go's \<open>select\<close> may choose
  any of them.
\<close>

type_synonym 'a outcomes = "'a list"

definition alt_if :: "bool \<Rightarrow> 'a outcomes \<Rightarrow> 'a outcomes" where
  "alt_if b xs = (if b then xs else [])"

lemma set_alt_if [simp]: "x \<in> set (alt_if b xs) \<longleftrightarrow> b \<and> x \<in> set xs"
  by (simp add: alt_if_def)

section \<open>Bounded first-in first-out channels\<close>

definition chan_send :: "nat \<Rightarrow> 'a \<Rightarrow> 'a list \<Rightarrow> 'a list option" where
  \<comment> \<open>\<open>ch <- x\<close> on a channel made with \<open>make(chan T, cap)\<close>; None is blocked.\<close>
  "chan_send cap x q = (if length q < cap then Some (q @ [x]) else None)"

fun chan_recv :: "'a list \<Rightarrow> ('a \<times> 'a list) option" where
  "chan_recv [] = None"
| "chan_recv (x # q) = Some (x, q)"

lemma chan_send_SomeD: "chan_send cap x q = Some q' \<Longrightarrow> q' = q @ [x] \<and> length q' \<le> cap"
  by (auto simp: chan_send_def split: if_splits)

lemma chan_recv_SomeD: "chan_recv q = Some (x, q') \<Longrightarrow> q = x # q'"
  by (cases q) auto

section \<open>Sums over updated lists\<close>

lemma sum_list_update_add:
  fixes f :: "'a \<Rightarrow> 'b::comm_monoid_add"
  assumes "a < length xs"
  shows "(\<Sum>x\<leftarrow>xs[a := y]. f x) + f (xs ! a) = (\<Sum>x\<leftarrow>xs. f x) + f y"
proof -
  have "(\<Sum>x\<leftarrow>xs. f x) = (\<Sum>x\<leftarrow>take a xs @ xs ! a # drop (Suc a) xs. f x)"
    using assms by (simp only: id_take_nth_drop [symmetric])
  moreover have "(\<Sum>x\<leftarrow>xs[a := y]. f x) = (\<Sum>x\<leftarrow>take a xs @ y # drop (Suc a) xs. f x)"
    using assms by (simp add: upd_conv_take_nth_drop)
  ultimately show ?thesis by (simp add: algebra_simps)
qed

end
