(* ===== verification/Api_Messages.thy ===== *)
theory Api_Messages
  imports Prelude
begin

text \<open>
  The messages of the Builder service (\<open>pkg/api/Builder.pb.go\<close>, generated from
  \<open>Builder.proto\<close>): one record per message, one datatype per enum and per oneof, and the
  nil-safe getters the shim calls. A field that is a message pointer or an \<open>optional\<close> scalar
  is an option; a map field is an association list.
\<close>

datatype transfer_direction = INTO | OUTOF

datatype stdio_type = STDIN | STDOUT | STDERR

record platform =
  pl_architecture :: string
  pl_os :: string
  pl_os_version :: string
  pl_os_features :: "string list"
  pl_variant :: string

record descriptor =
  ds_media_type :: string
  ds_digest :: string
  ds_size :: int
  ds_urls :: "string list"
  ds_annotations :: smap
  ds_platform :: "platform option"

record build_transfer =
  bt_id :: string
  bt_direction :: transfer_direction
  bt_source :: "string option"
  bt_destination :: "string option"
  bt_data :: bytes
  bt_complete :: bool
  bt_is_directory :: bool
  bt_metadata :: smap

record image_transfer =
  it_id :: string
  it_direction :: transfer_direction
  it_tag :: string
  it_descriptor :: "descriptor option"
  it_data :: bytes
  it_complete :: bool
  it_metadata :: smap

record run_command =
  run_id :: string
  run_cmd :: string

datatype client_packet =
    CSignal int
  | CCommand run_command
  | CBuildTransfer build_transfer
  | CImageTransfer image_transfer
  | CNone

record client_stream =
  cs_build_id :: string
  cs_packet :: client_packet

record io_packet =
  io_type :: stdio_type
  io_data :: bytes

datatype build_error_type = BUILD_FAILED | INTERNAL

datatype server_packet =
    SIo io_packet
  | SBuildError build_error_type string
  | SCommandComplete string
  | SBuildTransfer build_transfer
  | SImageTransfer image_transfer

record server_stream =
  ss_build_id :: string
  ss_packet :: server_packet

text \<open>The zero values of the transfer messages, which composite literals fill in.\<close>

definition empty_build_transfer :: build_transfer where
  "empty_build_transfer =
     \<lparr>bt_id = [], bt_direction = INTO, bt_source = None, bt_destination = None, bt_data = [],
      bt_complete = False, bt_is_directory = False, bt_metadata = []\<rparr>"

definition empty_image_transfer :: image_transfer where
  "empty_image_transfer =
     \<lparr>it_id = [], it_direction = INTO, it_tag = [], it_descriptor = None, it_data = [],
      it_complete = False, it_metadata = []\<rparr>"

text \<open>
  A request of a stage to the host and its answer, the packet or the error that \<open>BaseStage.Request\<close>
  returns.
\<close>

type_synonym round_trip = "server_stream \<Rightarrow> goerr + client_stream"

section \<open>Getters\<close>

definition GetBuildId :: "client_stream \<Rightarrow> string" where
  "GetBuildId c = cs_build_id c"

definition GetCommand :: "client_stream \<Rightarrow> run_command option" where
  "GetCommand c = (case cs_packet c of CCommand r \<Rightarrow> Some r | _ \<Rightarrow> None)"

definition GetBuildTransfer :: "client_stream \<Rightarrow> build_transfer option" where
  "GetBuildTransfer c = (case cs_packet c of CBuildTransfer t \<Rightarrow> Some t | _ \<Rightarrow> None)"

definition GetImageTransfer :: "client_stream \<Rightarrow> image_transfer option" where
  "GetImageTransfer c = (case cs_packet c of CImageTransfer t \<Rightarrow> Some t | _ \<Rightarrow> None)"

lemmas getter_defs = GetBuildId_def GetCommand_def GetBuildTransfer_def GetImageTransfer_def

text \<open>The oneof holds one packet, so at most one getter returns a message.\<close>

lemma getters_exclusive:
  "GetBuildTransfer c = Some t \<Longrightarrow> GetImageTransfer c = None \<and> GetCommand c = None"
  "GetImageTransfer c = Some u \<Longrightarrow> GetBuildTransfer c = None \<and> GetCommand c = None"
  "GetCommand c = Some r \<Longrightarrow> GetBuildTransfer c = None \<and> GetImageTransfer c = None"
  by (auto simp: getter_defs split: client_packet.splits)

end
