(* ===== verification/Stream_Filter.thy ===== *)
theory Stream_Filter
  imports Api_Messages
begin

text \<open>
  Packet filters (\<open>pkg/stream/filter.go\<close>). A \<open>FilterFn\<close> returns a Go error: None is nil
  (the packet passes), \<open>Some\<close> the reason it does not.
\<close>

type_synonym filter_fn = "client_stream \<Rightarrow> goerr option"

abbreviation ignore_packet :: goerr where
  "ignore_packet \<equiv> StreamError ErrIgnorePacket"

definition filterImpl_Filter :: "filter_fn option \<Rightarrow> filter_fn" where
  "filterImpl_Filter f c =
     (case f of None \<Rightarrow> Some (StreamError (UninitializedStageErr ''filter function'')) | Some g \<Rightarrow> g c)"

fun FilterChain :: "filter_fn list \<Rightarrow> filter_fn" where
  "FilterChain [] c = None"
| "FilterChain (f # fs) c = (case f c of Some e \<Rightarrow> Some e | None \<Rightarrow> FilterChain fs c)"

definition FilterByBuildID :: "string \<Rightarrow> filter_fn" where
  "FilterByBuildID i c = (if GetBuildId c = i then None else Some ignore_packet)"

definition FilterByImageTransferID :: "string \<Rightarrow> filter_fn" where
  "FilterByImageTransferID i c =
     (case GetImageTransfer c of
        Some t \<Rightarrow> if it_id t = i then None else Some ignore_packet
      | None \<Rightarrow> Some ignore_packet)"

definition FilterByBuildTransferID :: "string \<Rightarrow> filter_fn" where
  "FilterByBuildTransferID i c =
     (case GetBuildTransfer c of
        Some t \<Rightarrow> if bt_id t = i then None else Some ignore_packet
      | None \<Rightarrow> Some ignore_packet)"

definition FilterByCommandID :: "string \<Rightarrow> filter_fn" where
  "FilterByCommandID i c =
     (case GetCommand c of
        Some r \<Rightarrow> if run_id r = i then None else Some ignore_packet
      | None \<Rightarrow> Some ignore_packet)"

definition FilterAllowAll :: filter_fn where
  "FilterAllowAll c = None"

lemma FilterByBuildID_None [simp]: "FilterByBuildID i c = None \<longleftrightarrow> cs_build_id c = i"
  by (simp add: FilterByBuildID_def GetBuildId_def)

text \<open>
  A chain passes a packet exactly when every filter does, and otherwise fails with the error of
  the first filter that does not.
\<close>

lemma FilterChain_None: "FilterChain fs c = None \<longleftrightarrow> (\<forall>f \<in> set fs. f c = None)"
  by (induction fs) (auto split: option.splits)

lemma FilterChain_append:
  "FilterChain (us @ vs) c = (case FilterChain us c of Some e \<Rightarrow> Some e | None \<Rightarrow> FilterChain vs c)"
  by (induction us) (auto split: option.splits)

lemma FilterChain_SomeD:
  "FilterChain fs c = Some e \<Longrightarrow>
     \<exists>us f vs. fs = us @ f # vs \<and> FilterChain us c = None \<and> f c = Some e"
proof (induction fs)
  case Nil
  then show ?case by simp
next
  case (Cons g gs)
  show ?case
  proof (cases "g c")
    case None
    with Cons obtain us f vs where "gs = us @ f # vs" "FilterChain us c = None" "f c = Some e" by auto
    with None show ?thesis by (intro exI [of _ "g # us"] exI [of _ f] exI [of _ vs]) simp
  next
    case (Some d)
    with Cons.prems show ?thesis by (intro exI [of _ "[]"]) simp
  qed
qed

lemma FilterChain_Some:
  "FilterChain fs c = Some e \<longleftrightarrow>
     (\<exists>us f vs. fs = us @ f # vs \<and> (\<forall>u \<in> set us. u c = None) \<and> f c = Some e)"
proof
  assume "FilterChain fs c = Some e"
  then show "\<exists>us f vs. fs = us @ f # vs \<and> (\<forall>u \<in> set us. u c = None) \<and> f c = Some e"
    using FilterChain_SomeD FilterChain_None by blast
next
  assume "\<exists>us f vs. fs = us @ f # vs \<and> (\<forall>u \<in> set us. u c = None) \<and> f c = Some e"
  then show "FilterChain fs c = Some e"
    by (auto simp: FilterChain_append FilterChain_None [symmetric])
qed

end
