(* ===== verification/Stream_Stage.thy ===== *)
theory Stream_Stage
  imports Stream_Filter "HOL-Library.Multiset"
begin

text \<open>
  Demultiplexers (\<open>pkg/stream/processor.go\<close>) and the base of every stage
  (\<open>pkg/stream/stage.go\<close>). Callers and the stage's \<open>sync.Map\<close> share demultiplexers by
  pointer, so a stage holds a heap of them and the map holds addresses. A blocking method is the
  list of its possible outcomes; where both cases of a \<open>select\<close> are ready, both are listed.
\<close>

section \<open>Contexts\<close>

text \<open>A context is a number; \<open>ctx.Err()\<close> is None until the context ends.\<close>

type_synonym ctx = nat
type_synonym ctx_env = "ctx \<Rightarrow> goerr option"

section \<open>Demultiplexers\<close>

type_synonym addr = nat
type_synonym syncmap = "string \<rightharpoonup> addr"

text \<open>\<open>dm_taken\<close> is a history variable: what \<open>Recv\<close> has returned so far.\<close>

record demultiplexer =
  dm_ctx :: ctx
  dm_id :: string
  dm_ch :: "client_stream list"
  dm_filter :: filter_fn
  dm_closeFn :: "string \<Rightarrow> syncmap \<Rightarrow> syncmap"
  dm_taken :: "client_stream list"

abbreviation (input) demux_capacity :: nat where "demux_capacity \<equiv> 32"

definition NewDemuxWithContext ::
    "ctx \<Rightarrow> string \<Rightarrow> filter_fn \<Rightarrow> (string \<Rightarrow> syncmap \<Rightarrow> syncmap) \<Rightarrow> demultiplexer" where
  "NewDemuxWithContext cx i flt closeFn =
     \<lparr>dm_ctx = cx, dm_id = i, dm_ch = [], dm_filter = flt, dm_closeFn = closeFn, dm_taken = []\<rparr>"

definition demux_Err :: "ctx_env \<Rightarrow> demultiplexer \<Rightarrow> goerr option" where
  "demux_Err env d = env (dm_ctx d)"

definition demux_Closed :: "ctx_env \<Rightarrow> demultiplexer \<Rightarrow> bool" where
  "demux_Closed env d = (env (dm_ctx d) \<noteq> None)"

section \<open>The state of a stage\<close>

text \<open>
  \<open>bs_held\<close> is the packet the goroutine of \<open>Run\<close> has taken off \<open>recvCh\<close> and is
  handing on; \<open>bs_stopped\<close> says that \<open>Run\<close> has returned.
\<close>

record base_stage =
  bs_recvCh :: "client_stream list"
  bs_held :: "client_stream option"
  bs_demux :: syncmap
  bs_heap :: "demultiplexer list"
  bs_stopped :: bool

abbreviation (input) recv_capacity :: nat where "recv_capacity \<equiv> 4"
abbreviation (input) send_capacity :: nat where "send_capacity \<equiv> 64"

definition new_stage :: base_stage where
  "new_stage = \<lparr>bs_recvCh = [], bs_held = None, bs_demux = Map.empty, bs_heap = [], bs_stopped = False\<rparr>"

definition syncmap_Delete :: "string \<Rightarrow> syncmap \<Rightarrow> syncmap" where
  "syncmap_Delete k m = m(k := None)"

definition run_closeFn :: "demultiplexer \<Rightarrow> base_stage \<Rightarrow> base_stage" where
  "run_closeFn d st = st\<lparr>bs_demux := dm_closeFn d (dm_id d) (bs_demux st)\<rparr>"

definition put_demux :: "addr \<Rightarrow> demultiplexer \<Rightarrow> base_stage \<Rightarrow> base_stage" where
  "put_demux a d st = st\<lparr>bs_heap := (bs_heap st)[a := d]\<rparr>"

section \<open>Accept and Recv\<close>

definition demux_Accept :: "ctx_env \<Rightarrow> addr \<Rightarrow> client_stream \<Rightarrow> base_stage \<Rightarrow> (goerr option \<times> base_stage) outcomes" where
  "demux_Accept env a c st =
     (let d = bs_heap st ! a
      in case dm_filter d c of
           Some e \<Rightarrow> [(Some e, st)]
         | None \<Rightarrow>
             (case demux_Err env d of
                Some e \<Rightarrow> [(Some e, run_closeFn d st)]
              | None \<Rightarrow> [])
             @ (case chan_send demux_capacity c (dm_ch d) of
                  Some q \<Rightarrow> [(None, put_demux a (d\<lparr>dm_ch := q\<rparr>) st)]
                | None \<Rightarrow> []))"

definition demux_Recv :: "ctx_env \<Rightarrow> addr \<Rightarrow> base_stage \<Rightarrow> ((goerr + client_stream) \<times> base_stage) outcomes" where
  "demux_Recv env a st =
     (let d = bs_heap st ! a
      in (case demux_Err env d of
            Some e \<Rightarrow> [(Inl e, run_closeFn d st)]
          | None \<Rightarrow> [])
         @ (case chan_recv (dm_ch d) of
              Some (c, q) \<Rightarrow> [(Inr c, put_demux a (d\<lparr>dm_ch := q, dm_taken := dm_taken d @ [c]\<rparr>) st)]
            | None \<Rightarrow> []))"

section \<open>The operations of UnimplementedBaseStage\<close>

definition stage_Process :: "client_stream \<Rightarrow> base_stage \<Rightarrow> base_stage outcomes" where
  "stage_Process c st =
     (case chan_send recv_capacity c (bs_recvCh st) of
        Some q \<Rightarrow> [st\<lparr>bs_recvCh := q\<rparr>]
      | None \<Rightarrow> [])"

text \<open>
  One round of \<open>Run\<close>: take a packet off the channel, then hand it to the demultiplexer that is
  registered for its build id. The packet is dropped when there is none, when that one has
  ended, and when it refuses the packet; the flag says whether it was accepted.
\<close>

definition stage_Run_take :: "base_stage \<Rightarrow> base_stage outcomes" where
  "stage_Run_take st =
     (if bs_stopped st \<or> bs_held st \<noteq> None then []
      else case chan_recv (bs_recvCh st) of
             Some (c, q) \<Rightarrow> [st\<lparr>bs_held := Some c, bs_recvCh := q\<rparr>]
           | None \<Rightarrow> [])"

definition stage_Run_handle :: "ctx_env \<Rightarrow> client_stream \<Rightarrow> base_stage \<Rightarrow> (bool \<times> base_stage) outcomes" where
  "stage_Run_handle env c st =
     (case bs_demux st (cs_build_id c) of
        None \<Rightarrow> [(False, st\<lparr>bs_held := None\<rparr>)]
      | Some a \<Rightarrow>
          (let handler = bs_heap st ! a
           in if demux_Closed env handler
              then [(False, st\<lparr>bs_held := None, bs_demux := syncmap_Delete (dm_id handler) (bs_demux st)\<rparr>)]
              else map (\<lambda>(err, st'). (err = None, st'\<lparr>bs_held := None\<rparr>)) (demux_Accept env a c st)))"

definition stage_Run_stop :: "ctx_env \<Rightarrow> ctx \<Rightarrow> base_stage \<Rightarrow> (goerr \<times> base_stage) outcomes" where
  "stage_Run_stop env cx st =
     (if bs_stopped st \<or> bs_held st \<noteq> None then []
      else case env cx of
             Some e \<Rightarrow> [(e, st\<lparr>bs_demux := Map.empty, bs_stopped := True\<rparr>)]
           | None \<Rightarrow> [])"

text \<open>\<open>Send\<close> pushes onto the shared channel, or fails after five seconds when it stays full.\<close>

definition stage_Send :: "server_stream \<Rightarrow> server_stream list \<Rightarrow> (goerr option \<times> server_stream list) outcomes" where
  "stage_Send s q =
     (case chan_send send_capacity s q of
        Some q' \<Rightarrow> [(None, q')]
      | None \<Rightarrow> [(Some (StreamError ErrSendStreamBlocked), q)])"

definition RegisterDemux :: "string \<Rightarrow> addr \<Rightarrow> base_stage \<Rightarrow> base_stage" where
  "RegisterDemux i a st = st\<lparr>bs_demux := (bs_demux st)(i \<mapsto> a)\<rparr>"

definition alloc_demux :: "demultiplexer \<Rightarrow> base_stage \<Rightarrow> addr \<times> base_stage" where
  "alloc_demux d st = (length (bs_heap st), st\<lparr>bs_heap := bs_heap st @ [d]\<rparr>)"

text \<open>
  \<open>Request\<close> and \<open>RecvFilter\<close> up to their final \<open>Recv\<close>: the address on which the
  caller then receives, or the error of \<open>Send\<close>, after which the demultiplexer is gone from the
  map again.
\<close>

definition stage_Request_open ::
    "ctx \<Rightarrow> server_stream \<Rightarrow> string \<Rightarrow> (string \<Rightarrow> filter_fn) \<Rightarrow> base_stage \<Rightarrow> server_stream list
     \<Rightarrow> ((goerr + addr) \<times> base_stage \<times> server_stream list) outcomes" where
  "stage_Request_open cx s i flt st q =
     (case bs_demux st i of
        Some a \<Rightarrow> [(Inr a, st, q)]
      | None \<Rightarrow>
          (let (a, st1) = alloc_demux (NewDemuxWithContext cx i (flt i) syncmap_Delete) st;
               st2 = RegisterDemux i a st1
           in map (\<lambda>(err, q'). case err of
                     None \<Rightarrow> (Inr a, st2, q')
                   | Some e \<Rightarrow> (Inl e, st2\<lparr>bs_demux := syncmap_Delete i (bs_demux st2)\<rparr>, q'))
                (stage_Send s q)))"

definition stage_RecvFilter_open ::
    "ctx \<Rightarrow> string \<Rightarrow> (string \<Rightarrow> filter_fn) \<Rightarrow> base_stage \<Rightarrow> addr \<times> base_stage" where
  "stage_RecvFilter_open cx i flt st =
     (case bs_demux st i of
        Some a \<Rightarrow> (a, st)
      | None \<Rightarrow>
          (let (a, st1) = alloc_demux (NewDemuxWithContext cx i (flt i) syncmap_Delete) st
           in (a, RegisterDemux i a st1)))"

section \<open>The stage invariant\<close>

text \<open>
  \<open>wf_stage P log st\<close>: the channels hold at most their capacity; the map holds valid addresses;
  every packet anywhere in the stage satisfies \<open>P\<close> (the pipeline's routing condition); a
  demultiplexer holds packets its own filter passes; and what a demultiplexer has handed out,
  followed by what it holds and what the stage still has to hand on, is a subsequence of the
  arrival log.
\<close>

definition pending :: "base_stage \<Rightarrow> client_stream list" where
  "pending st = (case bs_held st of None \<Rightarrow> [] | Some c \<Rightarrow> [c]) @ bs_recvCh st"

definition wf_demux :: "(client_stream \<Rightarrow> bool) \<Rightarrow> client_stream list \<Rightarrow> client_stream list \<Rightarrow> demultiplexer \<Rightarrow> bool" where
  "wf_demux P log rest d \<longleftrightarrow>
     length (dm_ch d) \<le> demux_capacity
     \<and> (\<forall>c \<in> set (dm_taken d @ dm_ch d). dm_filter d c = None \<and> P c)
     \<and> subseq (dm_taken d @ dm_ch d @ rest) log"

definition closes_only :: "demultiplexer \<Rightarrow> bool" where
  "closes_only d \<longleftrightarrow> (\<forall>i m. dm_closeFn d i m = m \<or> dm_closeFn d i m = m(i := None))"

definition wf_stage :: "(client_stream \<Rightarrow> bool) \<Rightarrow> client_stream list \<Rightarrow> base_stage \<Rightarrow> bool" where
  "wf_stage P log st \<longleftrightarrow>
     length (bs_recvCh st) \<le> recv_capacity
     \<and> (\<forall>i a. bs_demux st i = Some a \<longrightarrow> a < length (bs_heap st))
     \<and> (\<forall>c \<in> set (pending st). P c)
     \<and> subseq (pending st) log
     \<and> (\<forall>d \<in> set (bs_heap st). wf_demux P log (pending st) d \<and> closes_only d)"

definition stage_packets :: "base_stage \<Rightarrow> client_stream multiset" where
  \<comment> \<open>Every packet in the stage: pending, queued in a demultiplexer, or handed out by one.\<close>
  "stage_packets st = mset (pending st) + (\<Sum>d\<leftarrow>bs_heap st. mset (dm_taken d) + mset (dm_ch d))"

lemma wf_new_stage: "wf_stage P log new_stage"
  by (simp add: wf_stage_def new_stage_def pending_def)

lemma closes_only_NewDemux [simp]:
  "closes_only (NewDemuxWithContext cx i flt syncmap_Delete)"
  "closes_only (NewDemuxWithContext cx i flt (\<lambda>_ m. m))"
  by (simp_all add: closes_only_def NewDemuxWithContext_def syncmap_Delete_def)

lemma subseq_append_log: "subseq xs log \<Longrightarrow> subseq xs (log @ ys)"
  by (metis append_Nil2 list_emb_Nil list_emb_append_mono)

lemma subseq_prefix_part: "subseq (xs @ ys) zs \<Longrightarrow> subseq xs zs"
  using prefix_imp_subseq [of xs "xs @ ys"] subseq_order.trans by (auto simp: prefix_def)

lemma wf_demux_log: "wf_demux P log rest d \<Longrightarrow> wf_demux P (log @ ys) rest d"
  by (auto simp: wf_demux_def subseq_append_log)

lemma wf_stage_log: "wf_stage P log st \<Longrightarrow> wf_stage P (log @ ys) st"
  by (auto simp: wf_stage_def wf_demux_log subseq_append_log)

lemma wf_stage_heapD:
  "wf_stage P log st \<Longrightarrow> a < length (bs_heap st) \<Longrightarrow>
     wf_demux P log (pending st) (bs_heap st ! a) \<and> closes_only (bs_heap st ! a)"
  by (auto simp: wf_stage_def)

text \<open>Dropping the first pending packet keeps a demultiplexer's order.\<close>

lemma subseq_drop_middle: "subseq (xs @ y # ys) log \<Longrightarrow> subseq (xs @ ys) log"
  by (meson list_emb_append_mono subseq_order.refl subseq_order.trans list_emb_Cons subseq_Cons')

lemma wf_demux_drop: "wf_demux P log (c # rest) d \<Longrightarrow> wf_demux P log rest d"
  using subseq_drop_middle [of "dm_taken d @ dm_ch d" c rest log] by (simp add: wf_demux_def)

lemma wf_demux_enqueue:
  assumes "wf_demux P log (c # rest) d" "dm_filter d c = None" "P c"
    "chan_send demux_capacity c (dm_ch d) = Some q"
  shows "wf_demux P log rest (d\<lparr>dm_ch := q\<rparr>)"
  using assms by (auto simp: wf_demux_def dest!: chan_send_SomeD)

lemma wf_demux_dequeue:
  assumes "wf_demux P log rest d" "chan_recv (dm_ch d) = Some (c, q)"
  shows "wf_demux P log rest (d\<lparr>dm_ch := q, dm_taken := dm_taken d @ [c]\<rparr>)"
  using assms by (auto simp: wf_demux_def dest!: chan_recv_SomeD)

lemma wf_demux_fresh: "subseq rest log \<Longrightarrow> wf_demux P log rest (NewDemuxWithContext cx i flt cl)"
  by (simp add: wf_demux_def NewDemuxWithContext_def)

section \<open>Every operation keeps the invariant and loses no packet unaccounted\<close>

lemma stage_packets_put_demux:
  assumes "a < length (bs_heap st)"
  shows "stage_packets (put_demux a d st) + (mset (dm_taken (bs_heap st ! a)) + mset (dm_ch (bs_heap st ! a)))
         = stage_packets st + (mset (dm_taken d) + mset (dm_ch d))"
  using sum_list_update_add [OF assms, of "\<lambda>d. mset (dm_taken d) + mset (dm_ch d)" d]
  by (simp add: stage_packets_def put_demux_def pending_def add.assoc)

lemma wf_stage_put_demux:
  assumes "wf_stage P log st" "wf_demux P log (pending st) d" "closes_only d"
  shows "wf_stage P log (put_demux a d st)"
proof -
  have "set ((bs_heap st)[a := d]) \<subseteq> insert d (set (bs_heap st))" by (rule set_update_subset_insert)
  with assms show ?thesis
    by (auto simp: wf_stage_def put_demux_def pending_def)
qed

lemma wf_stage_run_closeFn:
  assumes "wf_stage P log st" "closes_only d"
  shows "wf_stage P log (run_closeFn d st)"
proof -
  have "dm_closeFn d (dm_id d) (bs_demux st) i = Some a \<Longrightarrow> bs_demux st i = Some a" for i a
    using assms(2) unfolding closes_only_def by (metis fun_upd_apply option.distinct(1))
  with assms(1) show ?thesis
    unfolding wf_stage_def run_closeFn_def pending_def by simp blast
qed

lemma stage_packets_frame [simp]:
  "stage_packets (st\<lparr>bs_demux := m\<rparr>) = stage_packets st"
  "stage_packets (st\<lparr>bs_stopped := b\<rparr>) = stage_packets st"
  "stage_packets (run_closeFn d st) = stage_packets st"
  "stage_packets (RegisterDemux i a st) = stage_packets st"
  by (simp_all add: stage_packets_def pending_def run_closeFn_def RegisterDemux_def)

text \<open>Letting go of the held packet: what is pending shrinks by its first element.\<close>

lemma release_held:
  assumes "bs_held st = Some c"
  shows "pending st = c # pending (st\<lparr>bs_held := None\<rparr>)"
    and "stage_packets st = stage_packets (st\<lparr>bs_held := None\<rparr>) + {#c#}"
  using assms by (simp_all add: pending_def stage_packets_def)

lemma wf_stage_release:
  assumes "wf_stage P log st" "bs_held st = Some c"
  shows "wf_stage P log (st\<lparr>bs_held := None\<rparr>)"
proof -
  let ?st0 = "st\<lparr>bs_held := None\<rparr>"
  note pend = release_held(1) [OF assms(2)]
  have "subseq (pending ?st0) log"
    using assms(1) subseq_drop_middle [of "[]" c] by (auto simp: wf_stage_def pend)
  moreover have "wf_demux P log (pending ?st0) d \<and> closes_only d" if "d \<in> set (bs_heap st)" for d
    using assms(1) that wf_demux_drop by (auto simp: wf_stage_def pend)
  moreover have "\<forall>c \<in> set (pending ?st0). P c" using assms(1) by (simp add: wf_stage_def pend)
  ultimately show ?thesis using assms(1) by (auto simp: wf_stage_def)
qed

lemma wf_stage_Process:
  assumes "wf_stage P log st" "P c" "st' \<in> set (stage_Process c st)"
  shows "wf_stage P (log @ [c]) st'" and "stage_packets st' = stage_packets st + {#c#}"
proof -
  from assms(3) obtain q where q: "chan_send recv_capacity c (bs_recvCh st) = Some q"
    and st': "st' = st\<lparr>bs_recvCh := q\<rparr>"
    by (cases "chan_send recv_capacity c (bs_recvCh st)") (auto simp: stage_Process_def)
  note qq = chan_send_SomeD [OF q]
  have pend: "pending st' = pending st @ [c]" using qq by (simp add: st' pending_def)
  have wfd: "wf_demux P (log @ [c]) (pending st @ [c]) d" if "wf_demux P log (pending st) d" for d
  proof -
    have "subseq ((dm_taken d @ dm_ch d @ pending st) @ [c]) (log @ [c])"
      using that by (intro list_emb_append_mono) (simp_all add: wf_demux_def)
    with that show ?thesis by (simp add: wf_demux_def)
  qed
  have "subseq (pending st @ [c]) (log @ [c])"
    using assms(1) by (intro list_emb_append_mono) (simp_all add: wf_stage_def)
  then show "wf_stage P (log @ [c]) st'"
    using assms(1,2) qq wfd unfolding wf_stage_def pend by (auto simp: st')
  show "stage_packets st' = stage_packets st + {#c#}"
    using pend by (simp add: stage_packets_def st')
qed

lemma stage_Run_take_inv:
  assumes "wf_stage P log st" "st' \<in> set (stage_Run_take st)"
  shows "wf_stage P log st'" and "stage_packets st' = stage_packets st"
proof -
  from assms(2) obtain c q where h: "bs_held st = None" and q: "chan_recv (bs_recvCh st) = Some (c, q)"
    and st': "st' = st\<lparr>bs_held := Some c, bs_recvCh := q\<rparr>"
    by (cases "chan_recv (bs_recvCh st)") (auto simp: stage_Run_take_def split: if_splits)
  have "pending st' = pending st" using h chan_recv_SomeD [OF q] by (simp add: st' pending_def)
  then show "wf_stage P log st'" "stage_packets st' = stage_packets st"
    using assms(1) chan_recv_SomeD [OF q] by (auto simp: wf_stage_def stage_packets_def st')
qed

lemma demux_Accept_inv:
  assumes "wf_stage P log st" "bs_held st = Some c" "a < length (bs_heap st)"
    "(err, st') \<in> set (demux_Accept env a c st)"
  shows "wf_stage P log (st'\<lparr>bs_held := None\<rparr>)"
    and "err = None \<Longrightarrow> stage_packets (st'\<lparr>bs_held := None\<rparr>) = stage_packets st"
    and "err \<noteq> None \<Longrightarrow> stage_packets st = stage_packets (st'\<lparr>bs_held := None\<rparr>) + {#c#}"
proof -
  let ?d = "bs_heap st ! a"
  note wd = wf_stage_heapD [OF assms(1,3)]
  from assms(4) consider
      (refused) e where "err = Some e" "st' = st"
    | (closed) e where "err = Some e" "st' = run_closeFn ?d st"
    | (queued) q where "err = None" "dm_filter ?d c = None" "chan_send demux_capacity c (dm_ch ?d) = Some q"
        "st' = put_demux a (?d\<lparr>dm_ch := q\<rparr>) st"
    by (cases "dm_filter ?d c"; cases "demux_Err env ?d"; cases "chan_send demux_capacity c (dm_ch ?d)")
      (auto simp: demux_Accept_def Let_def)
  then have "wf_stage P log (st'\<lparr>bs_held := None\<rparr>)
    \<and> (err = None \<longrightarrow> stage_packets (st'\<lparr>bs_held := None\<rparr>) = stage_packets st)
    \<and> (err \<noteq> None \<longrightarrow> stage_packets st = stage_packets (st'\<lparr>bs_held := None\<rparr>) + {#c#})"
  proof cases
    case refused
    then show ?thesis using wf_stage_release [OF assms(1,2)] release_held(2) [OF assms(2)] by simp
  next
    case closed
    have "bs_held (run_closeFn ?d st) = Some c" using assms(2) by (simp add: run_closeFn_def)
    from closed wf_stage_release [OF wf_stage_run_closeFn this] release_held(2) [OF this] assms(1) wd
    show ?thesis by simp
  next
    case queued
    let ?st0 = "st\<lparr>bs_held := None\<rparr>"
    have wf0: "wf_stage P log ?st0" by (rule wf_stage_release [OF assms(1,2)])
    have "P c" using assms(1,2) by (simp add: wf_stage_def release_held(1) [OF assms(2)])
    with wd queued have "wf_demux P log (pending ?st0) (?d\<lparr>dm_ch := q\<rparr>)"
      by (intro wf_demux_enqueue [where c = c]) (simp_all add: release_held(1) [OF assms(2), symmetric])
    moreover have "closes_only (?d\<lparr>dm_ch := q\<rparr>)" using wd by (simp add: closes_only_def)
    ultimately have "wf_stage P log (put_demux a (?d\<lparr>dm_ch := q\<rparr>) ?st0)"
      by (rule wf_stage_put_demux [OF wf0])
    moreover have "st'\<lparr>bs_held := None\<rparr> = put_demux a (?d\<lparr>dm_ch := q\<rparr>) ?st0"
      by (simp add: queued put_demux_def)
    moreover have "stage_packets (put_demux a (?d\<lparr>dm_ch := q\<rparr>) ?st0) = stage_packets st"
      using stage_packets_put_demux [of a ?st0 "?d\<lparr>dm_ch := q\<rparr>"] assms(3) release_held(2) [OF assms(2)]
        chan_send_SomeD [OF queued(3)]
      by (simp add: ac_simps)
    ultimately show ?thesis using queued by simp
  qed
  then show "wf_stage P log (st'\<lparr>bs_held := None\<rparr>)"
    and "err = None \<Longrightarrow> stage_packets (st'\<lparr>bs_held := None\<rparr>) = stage_packets st"
    and "err \<noteq> None \<Longrightarrow> stage_packets st = stage_packets (st'\<lparr>bs_held := None\<rparr>) + {#c#}"
    by blast+
qed

lemma stage_Run_handle_inv:
  assumes "wf_stage P log st" "bs_held st = Some c" "(acc, st') \<in> set (stage_Run_handle env c st)"
  shows "wf_stage P log st'"
    and "stage_packets st = stage_packets st' + (if acc then {#} else {#c#})"
proof -
  have "wf_stage P log st' \<and> stage_packets st = stage_packets st' + (if acc then {#} else {#c#})"
  proof (cases "bs_demux st (cs_build_id c)")
    case None
    with assms(3) wf_stage_release [OF assms(1,2)] release_held(2) [OF assms(2)] show ?thesis
      by (simp add: stage_Run_handle_def)
  next
    case (Some a)
    then have a: "a < length (bs_heap st)" using assms(1) by (simp add: wf_stage_def)
    show ?thesis
    proof (cases "demux_Closed env (bs_heap st ! a)")
      case True
      let ?st0 = "st\<lparr>bs_held := None\<rparr>"
      have "wf_stage P log ?st0" by (rule wf_stage_release [OF assms(1,2)])
      then have "wf_stage P log (?st0\<lparr>bs_demux := syncmap_Delete k (bs_demux st)\<rparr>)" for k
        by (auto simp: wf_stage_def pending_def syncmap_Delete_def)
      with True Some assms(3) release_held(2) [OF assms(2)] show ?thesis
        by (auto simp: stage_Run_handle_def Let_def)
    next
      case False
      with Some assms(3) obtain err st1 where "(err, st1) \<in> set (demux_Accept env a c st)"
        "acc = (err = None)" "st' = st1\<lparr>bs_held := None\<rparr>"
        by (auto simp: stage_Run_handle_def Let_def)
      with demux_Accept_inv [OF assms(1,2) a] show ?thesis by (cases err) auto
    qed
  qed
  then show "wf_stage P log st'"
    and "stage_packets st = stage_packets st' + (if acc then {#} else {#c#})"
    by blast+
qed

lemma stage_Run_stop_inv:
  assumes "wf_stage P log st" "(e, st') \<in> set (stage_Run_stop env cx st)"
  shows "wf_stage P log st'" and "stage_packets st' = stage_packets st"
  using assms
  by (auto simp: stage_Run_stop_def wf_stage_def stage_packets_def pending_def
      split: if_splits option.splits)

lemma demux_Recv_inv:
  assumes "wf_stage P log st" "a < length (bs_heap st)" "(r, st') \<in> set (demux_Recv env a st)"
  shows "wf_stage P log st'" and "stage_packets st' = stage_packets st"
proof -
  let ?d = "bs_heap st ! a"
  note wd = wf_stage_heapD [OF assms(1,2)]
  from assms(3) consider
      (closed) "st' = run_closeFn ?d st"
    | (got) c q where "chan_recv (dm_ch ?d) = Some (c, q)"
        "st' = put_demux a (?d\<lparr>dm_ch := q, dm_taken := dm_taken ?d @ [c]\<rparr>) st"
    by (cases "demux_Err env ?d"; cases "chan_recv (dm_ch ?d)") (auto simp: demux_Recv_def Let_def)
  then have "wf_stage P log st' \<and> stage_packets st' = stage_packets st"
  proof cases
    case closed
    then show ?thesis using wf_stage_run_closeFn [OF assms(1)] wd by simp
  next
    case got
    have "closes_only (?d\<lparr>dm_ch := q, dm_taken := dm_taken ?d @ [c]\<rparr>)"
      using wd by (simp add: closes_only_def)
    with got wf_demux_dequeue [OF _ got(1)] wd
    have "wf_stage P log st'" by (simp add: wf_stage_put_demux [OF assms(1)])
    moreover have "stage_packets st' = stage_packets st"
      using stage_packets_put_demux [OF assms(2), of "?d\<lparr>dm_ch := q, dm_taken := dm_taken ?d @ [c]\<rparr>"]
        chan_recv_SomeD [OF got(1)] got(2) by simp
    ultimately show ?thesis by simp
  qed
  then show "wf_stage P log st'" and "stage_packets st' = stage_packets st" by blast+
qed

lemma alloc_register_inv:
  assumes "wf_stage P log st" "alloc_demux (NewDemuxWithContext cx i flt cl) st = (a, st1)"
    "closes_only (NewDemuxWithContext cx i flt cl)"
  shows "wf_stage P log (RegisterDemux k a st1)" and "stage_packets st1 = stage_packets st"
proof -
  from assms(2) have st1: "a = length (bs_heap st)"
    "st1 = st\<lparr>bs_heap := bs_heap st @ [NewDemuxWithContext cx i flt cl]\<rparr>"
    by (auto simp: alloc_demux_def)
  have "subseq (pending st) log" using assms(1) by (simp add: wf_stage_def)
  with assms(1,3) show "wf_stage P log (RegisterDemux k a st1)"
    using wf_demux_fresh [of "pending st" log]
    by (auto simp: wf_stage_def RegisterDemux_def st1 pending_def less_Suc_eq)
  show "stage_packets st1 = stage_packets st"
    by (simp add: st1 stage_packets_def pending_def NewDemuxWithContext_def)
qed

lemma stage_Request_open_inv:
  assumes "wf_stage P log st" "(r, st', q') \<in> set (stage_Request_open cx s i flt st q)"
  shows "wf_stage P log st'" and "stage_packets st' = stage_packets st"
proof -
  obtain a st1 where al: "alloc_demux (NewDemuxWithContext cx i (flt i) syncmap_Delete) st = (a, st1)"
    by fastforce
  let ?st2 = "RegisterDemux i a st1"
  note inv = alloc_register_inv(1) [OF assms(1) al closes_only_NewDemux(1), of i]
    alloc_register_inv(2) [OF assms(1) al closes_only_NewDemux(1)]
  have del: "wf_stage P log (?st2\<lparr>bs_demux := syncmap_Delete i (bs_demux ?st2)\<rparr>)"
    using inv(1) by (auto simp: wf_stage_def pending_def syncmap_Delete_def)
  from assms(2) consider "st' = st" | "st' = ?st2" | "st' = ?st2\<lparr>bs_demux := syncmap_Delete i (bs_demux ?st2)\<rparr>"
    by (auto simp: stage_Request_open_def al stage_Send_def Let_def split: option.splits)
  then have "wf_stage P log st' \<and> stage_packets st' = stage_packets st"
    using assms(1) inv del by cases auto
  then show "wf_stage P log st'" and "stage_packets st' = stage_packets st" by blast+
qed

end
