(* ===== verification/Stream_Pipeline.thy ===== *)
theory Stream_Pipeline
  imports Stream_Stage
begin

text \<open>
  The pipeline (\<open>pkg/stream/pipeline.go\<close>): one duplex stream shared by several stages. The
  goroutines (the receiver, the sender, one \<open>Run\<close> per stage, and the callers of
  \<open>Request\<close>) interleave, so the pipeline is a step relation; each step is one statement of one
  goroutine, computed by the operations of the stage. Context 0 is the pipeline's own.

  \<open>pl_arrived\<close>, \<open>pl_dropped\<close> and \<open>pl_sent\<close> are history variables: the packets
  \<open>raw.Recv\<close> returned, those logged as dropped, and those \<open>raw.Send\<close> took.
\<close>

record pipeline =
  pl_ctx :: ctx_env
  pl_stages :: "base_stage list"
  pl_sendCh :: "server_stream list"
  pl_arrived :: "client_stream list"
  pl_dropped :: "client_stream list"
  pl_sent :: "server_stream list"

abbreviation (input) pipeline_ctx :: ctx where "pipeline_ctx \<equiv> 0"

definition NewPipeline :: "ctx_env \<Rightarrow> nat \<Rightarrow> pipeline" where
  "NewPipeline env n =
     \<lparr>pl_ctx = env, pl_stages = replicate n new_stage, pl_sendCh = [],
      pl_arrived = [], pl_dropped = [], pl_sent = []\<rparr>"

section \<open>Dispatch\<close>

text \<open>
  The loop of \<open>dispatch\<close> over the stages' filters: the first stage whose filter passes the packet
  takes it; a filter error other than \<open>ErrIgnorePacket\<close> is logged and the loop goes on.
\<close>

fun dispatch_loop :: "filter_fn list \<Rightarrow> nat \<Rightarrow> client_stream \<Rightarrow> nat option \<times> goerr list" where
  "dispatch_loop [] i c = (None, [])"
| "dispatch_loop (f # fs) i c =
     (case f c of
        None \<Rightarrow> (Some i, [])
      | Some e \<Rightarrow>
          if e = ignore_packet then dispatch_loop fs (Suc i) c
          else (let (r, warnings) = dispatch_loop fs (Suc i) c in (r, e # warnings)))"

definition dispatch :: "filter_fn list \<Rightarrow> client_stream \<Rightarrow> nat option \<times> goerr list" where
  "dispatch fs c = dispatch_loop fs 0 c"

definition routes_to :: "filter_fn list \<Rightarrow> nat \<Rightarrow> client_stream \<Rightarrow> bool" where
  "routes_to fs i c = (fst (dispatch fs c) = Some i)"

lemma fst_dispatch_loop_Cons:
  "fst (dispatch_loop (f # fs) k c) =
     (case f c of None \<Rightarrow> Some k | Some e \<Rightarrow> fst (dispatch_loop fs (Suc k) c))"
  by (auto simp: Let_def split: option.splits prod.splits)

lemma dispatch_loop_shift: "fst (dispatch_loop fs (n + k) c) = map_option ((+) n) (fst (dispatch_loop fs k c))"
proof (induction fs arbitrary: k)
  case Nil
  then show ?case by simp
next
  case (Cons f fs)
  then show ?case
    using Cons.IH [of "Suc k"]
    by (simp add: fst_dispatch_loop_Cons del: dispatch_loop.simps split: option.splits)
qed

lemma dispatch_loop_Some:
  "fst (dispatch_loop fs 0 c) = Some i \<longleftrightarrow>
     i < length fs \<and> (fs ! i) c = None \<and> (\<forall>j < i. (fs ! j) c \<noteq> None)"
proof (induction fs arbitrary: i)
  case Nil
  then show ?case by simp
next
  case (Cons f fs)
  show ?case
  proof (cases "f c")
    case None
    then show ?thesis
      by (cases i) (auto simp: fst_dispatch_loop_Cons simp del: dispatch_loop.simps)
  next
    case (Some e)
    have "(+) (Suc 0) = Suc" by auto
    then have "fst (dispatch_loop (f # fs) 0 c) = map_option Suc (fst (dispatch_loop fs 0 c))"
      using Some dispatch_loop_shift [of fs 1 0 c]
      by (simp add: fst_dispatch_loop_Cons del: dispatch_loop.simps)
    with Some Cons.IH show ?thesis
      by (cases i) (auto simp: less_Suc_eq_0_disj simp del: dispatch_loop.simps)
  qed
qed

lemma dispatch_loop_None:
  "fst (dispatch_loop fs k c) = None \<longleftrightarrow> (\<forall>f \<in> set fs. f c \<noteq> None)"
proof (induction fs arbitrary: k)
  case Nil
  then show ?case by simp
next
  case (Cons f fs)
  then show ?case
    by (simp add: fst_dispatch_loop_Cons del: dispatch_loop.simps split: option.splits)
qed

text \<open>The stage that takes a packet is the first whose filter passes it.\<close>

lemma routes_to_iff:
  "routes_to fs i c \<longleftrightarrow> i < length fs \<and> (fs ! i) c = None \<and> (\<forall>j < i. (fs ! j) c \<noteq> None)"
  by (auto simp: routes_to_def dispatch_def dispatch_loop_Some)

lemma routes_to_unique: "routes_to fs i c \<Longrightarrow> routes_to fs j c \<Longrightarrow> i = j"
  by (simp add: routes_to_def)

section \<open>Cancellation\<close>

definition cancel_ctx :: "ctx \<Rightarrow> goerr \<Rightarrow> ctx_env \<Rightarrow> ctx_env" where
  \<comment> \<open>A context's error is set once.\<close>
  "cancel_ctx cx e env = (if env cx = None then env(cx := Some e) else env)"

definition handleReceiveError :: "pipeline \<Rightarrow> pipeline" where
  "handleReceiveError p = p\<lparr>pl_ctx := cancel_ctx pipeline_ctx ContextCanceled (pl_ctx p)\<rparr>"

definition put_stage :: "nat \<Rightarrow> base_stage \<Rightarrow> pipeline \<Rightarrow> pipeline" where
  "put_stage i st p = p\<lparr>pl_stages := (pl_stages p)[i := st]\<rparr>"

section \<open>Steps\<close>

text \<open>
  \<open>pipe_step fs p p'\<close>, for the stages' filters \<open>fs\<close>:
  \<^item> \<open>receive\<close>, \<open>discard\<close>, \<open>receive_fails\<close>: one round of \<open>receivePackets\<close>;
  \<^item> \<open>run_take\<close>, \<open>run_handle\<close>, \<open>run_stop\<close>: the \<open>Run\<close> goroutine of a stage;
  \<^item> \<open>open_request\<close>, \<open>open_walk\<close>, \<open>recv\<close>: a caller of \<open>Request\<close>, a caller that
    registers its own demultiplexer and sends, and a caller waiting in \<open>Recv\<close>;
  \<^item> \<open>send_out\<close>, \<open>send_fails\<close>: one round of \<open>sendPackets\<close>;
  \<^item> \<open>cancelled\<close>: any context ends.
\<close>

inductive pipe_step :: "filter_fn list \<Rightarrow> pipeline \<Rightarrow> pipeline \<Rightarrow> bool" for fs where
  receive: "fst (dispatch fs c) = Some i \<Longrightarrow> i < length (pl_stages p) \<Longrightarrow>
     st' \<in> set (stage_Process c (pl_stages p ! i)) \<Longrightarrow>
     pipe_step fs p ((put_stage i st' p)\<lparr>pl_arrived := pl_arrived p @ [c]\<rparr>)"
| discard: "fst (dispatch fs c) = None \<Longrightarrow>
     pipe_step fs p (p\<lparr>pl_arrived := pl_arrived p @ [c], pl_dropped := pl_dropped p @ [c]\<rparr>)"
| receive_fails: "pipe_step fs p (handleReceiveError p)"
| run_take: "i < length (pl_stages p) \<Longrightarrow> st' \<in> set (stage_Run_take (pl_stages p ! i)) \<Longrightarrow>
     pipe_step fs p (put_stage i st' p)"
| run_handle: "i < length (pl_stages p) \<Longrightarrow> bs_held (pl_stages p ! i) = Some c \<Longrightarrow>
     (acc, st') \<in> set (stage_Run_handle (pl_ctx p) c (pl_stages p ! i)) \<Longrightarrow>
     pipe_step fs p ((put_stage i st' p)\<lparr>pl_dropped := pl_dropped p @ (if acc then [] else [c])\<rparr>)"
| run_stop: "i < length (pl_stages p) \<Longrightarrow>
     (e, st') \<in> set (stage_Run_stop (pl_ctx p) pipeline_ctx (pl_stages p ! i)) \<Longrightarrow>
     pipe_step fs p (put_stage i st' p)"
| open_request: "i < length (pl_stages p) \<Longrightarrow>
     (r, st', q') \<in> set (stage_Request_open cx s k flt (pl_stages p ! i) (pl_sendCh p)) \<Longrightarrow>
     pipe_step fs p ((put_stage i st' p)\<lparr>pl_sendCh := q'\<rparr>)"
| open_walk: "i < length (pl_stages p) \<Longrightarrow>
     alloc_demux (NewDemuxWithContext cx k flt (\<lambda>_ m. m)) (pl_stages p ! i) = (a, st1) \<Longrightarrow>
     (r, q') \<in> set (stage_Send s (pl_sendCh p)) \<Longrightarrow>
     pipe_step fs p ((put_stage i (RegisterDemux k a st1) p)\<lparr>pl_sendCh := q'\<rparr>)"
| recv: "i < length (pl_stages p) \<Longrightarrow> a < length (bs_heap (pl_stages p ! i)) \<Longrightarrow>
     (r, st') \<in> set (demux_Recv (pl_ctx p) a (pl_stages p ! i)) \<Longrightarrow>
     pipe_step fs p (put_stage i st' p)"
| send_out: "pl_sendCh p = s # q \<Longrightarrow>
     pipe_step fs p (p\<lparr>pl_sendCh := q, pl_sent := pl_sent p @ [s]\<rparr>)"
| send_fails: "pl_sendCh p = s # q \<Longrightarrow>
     pipe_step fs p (p\<lparr>pl_sendCh := q, pl_ctx := cancel_ctx pipeline_ctx ContextCanceled (pl_ctx p)\<rparr>)"
| cancelled: "pipe_step fs p (p\<lparr>pl_ctx := cancel_ctx cx e (pl_ctx p)\<rparr>)"

inductive reachable :: "filter_fn list \<Rightarrow> pipeline \<Rightarrow> bool" for fs where
  start: "reachable fs (NewPipeline env (length fs))"
| step: "reachable fs p \<Longrightarrow> pipe_step fs p p' \<Longrightarrow> reachable fs p'"

section \<open>The invariant\<close>

definition pipe_inv :: "filter_fn list \<Rightarrow> pipeline \<Rightarrow> bool" where
  "pipe_inv fs p \<longleftrightarrow>
     length (pl_stages p) = length fs
     \<and> length (pl_sendCh p) \<le> send_capacity
     \<and> (\<forall>i < length fs. wf_stage (routes_to fs i) (pl_arrived p) (pl_stages p ! i))
     \<and> mset (pl_arrived p) = mset (pl_dropped p) + (\<Sum>st\<leftarrow>pl_stages p. stage_packets st)"

lemma pipe_inv_stage:
  "pipe_inv fs p \<Longrightarrow> i < length (pl_stages p) \<Longrightarrow>
     wf_stage (routes_to fs i) (pl_arrived p) (pl_stages p ! i)"
  by (simp add: pipe_inv_def)

lemma pipe_inv_new: "pipe_inv fs (NewPipeline env (length fs))"
proof -
  have "(\<Sum>st\<leftarrow>replicate n new_stage. stage_packets st) = {#}" for n
    by (induction n) (simp_all add: stage_packets_def new_stage_def pending_def)
  then show ?thesis by (simp add: pipe_inv_def NewPipeline_def wf_new_stage)
qed

text \<open>
  Replacing one stage keeps the invariant when the new stage is well formed over the new log and
  the packets that leave the stage are accounted for.
\<close>

lemma pipe_inv_put:
  assumes inv: "pipe_inv fs p" and i: "i < length (pl_stages p)"
    and wf: "wf_stage (routes_to fs i) (pl_arrived p @ new) st'"
    and bal: "stage_packets st' + mset dropped = stage_packets (pl_stages p ! i) + mset new"
    and q: "length q \<le> send_capacity"
  shows "pipe_inv fs ((put_stage i st' p)\<lparr>pl_arrived := pl_arrived p @ new,
           pl_dropped := pl_dropped p @ dropped, pl_sendCh := q\<rparr>)"
proof -
  let ?S = "\<Sum>st\<leftarrow>pl_stages p. stage_packets st"
  let ?S' = "\<Sum>st\<leftarrow>(pl_stages p)[i := st']. stage_packets st"
  have "?S' + stage_packets (pl_stages p ! i) = ?S + stage_packets st'"
    by (rule sum_list_update_add [OF i])
  then have "?S' + mset dropped + stage_packets (pl_stages p ! i)
      = ?S + (stage_packets st' + mset dropped)"
    by (simp add: ac_simps)
  then have "?S' + mset dropped = ?S + mset new"
    unfolding bal by (simp add: ac_simps)
  moreover have "mset (pl_arrived p) = mset (pl_dropped p) + ?S" using inv by (simp add: pipe_inv_def)
  ultimately have "mset (pl_arrived p @ new) = mset (pl_dropped p @ dropped) + ?S'"
    by (simp add: ac_simps)
  moreover have "wf_stage (routes_to fs j) (pl_arrived p @ new) ((pl_stages p)[i := st'] ! j)"
    if "j < length fs" for j
    using that inv wf wf_stage_log by (cases "j = i") (auto simp: pipe_inv_def)
  ultimately show ?thesis using inv q by (simp add: pipe_inv_def put_stage_def)
qed

lemma pipe_inv_put_quiet:
  assumes "pipe_inv fs p" "i < length (pl_stages p)"
    and "wf_stage (routes_to fs i) (pl_arrived p) st'" "stage_packets st' = stage_packets (pl_stages p ! i)"
    and "length q \<le> send_capacity"
  shows "pipe_inv fs ((put_stage i st' p)\<lparr>pl_sendCh := q\<rparr>)"
proof -
  have "pipe_inv fs ((put_stage i st' p)\<lparr>pl_arrived := pl_arrived p @ [],
           pl_dropped := pl_dropped p @ [], pl_sendCh := q\<rparr>)"
    by (rule pipe_inv_put) (use assms in auto)
  then show ?thesis by (simp add: put_stage_def)
qed

lemma stage_Send_bound:
  "(r, q') \<in> set (stage_Send s q) \<Longrightarrow> length q \<le> send_capacity \<Longrightarrow> length q' \<le> send_capacity"
  by (auto simp: stage_Send_def chan_send_def split: if_splits)

lemma stage_Request_open_bound:
  assumes "(r, st', q') \<in> set (stage_Request_open cx s i flt st q)" "length q \<le> send_capacity"
  shows "length q' \<le> send_capacity"
  using assms
  by (auto simp: stage_Request_open_def stage_Send_def chan_send_def alloc_demux_def Let_def
      split: option.splits if_splits)

lemma pipe_step_inv: "pipe_step fs p p' \<Longrightarrow> pipe_inv fs p \<Longrightarrow> pipe_inv fs p'"
proof (induction rule: pipe_step.induct)
  case (receive c i p st')
  then have wf: "wf_stage (routes_to fs i) (pl_arrived p) (pl_stages p ! i)" and "routes_to fs i c"
    by (auto simp: pipe_inv_def routes_to_def)
  note w = wf_stage_Process [OF wf \<open>routes_to fs i c\<close> receive(3)]
  have "pipe_inv fs ((put_stage i st' p)\<lparr>pl_arrived := pl_arrived p @ [c],
           pl_dropped := pl_dropped p @ [], pl_sendCh := pl_sendCh p\<rparr>)"
    by (rule pipe_inv_put) (use receive w in \<open>auto simp: pipe_inv_def\<close>)
  then show ?case by (simp add: put_stage_def)
next
  case (discard c p)
  then show ?case by (auto simp: pipe_inv_def wf_stage_log)
next
  case (receive_fails p)
  then show ?case by (simp add: pipe_inv_def handleReceiveError_def)
next
  case (run_take i p st')
  note w = stage_Run_take_inv [OF pipe_inv_stage [OF run_take(3,1)] run_take(2)]
  have "pipe_inv fs ((put_stage i st' p)\<lparr>pl_sendCh := pl_sendCh p\<rparr>)"
    by (rule pipe_inv_put_quiet) (use run_take w in \<open>auto simp: pipe_inv_def\<close>)
  then show ?case by (simp add: put_stage_def)
next
  case (run_handle i p c acc st')
  note w = stage_Run_handle_inv [OF pipe_inv_stage [OF run_handle(4,1)] run_handle(2,3)]
  have "pipe_inv fs ((put_stage i st' p)\<lparr>pl_arrived := pl_arrived p @ [],
           pl_dropped := pl_dropped p @ (if acc then [] else [c]), pl_sendCh := pl_sendCh p\<rparr>)"
    by (rule pipe_inv_put) (use run_handle w in \<open>auto simp: pipe_inv_def\<close>)
  then show ?case by (simp add: put_stage_def)
next
  case (run_stop i p e st')
  note w = stage_Run_stop_inv [OF pipe_inv_stage [OF run_stop(3,1)] run_stop(2)]
  have "pipe_inv fs ((put_stage i st' p)\<lparr>pl_sendCh := pl_sendCh p\<rparr>)"
    by (rule pipe_inv_put_quiet) (use run_stop w in \<open>auto simp: pipe_inv_def\<close>)
  then show ?case by (simp add: put_stage_def)
next
  case (open_request i p r st' q' cx s k flt)
  note w = stage_Request_open_inv [OF pipe_inv_stage [OF open_request(3,1)] open_request(2)]
  show ?case
    by (rule pipe_inv_put_quiet)
      (use open_request w stage_Request_open_bound in \<open>auto simp: pipe_inv_def\<close>)
next
  case (open_walk i p cx k flt a st1 r q' s)
  note w = alloc_register_inv(1) [OF pipe_inv_stage [OF open_walk(4,1)] open_walk(2) closes_only_NewDemux(2)]
    alloc_register_inv(2) [OF pipe_inv_stage [OF open_walk(4,1)] open_walk(2) closes_only_NewDemux(2)]
  show ?case
    by (rule pipe_inv_put_quiet)
      (use open_walk w stage_Send_bound in \<open>auto simp: pipe_inv_def\<close>)
next
  case (recv i p a r st')
  note w = demux_Recv_inv [OF pipe_inv_stage [OF recv(4,1)] recv(2,3)]
  have "pipe_inv fs ((put_stage i st' p)\<lparr>pl_sendCh := pl_sendCh p\<rparr>)"
    by (rule pipe_inv_put_quiet) (use recv w in \<open>auto simp: pipe_inv_def\<close>)
  then show ?case by (simp add: put_stage_def)
next
  case (send_out p s q)
  then show ?case by (simp add: pipe_inv_def)
next
  case (send_fails p s q)
  then show ?case by (simp add: pipe_inv_def)
next
  case (cancelled p cx e)
  then show ?case by (simp add: pipe_inv_def)
qed

lemma reachable_inv: "reachable fs p \<Longrightarrow> pipe_inv fs p"
  by (induction rule: reachable.induct) (auto intro: pipe_inv_new pipe_step_inv)

section \<open>Properties of every execution\<close>

text \<open>
  C5: No packet is lost, duplicated or invented. In every reachable state of the pipeline, the
  packets the stream delivered are exactly those logged as dropped together with those in the
  stages: waiting in a stage, queued in one demultiplexer, or handed to one caller of \<open>Recv\<close>.
\<close>

theorem pipeline_conservation:
  assumes "reachable fs p"
  shows "mset (pl_arrived p) = mset (pl_dropped p) + (\<Sum>st\<leftarrow>pl_stages p. stage_packets st)"
  using reachable_inv [OF assms] by (simp add: pipe_inv_def)

text \<open>
  C6: A demultiplexer delivers in order. What a demultiplexer has handed out followed by what it
  still queues is a subsequence of the packets in arrival order, each of them passed by the
  demultiplexer's own filter and routed to its stage by \<open>dispatch\<close>.
\<close>

theorem demux_in_order_and_isolated:
  assumes "reachable fs p" "i < length fs" "d \<in> set (bs_heap (pl_stages p ! i))"
  shows "subseq (dm_taken d @ dm_ch d) (pl_arrived p)
    \<and> (\<forall>c \<in> set (dm_taken d @ dm_ch d). dm_filter d c = None \<and> fst (dispatch fs c) = Some i)"
proof -
  have "wf_stage (routes_to fs i) (pl_arrived p) (pl_stages p ! i)"
    using reachable_inv [OF assms(1)] assms(2) by (simp add: pipe_inv_def)
  with assms(3) have wd: "wf_demux (routes_to fs i) (pl_arrived p) (pending (pl_stages p ! i)) d"
    by (simp add: wf_stage_def)
  then have "subseq ((dm_taken d @ dm_ch d) @ pending (pl_stages p ! i)) (pl_arrived p)"
    by (simp add: wf_demux_def)
  then have "subseq (dm_taken d @ dm_ch d) (pl_arrived p)"
    by (rule subseq_prefix_part)
  with wd show ?thesis by (auto simp: wf_demux_def routes_to_def)
qed


section \<open>An execution\<close>

text \<open>
  A request and its reply through a pipeline of one stage that takes every packet: the request
  registers a demultiplexer for build id \<open>7\<close>, the reply arrives, the stage hands it on and the
  caller receives it.
\<close>

definition demo_reply :: client_stream where
  "demo_reply = \<lparr>cs_build_id = ''7'', cs_packet = CNone\<rparr>"

definition demo_request :: server_stream where
  "demo_request = \<lparr>ss_build_id = ''7'', ss_packet = SCommandComplete ''7''\<rparr>"

definition demo_demux :: demultiplexer where
  "demo_demux = (NewDemuxWithContext 1 ''7'' (FilterByBuildID ''7'') syncmap_Delete)\<lparr>dm_taken := [demo_reply]\<rparr>"

definition demo_stage :: base_stage where
  "demo_stage = \<lparr>bs_recvCh = [], bs_held = None, bs_demux = [''7'' \<mapsto> 0], bs_heap = [demo_demux], bs_stopped = False\<rparr>"

definition demo_pipeline :: pipeline where
  "demo_pipeline =
     \<lparr>pl_ctx = (\<lambda>_. None), pl_stages = [demo_stage], pl_sendCh = [demo_request],
      pl_arrived = [demo_reply], pl_dropped = [], pl_sent = []\<rparr>"

lemma demo_reachable: "reachable [FilterAllowAll] demo_pipeline"
proof -
  let ?d = "NewDemuxWithContext 1 ''7'' (FilterByBuildID ''7'') syncmap_Delete"
  let ?s1 = "\<lparr>bs_recvCh = [], bs_held = None, bs_demux = [''7'' \<mapsto> 0], bs_heap = [?d], bs_stopped = False\<rparr>"
  let ?p = "\<lambda>st arr. \<lparr>pl_ctx = (\<lambda>_. None), pl_stages = [st], pl_sendCh = [demo_request],
      pl_arrived = arr, pl_dropped = [], pl_sent = []\<rparr>"
  note defs = stage_Request_open_def alloc_demux_def RegisterDemux_def stage_Send_def chan_send_def new_stage_def
    stage_Process_def stage_Run_take_def stage_Run_handle_def demux_Accept_def demux_Recv_def put_demux_def
    demux_Closed_def demux_Err_def demo_reply_def NewDemuxWithContext_def NewPipeline_def put_stage_def
    dispatch_def FilterAllowAll_def FilterByBuildID_def GetBuildId_def
  have r: "reachable [FilterAllowAll] (NewPipeline (\<lambda>_. None) (length [FilterAllowAll]))" by (rule reachable.start)
  have s1: "pipe_step [FilterAllowAll] (NewPipeline (\<lambda>_. None) (length [FilterAllowAll])) (?p ?s1 [])"
    using pipe_step.open_request [of 0 "NewPipeline (\<lambda>_. None) 1" "Inr 0" ?s1 "[demo_request]" 1 demo_request "''7''"
        FilterByBuildID "[FilterAllowAll]"]
    by (simp add: defs)
  have s2: "pipe_step [FilterAllowAll] (?p ?s1 []) (?p (?s1\<lparr>bs_recvCh := [demo_reply]\<rparr>) [demo_reply])"
    using pipe_step.receive [of "[FilterAllowAll]" demo_reply 0 "?p ?s1 []" "?s1\<lparr>bs_recvCh := [demo_reply]\<rparr>"]
    by (simp add: defs)
  have s3: "pipe_step [FilterAllowAll] (?p (?s1\<lparr>bs_recvCh := [demo_reply]\<rparr>) [demo_reply])
      (?p (?s1\<lparr>bs_held := Some demo_reply\<rparr>) [demo_reply])"
    using pipe_step.run_take [of 0 "?p (?s1\<lparr>bs_recvCh := [demo_reply]\<rparr>) [demo_reply]" "?s1\<lparr>bs_held := Some demo_reply\<rparr>"]
    by (simp add: defs)
  have s4: "pipe_step [FilterAllowAll] (?p (?s1\<lparr>bs_held := Some demo_reply\<rparr>) [demo_reply])
      (?p (?s1\<lparr>bs_heap := [?d\<lparr>dm_ch := [demo_reply]\<rparr>]\<rparr>) [demo_reply])"
    using pipe_step.run_handle [of 0 "?p (?s1\<lparr>bs_held := Some demo_reply\<rparr>) [demo_reply]" demo_reply True
        "?s1\<lparr>bs_heap := [?d\<lparr>dm_ch := [demo_reply]\<rparr>]\<rparr>"]
    by (simp add: defs)
  have s5: "pipe_step [FilterAllowAll] (?p (?s1\<lparr>bs_heap := [?d\<lparr>dm_ch := [demo_reply]\<rparr>]\<rparr>) [demo_reply]) demo_pipeline"
    using pipe_step.recv [of 0 "?p (?s1\<lparr>bs_heap := [?d\<lparr>dm_ch := [demo_reply]\<rparr>]\<rparr>) [demo_reply]" 0 "Inr demo_reply" demo_stage]
    by (simp add: defs demo_pipeline_def demo_stage_def demo_demux_def)
  note run = reachable.step [OF _ s1, OF r]
  note run = reachable.step [OF run s2]
  note run = reachable.step [OF run s3]
  note run = reachable.step [OF run s4]
  show ?thesis by (rule reachable.step [OF run s5])
qed

theorem pipeline_conservation_witness:
  "reachable [FilterAllowAll] demo_pipeline
   \<and> mset (pl_arrived demo_pipeline) = mset (pl_dropped demo_pipeline) + (\<Sum>st\<leftarrow>pl_stages demo_pipeline. stage_packets st)
   \<and> pl_arrived demo_pipeline \<noteq> []"
  using demo_reachable pipeline_conservation [OF demo_reachable] by (simp add: demo_pipeline_def)

theorem demux_in_order_witness:
  "demo_demux \<in> set (bs_heap (pl_stages demo_pipeline ! 0)) \<and> dm_taken demo_demux = [demo_reply]
   \<and> subseq (dm_taken demo_demux @ dm_ch demo_demux) (pl_arrived demo_pipeline)
   \<and> fst (dispatch [FilterAllowAll] demo_reply) = Some 0"
proof -
  have d: "demo_demux \<in> set (bs_heap (pl_stages demo_pipeline ! 0))"
    by (simp add: demo_pipeline_def demo_stage_def)
  have t: "dm_taken demo_demux = [demo_reply]" by (simp add: demo_demux_def)
  show ?thesis
    using demux_in_order_and_isolated [OF demo_reachable _ d] d t by simp
qed


end
