(* ===== verification/Prefetch_Cache.thy ===== *)
theory Prefetch_Cache
  imports Prelude "HOL-Library.Multiset"
begin

text \<open>
  The chunk cache of the prefetcher (\<open>pkg/prefetch/cache.go\<close>): a map from chunk indices to
  chunks, an interval tree over the same chunks, a moving lower bound on the indices it keeps, and
  eviction of the least recently used chunks.

  Chunks are shared by pointer between the map, the tree and the readers, and \<open>getChunk\<close>
  writes \<open>lastUsed\<close> through the pointer, so the cache holds a heap of chunks and the map and the
  tree hold addresses. Times are integers on the process's clock. The critical sections of the
  mutex are the atomic operations; \<open>cache_step\<close> is their interleaving.
\<close>

section \<open>State\<close>

type_synonym chunk_addr = nat

record chunk =
  ck_index :: int
  ck_data :: bytes
  ck_size :: nat
  ck_lastUsed :: int

text \<open>A tree node: start, end, chunks, left, right, max. A nil pointer is None.\<close>

datatype intervalNode =
  IntervalNode int int "(int \<times> chunk_addr) list" "intervalNode option" "intervalNode option" int

record chunkCache =
  cc_chunkSize :: nat
  cc_intervalTree :: "intervalNode option"
  cc_chunkMap :: "(int \<times> chunk_addr) list"
  cc_maxCacheSize :: nat
  cc_evictCount :: nat
  cc_minIndex :: int
  cc_heap :: "chunk list"

definition newChunkCache :: "nat \<Rightarrow> chunkCache" where
  "newChunkCache chunkSize =
     (let maxCacheSize = 1024
      in \<lparr>cc_chunkSize = chunkSize, cc_intervalTree = None, cc_chunkMap = [],
          cc_maxCacheSize = maxCacheSize, cc_evictCount = maxCacheSize div 10, cc_minIndex = 0,
          cc_heap = []\<rparr>)"

definition new_chunk :: "chunk \<Rightarrow> chunkCache \<Rightarrow> chunk_addr \<times> chunkCache" where
  \<comment> \<open>the allocation \<open>&chunk{...}\<close>\<close>
  "new_chunk ch c = (length (cc_heap c), c\<lparr>cc_heap := cc_heap c @ [ch]\<rparr>)"

section \<open>Operations\<close>

definition hasChunk :: "int \<Rightarrow> chunkCache \<Rightarrow> bool" where
  "hasChunk index c = go_has (cc_chunkMap c) index"

text \<open>
  \<open>getChunk\<close> reads the map under the read lock and then, under the write lock, looks the chunk
  up again to update its time.
\<close>

definition touchChunk :: "int \<Rightarrow> int \<Rightarrow> chunkCache \<Rightarrow> chunkCache" where
  "touchChunk now index c =
     (case map_of (cc_chunkMap c) index of
        Some a \<Rightarrow> c\<lparr>cc_heap := (cc_heap c)[a := (cc_heap c ! a)\<lparr>ck_lastUsed := now\<rparr>]\<rparr>
      | None \<Rightarrow> c)"

definition cache_getChunk :: "int \<Rightarrow> int \<Rightarrow> chunkCache \<Rightarrow> chunk_addr option \<times> chunkCache" where
  "cache_getChunk now index c =
     (case map_of (cc_chunkMap c) index of
        Some a \<Rightarrow> (Some a, touchChunk now index c)
      | None \<Rightarrow> (None, c))"

definition interval_leaf :: "int \<Rightarrow> int \<Rightarrow> int \<Rightarrow> chunk_addr \<Rightarrow> intervalNode" where
  "interval_leaf st en index a = IntervalNode st en [(index, a)] None None en"

function (sequential) insertInterval :: "intervalNode \<Rightarrow> int \<Rightarrow> int \<Rightarrow> int \<Rightarrow> chunk_addr \<Rightarrow> intervalNode"
  and insertChild :: "intervalNode option \<Rightarrow> int \<Rightarrow> int \<Rightarrow> int \<Rightarrow> chunk_addr \<Rightarrow> intervalNode option" where
  "insertInterval (IntervalNode nst nen chunks left right mx) st en index a =
     (let (left, right) =
            (if st \<le> nst then (insertChild left st en index a, right)
             else (left, insertChild right st en index a));
          mx = (if en > mx then en else mx);
          chunks = (if \<not> (en < nst \<or> st > nen) then AList.update index a chunks else chunks)
      in IntervalNode nst nen chunks left right mx)"
| "insertChild None st en index a = Some (interval_leaf st en index a)"
| "insertChild (Some node) st en index a = Some (insertInterval node st en index a)"
  by pat_completeness auto
termination
  by (relation "measure (case_sum (\<lambda>(n, _). size n) (\<lambda>(n, _). size_option size n))") auto

fun findOverlapsRecursive :: "chunk list \<Rightarrow> intervalNode option \<Rightarrow> int \<Rightarrow> int \<Rightarrow> chunk_addr list \<Rightarrow> chunk_addr list" where
  "findOverlapsRecursive h None st en result = result"
| "findOverlapsRecursive h (Some (IntervalNode nst nen chunks left right mx)) st en result =
     (if st > mx then result
      else
        let result = findOverlapsRecursive h left st en result;
            result = (if \<not> (en < nst \<or> st > nen)
                      then result @ filter (\<lambda>a. ck_index (h ! a) \<ge> st \<and> ck_index (h ! a) \<le> en) (map snd chunks)
                      else result)
        in if en \<ge> nst then findOverlapsRecursive h right st en result else result)"

definition findOverlappingChunks :: "int \<Rightarrow> int \<Rightarrow> chunkCache \<Rightarrow> chunk_addr list" where
  "findOverlappingChunks st en c =
     (case cc_intervalTree c of
        None \<Rightarrow> []
      | Some t \<Rightarrow> findOverlapsRecursive (cc_heap c) (Some t) st en [])"

definition evictBefore_locked :: "int \<Rightarrow> chunkCache \<Rightarrow> chunkCache" where
  \<comment> \<open>the section under the write lock, with the second test\<close>
  "evictBefore_locked minIdx c =
     (if minIdx \<le> cc_minIndex c then c
      else c\<lparr>cc_minIndex := minIdx,
             cc_chunkMap := filter (\<lambda>(idx, _). \<not> idx < minIdx) (cc_chunkMap c)\<rparr>)"

definition evictBefore :: "int \<Rightarrow> chunkCache \<Rightarrow> chunkCache" where
  "evictBefore minIdx c = (if minIdx \<le> cc_minIndex c then c else evictBefore_locked minIdx c)"

text \<open>
  The in-place insertion sort of \<open>evictOldest\<close>. \<open>shift_back used key j xs\<close> is the inner loop
  with its counter one ahead of the code's, so that the code's \<open>-1\<close> is \<open>0\<close>, and the
  final assignment.
\<close>

fun shift_back :: "('a \<Rightarrow> int) \<Rightarrow> 'a \<Rightarrow> nat \<Rightarrow> 'a list \<Rightarrow> 'a list" where
  "shift_back used key 0 xs = xs[0 := key]"
| "shift_back used key (Suc j) xs =
     (if used (xs ! j) > used key then shift_back used key j (xs[Suc j := xs ! j])
      else xs[Suc j := key])"

definition sort_by_lastUsed :: "('a \<Rightarrow> int) \<Rightarrow> 'a list \<Rightarrow> 'a list" where
  "sort_by_lastUsed used xs = fold (\<lambda>i ys. shift_back used (ys ! i) i ys) [1..<length xs] xs"

definition tree_add :: "int \<Rightarrow> chunk_addr \<Rightarrow> intervalNode option \<Rightarrow> intervalNode option" where
  \<comment> \<open>the code that \<open>addChunk\<close> and \<open>rebuildIntervalTree\<close> share: a first node, or an insertion\<close>
  "tree_add index a t =
     (case t of
        None \<Rightarrow> Some (interval_leaf index index index a)
      | Some node \<Rightarrow> Some (insertInterval node index index index a))"

definition rebuildIntervalTree :: "chunkCache \<Rightarrow> chunkCache" where
  "rebuildIntervalTree c = c\<lparr>cc_intervalTree := fold (\<lambda>(idx, a). tree_add idx a) (cc_chunkMap c) None\<rparr>"

text \<open>\<open>float64(n)/float64(max) < 0.5\<close> is \<open>2 * n < max\<close>: both numbers are far below \<open>2 ^ 52\<close>.\<close>

definition evictOldest :: "chunkCache \<Rightarrow> chunkCache" where
  "evictOldest c =
     (if length (cc_chunkMap c) \<le> cc_maxCacheSize c - cc_evictCount c then c
      else
        let chunks = sort_by_lastUsed (\<lambda>a. ck_lastUsed (cc_heap c ! a)) (map snd (cc_chunkMap c));
            evictCount = (if cc_evictCount c > length chunks then length chunks else cc_evictCount c);
            evicted = map (\<lambda>a. ck_index (cc_heap c ! a)) (take evictCount chunks);
            c' = c\<lparr>cc_chunkMap := fold AList.delete evicted (cc_chunkMap c)\<rparr>
        in if 2 * length (cc_chunkMap c') < cc_maxCacheSize c' then rebuildIntervalTree c' else c')"

definition addChunk :: "int \<Rightarrow> chunk_addr \<Rightarrow> chunkCache \<Rightarrow> chunkCache" where
  "addChunk now a c =
     (let index = ck_index (cc_heap c ! a)
      in if index < cc_minIndex c then c
         else
           let c1 = c\<lparr>cc_heap := (cc_heap c)[a := (cc_heap c ! a)\<lparr>ck_lastUsed := now\<rparr>],
                      cc_chunkMap := AList.update index a (cc_chunkMap c),
                      cc_intervalTree := tree_add index a (cc_intervalTree c)\<rparr>
           in if length (cc_chunkMap c1) > cc_maxCacheSize c1 then evictOldest c1 else c1)"

definition cache_clear :: "chunkCache \<Rightarrow> chunkCache" where
  "cache_clear c = c\<lparr>cc_chunkMap := [], cc_intervalTree := None\<rparr>"

section \<open>The insertion sort\<close>

fun insert_after :: "('a \<Rightarrow> int) \<Rightarrow> 'a \<Rightarrow> 'a list \<Rightarrow> 'a list" where
  "insert_after f x [] = [x]"
| "insert_after f x (z # zs) = (if f z \<le> f x then z # insert_after f x zs else x # z # zs)"

lemma insert_after_insort: "insort_key f y (insert_after f x zs) = insert_after f x (insort_key f y zs)"
  by (induction zs) auto

lemma sort_key_snoc: "sort_key f (ys @ [x]) = insert_after f x (sort_key f ys)"
  by (induction ys) (auto simp: insert_after_insort)

lemma insert_after_snoc_gt: "f x < f u \<Longrightarrow> insert_after f x (us @ [u]) = insert_after f x us @ [u]"
  by (induction us) auto

lemma insert_after_ge: "\<forall>u \<in> set us. f u \<le> f x \<Longrightarrow> insert_after f x us = us @ [x]"
  by (induction us) auto

lemma shift_back_insert:
  "sorted (map f ys) \<Longrightarrow> shift_back f key (length ys) (ys @ x # zs) = insert_after f key ys @ zs"
proof (induction ys arbitrary: x zs rule: rev_induct)
  case Nil
  then show ?case by simp
next
  case (snoc u us)
  then have us: "sorted (map f us)" "\<forall>y \<in> set us. f y \<le> f u" by (auto simp: sorted_append)
  show ?case
  proof (cases "f key < f u")
    case True
    have "shift_back f key (length (us @ [u])) ((us @ [u]) @ x # zs) = shift_back f key (length us) (us @ u # u # zs)"
      using True by (simp add: nth_append list_update_append)
    also have "\<dots> = insert_after f key us @ u # zs" by (rule snoc.IH [OF us(1)])
    finally show ?thesis using True by (simp add: insert_after_snoc_gt)
  next
    case False
    with us have "\<forall>y \<in> set (us @ [u]). f y \<le> f key" by fastforce
    then have "insert_after f key (us @ [u]) = us @ [u, key]" by (simp add: insert_after_ge)
    with False show ?thesis by (simp add: nth_append list_update_append)
  qed
qed

lemma sort_loop_prefix:
  "Suc k \<le> length xs \<Longrightarrow>
     fold (\<lambda>i ys. shift_back f (ys ! i) i ys) [1..<Suc k] xs = sort_key f (take (Suc k) xs) @ drop (Suc k) xs"
proof (induction k)
  case 0
  then show ?case by (cases xs) auto
next
  case (Suc k)
  let ?s = "sort_key f (take (Suc k) xs)"
  have split: "drop (Suc k) xs = xs ! Suc k # drop (Suc (Suc k)) xs" "take (Suc (Suc k)) xs = take (Suc k) xs @ [xs ! Suc k]"
    using Suc.prems by (simp_all add: Cons_nth_drop_Suc take_Suc_conv_app_nth)
  have len: "length ?s = Suc k" using Suc.prems by simp
  have "fold (\<lambda>i ys. shift_back f (ys ! i) i ys) [1..<Suc (Suc k)] xs
      = shift_back f ((?s @ drop (Suc k) xs) ! Suc k) (Suc k) (?s @ drop (Suc k) xs)"
    using Suc by simp
  also have "\<dots> = shift_back f (xs ! Suc k) (length ?s) (?s @ xs ! Suc k # drop (Suc (Suc k)) xs)"
    using len by (simp add: split nth_append)
  also have "\<dots> = insert_after f (xs ! Suc k) ?s @ drop (Suc (Suc k)) xs"
    by (rule shift_back_insert) simp
  finally show ?case by (simp add: split(2) sort_key_snoc)
qed

text \<open>The in-place sort computes the library's stable sort.\<close>

lemma sort_by_lastUsed_eq: "sort_by_lastUsed f xs = sort_key f xs"
proof (cases xs)
  case (Cons y ys)
  then show ?thesis
    using sort_loop_prefix [of "length ys" xs f] by (simp add: sort_by_lastUsed_def)
qed (simp add: sort_by_lastUsed_def)

section \<open>The interval tree\<close>

fun starts :: "intervalNode option \<Rightarrow> int set" where
  "starts None = {}"
| "starts (Some (IntervalNode st en chunks left right mx)) = insert st (starts left \<union> starts right)"

text \<open>
  \<open>wf_itree f t\<close>: the tree is ordered by start, every node is a point that holds the chunk
  \<open>f\<close> gives it, and its \<open>max\<close> bounds the starts below it.
\<close>

fun wf_itree :: "(int \<rightharpoonup> chunk_addr) \<Rightarrow> intervalNode option \<Rightarrow> bool" where
  "wf_itree f None = True"
| "wf_itree f (Some (IntervalNode st en chunks left right mx)) =
     (en = st \<and> (\<exists>a. f st = Some a \<and> chunks = [(st, a)])
      \<and> (\<forall>x \<in> starts left. x \<le> st) \<and> (\<forall>x \<in> starts right. st < x)
      \<and> (\<forall>x \<in> insert st (starts left \<union> starts right). x \<le> mx)
      \<and> wf_itree f left \<and> wf_itree f right)"

lemma starts_insert:
  "starts (Some (insertInterval node st en k a)) = insert st (starts (Some node))"
  "starts (insertChild t st en k a) = insert st (starts t)"
  by (induction node st en k a and t st en k a rule: insertInterval_insertChild.induct)
     (auto simp: interval_leaf_def Let_def)

lemma wf_itree_frame: "wf_itree f t \<Longrightarrow> i \<notin> starts t \<Longrightarrow> wf_itree (f(i \<mapsto> a)) t"
  by (induction f t rule: wf_itree.induct) auto

lemma wf_itree_insert:
  "wf_itree f (Some node) \<Longrightarrow> en = st \<Longrightarrow> k = st \<Longrightarrow> wf_itree (f(st \<mapsto> a)) (Some (insertInterval node st en k a))"
  "wf_itree f t \<Longrightarrow> en = st \<Longrightarrow> k = st \<Longrightarrow> wf_itree (f(st \<mapsto> a)) (insertChild t st en k a)"
proof (induction node st en k a and t st en k a rule: insertInterval_insertChild.induct)
  case (1 nst nen chunks left right mx st en k a)
  note wf = "1.prems"(1) and eqs = "1.prems"(2,3)
  define g where "g = f(st \<mapsto> a)"
  from wf have g: "\<exists>b. g nst = Some b \<and> (if st = nst then AList.update st a chunks else chunks) = [(nst, b)]"
    by (auto simp: g_def)
  from wf have bound: "\<And>x. x \<in> starts left \<or> x \<in> starts right \<Longrightarrow> mx < st \<Longrightarrow> x \<le> st" by force
  show ?case
  proof (cases "st \<le> nst")
    case True
    from wf True have "st \<notin> starts right" by force
    with wf have "wf_itree g right" unfolding g_def by (intro wf_itree_frame) auto
    moreover have "wf_itree g (insertChild left st en k a)"
      unfolding g_def using wf by (intro "1.IH"(1) [OF True _ eqs]) simp
    ultimately show ?thesis using wf True g unfolding g_def [symmetric] by (auto simp: bound eqs Let_def starts_insert)
  next
    case False
    from wf False have "st \<notin> starts left" by force
    with wf have "wf_itree g left" unfolding g_def by (intro wf_itree_frame) auto
    moreover have "wf_itree g (insertChild right st en k a)"
      unfolding g_def using wf by (intro "1.IH"(2) [OF False _ eqs]) simp
    ultimately show ?thesis using wf False g unfolding g_def [symmetric] by (auto simp: bound eqs Let_def starts_insert)
  qed
qed (auto simp: interval_leaf_def)

lemma tree_add_wf:
  assumes "wf_itree f t"
  shows "wf_itree (f(i \<mapsto> a)) (tree_add i a t)" "starts (tree_add i a t) = insert i (starts t)"
  using assms
  by (auto simp: tree_add_def interval_leaf_def starts_insert wf_itree_insert split: option.split)

lemma findOverlaps_set:
  assumes "wf_itree f t" and idx: "\<And>i a. f i = Some a \<Longrightarrow> ck_index (h ! a) = i"
  shows "set (findOverlapsRecursive h t st en res) = set res \<union> {a. \<exists>i \<in> starts t. st \<le> i \<and> i \<le> en \<and> f i = Some a}"
  using assms
proof (induction h t st en res rule: findOverlapsRecursive.induct)
  case (1 h st en result)
  then show ?case by simp
next
  case (2 h nst nen chunks left right mx st en result)
  let ?hits = "\<lambda>t. {a. \<exists>i \<in> starts t. st \<le> i \<and> i \<le> en \<and> f i = Some a}"
  from "2.prems"(1) obtain a where a: "f nst = Some a" "chunks = [(nst, a)]" "nen = nst" by auto
  note ia = "2.prems"(2) [OF a(1)]
  from "2.prems"(1) have wf: "wf_itree f left" "wf_itree f right" by simp_all
  show ?case
  proof (cases "st > mx")
    case True
    from "2.prems"(1) have "\<forall>i \<in> starts (Some (IntervalNode nst nen chunks left right mx)). i \<le> mx" by simp
    with True have "?hits (Some (IntervalNode nst nen chunks left right mx)) = {}" by force
    moreover from True have "findOverlapsRecursive h (Some (IntervalNode nst nen chunks left right mx)) st en result = result"
      by simp
    ultimately show ?thesis by (simp only: Un_empty_right)
  next
    case False
    define res1 where "res1 = findOverlapsRecursive h left st en result"
    define res2 where "res2 = (if \<not> (en < nst \<or> st > nen)
        then res1 @ filter (\<lambda>a. ck_index (h ! a) \<ge> st \<and> ck_index (h ! a) \<le> en) (map snd chunks) else res1)"
    have r1: "set res1 = set result \<union> ?hits left"
      unfolding res1_def by (rule "2.IH"(1) [OF False wf(1) "2.prems"(2)])
    have r2: "set res2 = set res1 \<union> (if st \<le> nst \<and> nst \<le> en then {a} else {})"
      using a ia by (auto simp: res2_def)
    have r3: "set (if en \<ge> nst then findOverlapsRecursive h right st en res2 else res2) = set res2 \<union> ?hits right"
    proof (cases "en \<ge> nst")
      case True
      have "set (findOverlapsRecursive h right st en res2) = set res2 \<union> ?hits right"
        by (rule "2.IH"(2) [OF False res1_def res2_def True wf(2) "2.prems"(2)])
      with True show ?thesis by simp
    next
      case False
      from "2.prems"(1) have "\<forall>i \<in> starts right. nst < i" by simp
      with False have "?hits right = {}" by force
      with False show ?thesis by (simp only: Un_empty_right if_False)
    qed
    have "findOverlapsRecursive h (Some (IntervalNode nst nen chunks left right mx)) st en result
        = (if en \<ge> nst then findOverlapsRecursive h right st en res2 else res2)"
      using False by (simp add: res1_def res2_def Let_def)
    moreover have "?hits (Some (IntervalNode nst nen chunks left right mx))
        = ?hits left \<union> (if st \<le> nst \<and> nst \<le> en then {a} else {}) \<union> ?hits right"
      using a(1) by auto
    ultimately show ?thesis using r1 r2 r3 by auto
  qed
qed

section \<open>The cache invariant\<close>

definition tree_ok :: "chunkCache \<Rightarrow> (int \<rightharpoonup> chunk_addr) \<Rightarrow> bool" where
  "tree_ok c f \<longleftrightarrow>
     wf_itree f (cc_intervalTree c) \<and> dom f = starts (cc_intervalTree c)
     \<and> (\<forall>i a. f i = Some a \<longrightarrow> a < length (cc_heap c) \<and> ck_index (cc_heap c ! a) = i)"

definition cache_wf :: "chunkCache \<Rightarrow> bool" where
  "cache_wf c \<longleftrightarrow>
     distinct (map fst (cc_chunkMap c))
     \<and> (\<forall>(i, a) \<in> set (cc_chunkMap c). cc_minIndex c \<le> i \<and> a < length (cc_heap c) \<and> ck_index (cc_heap c ! a) = i)
     \<and> length (cc_chunkMap c) \<le> cc_maxCacheSize c
     \<and> cc_maxCacheSize c = 1024 \<and> cc_evictCount c = 102
     \<and> (\<exists>f. tree_ok c f \<and> map_of (cc_chunkMap c) \<subseteq>\<^sub>m f)"

lemma cache_wf_new: "cache_wf (newChunkCache n)"
  by (auto simp: cache_wf_def newChunkCache_def tree_ok_def Let_def intro!: exI [of _ Map.empty])

lemma cache_wf_lookup:
  assumes "cache_wf c" "map_of (cc_chunkMap c) i = Some a"
  shows "cc_minIndex c \<le> i" "a < length (cc_heap c)" "ck_index (cc_heap c ! a) = i"
  using assms by (auto simp: cache_wf_def dest: map_of_SomeD)

text \<open>Writing times and adding chunks to the heap keeps the invariant.\<close>

definition same_chunks :: "chunk list \<Rightarrow> chunk list \<Rightarrow> bool" where
  "same_chunks h h' \<longleftrightarrow> length h \<le> length h'
     \<and> (\<forall>a < length h. ck_index (h' ! a) = ck_index (h ! a) \<and> ck_data (h' ! a) = ck_data (h ! a) \<and> ck_size (h' ! a) = ck_size (h ! a))"

lemma same_chunks_refl [simp]: "same_chunks h h"
  by (simp add: same_chunks_def)

lemma same_chunks_trans: "same_chunks h h1 \<Longrightarrow> same_chunks h1 h2 \<Longrightarrow> same_chunks h h2"
  by (auto simp: same_chunks_def)

lemma same_chunks_touch [simp]: "same_chunks h (h[a := (h ! a)\<lparr>ck_lastUsed := now\<rparr>])"
  by (cases "a < length h") (auto simp: same_chunks_def nth_list_update)

lemma same_chunks_append [simp]: "same_chunks h (h @ [ch])"
  by (simp add: same_chunks_def nth_append)

lemma cache_wf_heap:
  assumes "cache_wf c" "same_chunks (cc_heap c) h"
  shows "cache_wf (c\<lparr>cc_heap := h\<rparr>)"
proof -
  have "tree_ok (c\<lparr>cc_heap := h\<rparr>) f" if "tree_ok c f" for f
    using that assms(2) by (fastforce simp: tree_ok_def same_chunks_def)
  with assms show ?thesis by (fastforce simp: cache_wf_def same_chunks_def)
qed

lemma touchChunk_frame:
  "same_chunks (cc_heap c) (cc_heap (touchChunk now i c))" "cache_wf c \<Longrightarrow> cache_wf (touchChunk now i c)"
  by (auto simp: touchChunk_def cache_wf_heap split: option.split)

lemma cache_getChunk_frame:
  assumes "cache_getChunk now i c = (r, c')"
  shows "same_chunks (cc_heap c) (cc_heap c')" "cache_wf c \<Longrightarrow> cache_wf c'"
    and "cache_wf c \<Longrightarrow> r = Some a \<Longrightarrow> a < length (cc_heap c) \<and> ck_index (cc_heap c ! a) = i"
  using assms touchChunk_frame [of c now i] cache_wf_lookup [of c i a]
  by (auto simp: cache_getChunk_def split: option.splits)

lemma evictBefore_eq: "evictBefore_locked m c = evictBefore m c"
  by (simp add: evictBefore_def evictBefore_locked_def)

lemma map_of_filter_key: "map_of (filter (\<lambda>(k, _). P k) m) i = (if P i then map_of m i else None)"
  by (induction m) auto

lemma map_of_filter_le: "map_of (filter (\<lambda>(k, _). P k) m) \<subseteq>\<^sub>m map_of m"
  by (auto simp: map_le_def map_of_filter_key split: if_splits)

lemma cache_wf_submap:
  assumes "cache_wf c" "\<And>i. P i \<Longrightarrow> i \<in> fst ` set (cc_chunkMap c) \<Longrightarrow> m \<le> i"
  shows "cache_wf (c\<lparr>cc_minIndex := m, cc_chunkMap := filter (\<lambda>(i, _). P i) (cc_chunkMap c)\<rparr>)"
proof -
  let ?c = "c\<lparr>cc_minIndex := m, cc_chunkMap := filter (\<lambda>(i, _). P i) (cc_chunkMap c)\<rparr>"
  from assms(1) obtain f where f: "tree_ok c f" "map_of (cc_chunkMap c) \<subseteq>\<^sub>m f" by (auto simp: cache_wf_def)
  have "tree_ok ?c f" using f(1) by (simp add: tree_ok_def)
  moreover have "map_of (cc_chunkMap ?c) \<subseteq>\<^sub>m f" using map_le_trans [OF map_of_filter_le f(2)] by simp
  moreover have "distinct (map fst (cc_chunkMap ?c))" using assms(1) by (simp add: cache_wf_def distinct_map_filter)
  moreover have "\<forall>(i, a) \<in> set (cc_chunkMap ?c). cc_minIndex ?c \<le> i \<and> a < length (cc_heap ?c) \<and> ck_index (cc_heap ?c ! a) = i"
    using assms by (force simp: cache_wf_def)
  moreover have "length (cc_chunkMap ?c) \<le> cc_maxCacheSize ?c"
  proof -
    from assms(1) have "length (cc_chunkMap c) \<le> cc_maxCacheSize c" by (simp add: cache_wf_def)
    then show ?thesis by (simp add: order_trans [OF length_filter_le])
  qed
  moreover have "cc_maxCacheSize ?c = 1024" "cc_evictCount ?c = 102" using assms(1) by (simp_all add: cache_wf_def)
  ultimately show ?thesis unfolding cache_wf_def by blast
qed

lemma cache_wf_evictBefore: "cache_wf c \<Longrightarrow> cache_wf (evictBefore m c)"
  using cache_wf_submap [of c "\<lambda>i. \<not> i < m" m] by (auto simp: evictBefore_def evictBefore_locked_def)

lemma cache_wf_clear: "cache_wf c \<Longrightarrow> cache_wf (cache_clear c)"
  by (auto simp: cache_wf_def cache_clear_def tree_ok_def intro!: exI [of _ Map.empty])

section \<open>Eviction of the least recently used chunks\<close>

lemma fold_delete: "fold AList.delete ks m = filter (\<lambda>p. fst p \<notin> set ks) m"
  by (induction ks arbitrary: m) (auto simp: AList.delete_eq case_prod_unfold intro: filter_cong)

lemma evict_prefix:
  assumes keys: "map fst m = map (idx \<circ> snd) m" "distinct (map fst m)" and perm: "mset S = mset (map snd m)"
  shows "mset (map snd (filter (\<lambda>p. fst p \<notin> set (map idx (take k S))) m)) = mset (drop k S)"
proof -
  let ?P = "\<lambda>a. idx a \<notin> set (map idx (take k S))"
  have "mset (map idx S) = mset (map fst m)" using perm keys(1) by (metis map_map mset_map)
  with keys(2) have "distinct (map idx S)" by (metis mset_eq_imp_distinct_iff)
  then have "distinct (map idx (take k S) @ map idx (drop k S))" by (metis append_take_drop_id map_append)
  then have drop: "filter ?P (drop k S) = drop k S" by (auto simp: filter_id_conv)
  have take: "filter ?P (take k S) = []" by (auto simp: filter_empty_conv)
  have "fst p = idx (snd p)" if "p \<in> set m" for p using keys(1) that by (simp add: map_eq_conv)
  then have "filter (\<lambda>p. fst p \<notin> set (map idx (take k S))) m = filter (?P \<circ> snd) m" by (intro filter_cong) simp_all
  then have "map snd (filter (\<lambda>p. fst p \<notin> set (map idx (take k S))) m) = filter ?P (map snd m)" by (simp add: filter_map)
  then have "mset (map snd (filter (\<lambda>p. fst p \<notin> set (map idx (take k S))) m)) = mset (filter ?P S)"
    using perm by (metis mset_filter)
  also have "filter ?P S = drop k S"
    using drop take by (metis append_Nil append_take_drop_id filter_append)
  finally show ?thesis .
qed

definition map_ok :: "chunkCache \<Rightarrow> bool" where
  "map_ok c \<longleftrightarrow> distinct (map fst (cc_chunkMap c)) \<and> (\<forall>(i, a) \<in> set (cc_chunkMap c). ck_index (cc_heap c ! a) = i)"

abbreviation (input) lru_order :: "chunkCache \<Rightarrow> chunk_addr list" where
  "lru_order c \<equiv> sort_key (\<lambda>a. ck_lastUsed (cc_heap c ! a)) (map snd (cc_chunkMap c))"

abbreviation (input) lru_keys :: "chunkCache \<Rightarrow> int list" where
  "lru_keys c \<equiv> map (\<lambda>a. ck_index (cc_heap c ! a)) (take (cc_evictCount c) (lru_order c))"

lemma evictOldest_map:
  assumes "map_ok c" "cc_maxCacheSize c - cc_evictCount c < length (cc_chunkMap c)"
  shows "cc_chunkMap (evictOldest c) = filter (\<lambda>p. fst p \<notin> set (lru_keys c)) (cc_chunkMap c)" (is ?filter)
    and "mset (map snd (cc_chunkMap (evictOldest c))) = mset (drop (cc_evictCount c) (lru_order c))" (is ?kept)
    and "length (cc_chunkMap (evictOldest c)) = length (cc_chunkMap c) - cc_evictCount c" (is ?len)
proof -
  have "map fst (cc_chunkMap c) = map ((\<lambda>a. ck_index (cc_heap c ! a)) \<circ> snd) (cc_chunkMap c)"
    using assms(1) by (auto simp: map_ok_def)
  then have perm: "mset (map snd (filter (\<lambda>p. fst p \<notin> set (lru_keys c)) (cc_chunkMap c))) = mset (drop (cc_evictCount c) (lru_order c))"
    using assms(1) by (intro evict_prefix) (auto simp: map_ok_def)
  have "take (if n < k then n else k) (lru_order c) = take k (lru_order c)" if "n = length (lru_order c)" for n k
    using that by simp
  then show ?filter
    using assms(2) by (simp add: evictOldest_def sort_by_lastUsed_eq fold_delete rebuildIntervalTree_def Let_def)
  with perm show ?kept by simp
  then have "length (map snd (cc_chunkMap (evictOldest c))) = length (drop (cc_evictCount c) (lru_order c))" by (metis size_mset)
  then show ?len by simp
qed

lemma evictOldest_older:
  assumes "map_ok c" "cc_maxCacheSize c - cc_evictCount c < length (cc_chunkMap c)"
    and "(i, a) \<in> set (cc_chunkMap c)" "(i, a) \<notin> set (cc_chunkMap (evictOldest c))"
    and "(j, b) \<in> set (cc_chunkMap (evictOldest c))"
  shows "ck_lastUsed (cc_heap c ! a) \<le> ck_lastUsed (cc_heap c ! b)"
proof -
  let ?used = "\<lambda>a. ck_lastUsed (cc_heap c ! a)" and ?n = "cc_evictCount c"
  note ev = evictOldest_map [OF assms(1,2)]
  have sorted: "sorted (map ?used (take ?n (lru_order c)) @ map ?used (drop ?n (lru_order c)))"
    unfolding map_append [symmetric] append_take_drop_id by simp
  have "set (map snd (cc_chunkMap (evictOldest c))) = set (drop ?n (lru_order c))"
    using mset_eq_setD [OF ev(2)] by simp
  with assms(5) have b: "b \<in> set (drop ?n (lru_order c))" by force
  obtain a' where a': "a' \<in> set (take ?n (lru_order c))" "ck_index (cc_heap c ! a') = i"
    using assms(3,4) ev(1) by auto
  have "snd ` set (cc_chunkMap c) = set (lru_order c)" by simp
  with a'(1) obtain i' where i': "(i', a') \<in> set (cc_chunkMap c)" by (metis in_set_takeD imageE prod.collapse)
  with a'(2) assms(1) have "i' = i" by (auto simp: map_ok_def)
  with i' assms(1,3) have "a' = a" by (auto simp: map_ok_def dest: eq_key_imp_eq_value)
  with a'(1) b sorted show ?thesis by (auto simp: sorted_append)
qed

text \<open>The state in which \<open>addChunk\<close> calls \<open>evictOldest\<close>: one chunk over the limit.\<close>

definition overfull :: "chunkCache \<Rightarrow> bool" where
  "overfull c \<longleftrightarrow>
     distinct (map fst (cc_chunkMap c))
     \<and> (\<forall>(i, a) \<in> set (cc_chunkMap c). cc_minIndex c \<le> i \<and> a < length (cc_heap c) \<and> ck_index (cc_heap c ! a) = i)
     \<and> length (cc_chunkMap c) = Suc (cc_maxCacheSize c)
     \<and> cc_maxCacheSize c = 1024 \<and> cc_evictCount c = 102
     \<and> (\<exists>f. tree_ok c f \<and> map_of (cc_chunkMap c) \<subseteq>\<^sub>m f)"

lemma evictOldest_overfull:
  assumes "overfull c"
  shows "evictOldest c = c\<lparr>cc_chunkMap := filter (\<lambda>p. fst p \<notin> set (lru_keys c)) (cc_chunkMap c)\<rparr>"
    and "length (cc_chunkMap (evictOldest c)) = 923"
proof -
  have ok: "map_ok c" "cc_maxCacheSize c - cc_evictCount c < length (cc_chunkMap c)"
    using assms by (auto simp: overfull_def map_ok_def)
  from evictOldest_map(3) [OF ok] assms show len: "length (cc_chunkMap (evictOldest c)) = 923"
    by (simp add: overfull_def)
  have "length (lru_order c) = 1025" using assms by (simp add: overfull_def)
  with len [unfolded evictOldest_map(1) [OF ok]] assms
  show "evictOldest c = c\<lparr>cc_chunkMap := filter (\<lambda>p. fst p \<notin> set (lru_keys c)) (cc_chunkMap c)\<rparr>"
    by (simp add: evictOldest_def sort_by_lastUsed_eq fold_delete Let_def overfull_def)
qed

lemma in_set_update: "p \<in> set (AList.update k v m) \<Longrightarrow> p = (k, v) \<or> p \<in> set m"
  by (induction m) (auto split: if_splits)

lemma length_update_le: "length (AList.update k v m) \<le> Suc (length m)"
  by (induction m) auto

text \<open>\<open>addChunk\<close> up to the eviction.\<close>

definition add_only :: "int \<Rightarrow> chunk_addr \<Rightarrow> chunkCache \<Rightarrow> chunkCache" where
  "add_only now a c =
     c\<lparr>cc_heap := (cc_heap c)[a := (cc_heap c ! a)\<lparr>ck_lastUsed := now\<rparr>],
       cc_chunkMap := AList.update (ck_index (cc_heap c ! a)) a (cc_chunkMap c),
       cc_intervalTree := tree_add (ck_index (cc_heap c ! a)) a (cc_intervalTree c)\<rparr>"

lemma addChunk_alt:
  "addChunk now a c =
     (if ck_index (cc_heap c ! a) < cc_minIndex c then c
      else if cc_maxCacheSize c < length (cc_chunkMap (add_only now a c)) then evictOldest (add_only now a c)
      else add_only now a c)"
  by (simp add: addChunk_def add_only_def Let_def)

lemma add_only_inv:
  assumes wf: "cache_wf c" and a: "a < length (cc_heap c)" and new: "cc_minIndex c \<le> ck_index (cc_heap c ! a)"
  shows "if length (cc_chunkMap (add_only now a c)) \<le> 1024 then cache_wf (add_only now a c) else overfull (add_only now a c)"
proof -
  let ?c = "add_only now a c" and ?i = "ck_index (cc_heap c ! a)"
  from wf obtain f where f: "tree_ok c f" "map_of (cc_chunkMap c) \<subseteq>\<^sub>m f" by (auto simp: cache_wf_def)
  have same: "same_chunks (cc_heap c) (cc_heap ?c)" by (simp add: add_only_def)
  have idx: "b < length (cc_heap ?c) \<and> ck_index (cc_heap ?c ! b) = ck_index (cc_heap c ! b)" if "b < length (cc_heap c)" for b
    using same that by (auto simp: same_chunks_def)
  have "tree_ok ?c (f(?i \<mapsto> a))"
    using f(1) idx a tree_add_wf [of f "cc_intervalTree c" ?i a] by (simp add: tree_ok_def) (simp add: add_only_def)
  moreover have "map_of (cc_chunkMap ?c) \<subseteq>\<^sub>m f(?i \<mapsto> a)" using f(2) by (auto simp: add_only_def map_le_def)
  moreover have "distinct (map fst (cc_chunkMap ?c))" using wf by (simp add: add_only_def cache_wf_def)
  moreover have "\<forall>(j, b) \<in> set (cc_chunkMap ?c). cc_minIndex ?c \<le> j \<and> b < length (cc_heap ?c) \<and> ck_index (cc_heap ?c ! b) = j"
  proof (clarify)
    fix j b assume "(j, b) \<in> set (cc_chunkMap ?c)"
    then have "(j, b) = (?i, a) \<or> (j, b) \<in> set (cc_chunkMap c)"
      using in_set_update [of "(j, b)" ?i a] by (simp add: add_only_def)
    then show "cc_minIndex ?c \<le> j \<and> b < length (cc_heap ?c) \<and> ck_index (cc_heap ?c ! b) = j"
      using wf new a idx by (auto simp: cache_wf_def) (auto simp: add_only_def)
  qed
  moreover have "length (cc_chunkMap ?c) \<le> 1025" "cc_maxCacheSize ?c = 1024" "cc_evictCount ?c = 102"
    using wf length_update_le [of ?i a "cc_chunkMap c"] by (auto simp: add_only_def cache_wf_def)
  ultimately show ?thesis unfolding cache_wf_def overfull_def by auto
qed

lemma overfull_evict_wf:
  assumes "overfull c"
  shows "cache_wf (evictOldest c)"
proof -
  let ?P = "\<lambda>i. i \<notin> set (lru_keys c)"
  let ?c = "c\<lparr>cc_chunkMap := filter (\<lambda>p. ?P (fst p)) (cc_chunkMap c)\<rparr>"
  note ev = evictOldest_overfull [OF assms]
  from assms obtain f where f: "tree_ok c f" "map_of (cc_chunkMap c) \<subseteq>\<^sub>m f" by (auto simp: overfull_def)
  have "tree_ok ?c f" using f(1) by (simp add: tree_ok_def)
  moreover have "map_of (cc_chunkMap ?c) \<subseteq>\<^sub>m f"
    using map_le_trans [OF map_of_filter_le [of ?P] f(2)] by (simp add: case_prod_unfold)
  moreover have "distinct (map fst (cc_chunkMap ?c))" using assms by (simp add: overfull_def distinct_map_filter)
  moreover have "\<forall>(i, a) \<in> set (cc_chunkMap ?c). cc_minIndex ?c \<le> i \<and> a < length (cc_heap ?c) \<and> ck_index (cc_heap ?c ! a) = i"
    using assms unfolding overfull_def by fastforce
  moreover have "length (cc_chunkMap ?c) \<le> cc_maxCacheSize ?c" "cc_maxCacheSize ?c = 1024" "cc_evictCount ?c = 102"
    using ev(2) [unfolded ev(1)] assms by (simp_all add: overfull_def)
  ultimately have "cache_wf ?c" unfolding cache_wf_def by blast
  then show ?thesis by (simp only: ev(1))
qed

lemma addChunk_inv:
  assumes "cache_wf c" "a < length (cc_heap c)"
  shows "cache_wf (addChunk now a c)" "same_chunks (cc_heap c) (cc_heap (addChunk now a c))"
proof -
  note core = add_only_inv [OF assms, of now]
  have max: "cc_maxCacheSize c = 1024" using assms(1) by (simp add: cache_wf_def)
  show "cache_wf (addChunk now a c)"
    using assms(1) core max overfull_evict_wf by (auto simp: addChunk_alt not_less not_le split: if_splits)
  have "same_chunks (cc_heap c) (cc_heap (add_only now a c))" by (simp add: add_only_def)
  moreover have "cc_heap (evictOldest d) = cc_heap d" for d
    by (simp add: evictOldest_def rebuildIntervalTree_def Let_def)
  ultimately show "same_chunks (cc_heap c) (cc_heap (addChunk now a c))"
    by (simp add: addChunk_alt)
qed

section \<open>Interleavings of the critical sections\<close>

inductive cache_step :: "chunkCache \<Rightarrow> chunkCache \<Rightarrow> bool" where
  alloc: "cache_step c (snd (new_chunk ch c))"
| touch: "cache_step c (touchChunk now i c)"
| add: "a < length (cc_heap c) \<Longrightarrow> cache_step c (addChunk now a c)"
| evict: "cache_step c (evictBefore_locked m c)"
| clear: "cache_step c (cache_clear c)"

lemma cache_step_inv:
  assumes "cache_step c c'" "cache_wf c"
  shows "cache_wf c' \<and> same_chunks (cc_heap c) (cc_heap c') \<and> cc_minIndex c \<le> cc_minIndex c'"
  using assms
proof cases
  case (add a now)
  have "cc_minIndex (addChunk now a c) = cc_minIndex c"
    by (simp add: addChunk_alt add_only_def evictOldest_def rebuildIntervalTree_def Let_def)
  with add assms(2) addChunk_inv show ?thesis by simp
next
  case (evict m)
  with assms(2) cache_wf_evictBefore [of c m] show ?thesis
    by (simp only: evictBefore_eq) (auto simp: evictBefore_def evictBefore_locked_def)
qed (use cache_wf_heap touchChunk_frame cache_wf_clear in
      \<open>auto simp: new_chunk_def touchChunk_def cache_clear_def split: option.split\<close>)

inductive cache_reachable :: "chunkCache \<Rightarrow> bool" where
  init: "cache_reachable (newChunkCache n)"
| step: "cache_reachable c \<Longrightarrow> cache_step c c' \<Longrightarrow> cache_reachable c'"

lemma cache_reachable_wf: "cache_reachable c \<Longrightarrow> cache_wf c"
  by (induction rule: cache_reachable.induct) (auto simp: cache_wf_new dest: cache_step_inv)

lemma cache_wf_overlap:
  assumes "cache_wf c"
  shows "\<exists>f. map_of (cc_chunkMap c) \<subseteq>\<^sub>m f \<and> tree_ok c f
    \<and> (\<forall>st en. set (findOverlappingChunks st en c) = {a. \<exists>i. st \<le> i \<and> i \<le> en \<and> f i = Some a})"
proof -
  from assms obtain f where f: "tree_ok c f" "map_of (cc_chunkMap c) \<subseteq>\<^sub>m f" by (auto simp: cache_wf_def)
  have "set (findOverlappingChunks st en c) = {a. \<exists>i. st \<le> i \<and> i \<le> en \<and> f i = Some a}" for st en
  proof -
    have "findOverlappingChunks st en c = findOverlapsRecursive (cc_heap c) (cc_intervalTree c) st en []"
      by (simp add: findOverlappingChunks_def split: option.split)
    moreover have "set (findOverlapsRecursive (cc_heap c) (cc_intervalTree c) st en [])
        = {a. \<exists>i \<in> starts (cc_intervalTree c). st \<le> i \<and> i \<le> en \<and> f i = Some a}"
      using f(1) by (subst findOverlaps_set [of f]) (auto simp: tree_ok_def)
    moreover have "starts (cc_intervalTree c) = dom f" using f(1) by (simp add: tree_ok_def)
    ultimately show ?thesis by auto
  qed
  with f show ?thesis by blast
qed

lemma hasChunk_evictBefore: "hasChunk i (evictBefore m c) \<longleftrightarrow> hasChunk i c \<and> \<not> (cc_minIndex c < m \<and> i < m)"
  by (simp add: hasChunk_def go_has_def evictBefore_def evictBefore_locked_def map_of_filter_key)

section \<open>Properties\<close>

text \<open>
  C31: The cache keeps at most 1024 chunks and never one below its window. In every state that any
  interleaving of the critical sections reaches, the map has at most 1024 entries, every entry is
  filed under its own chunk's index, and no entry is below \<open>minIndex\<close>.
\<close>

theorem cache_bounded:
  assumes "cache_reachable c"
  shows "length (cc_chunkMap c) \<le> 1024
    \<and> (\<forall>i a. map_of (cc_chunkMap c) i = Some a \<longrightarrow> cc_minIndex c \<le> i \<and> ck_index (cc_heap c ! a) = i)"
proof -
  note wf = cache_reachable_wf [OF assms]
  then have "length (cc_chunkMap c) \<le> 1024" by (simp add: cache_wf_def)
  with cache_wf_lookup [OF wf] show ?thesis by blast
qed

text \<open>
  C32: Eviction is least recently used. When the map is over the eviction threshold,
  \<open>evictOldest\<close> removes exactly \<open>evictCount\<close> of its entries (all of them if there are
  fewer), and no removed chunk was used later than a chunk that stays; the order in which Go ranges over
  the map does not matter.
\<close>

theorem evictOldest_lru:
  assumes "map_ok c" "cc_maxCacheSize c - cc_evictCount c < length (cc_chunkMap c)"
  shows "length (cc_chunkMap (evictOldest c)) = length (cc_chunkMap c) - cc_evictCount c
    \<and> set (cc_chunkMap (evictOldest c)) \<subseteq> set (cc_chunkMap c)
    \<and> (\<forall>(i, a) \<in> set (cc_chunkMap c) - set (cc_chunkMap (evictOldest c)).
         \<forall>(j, b) \<in> set (cc_chunkMap (evictOldest c)). ck_lastUsed (cc_heap c ! a) \<le> ck_lastUsed (cc_heap c ! b))"
  using evictOldest_map [OF assms] evictOldest_older [OF assms] by auto

text \<open>
  C30: The overlap search is sound and finds every cached chunk. In every reachable state,
  \<open>findOverlappingChunks\<close> returns only chunks whose index lies in the interval, and every
  chunk of the map whose index lies in the interval, although the tree search prunes by
  \<open>max\<close> and by \<open>start\<close>.
\<close>

theorem overlap_search_correct:
  assumes "cache_reachable c"
  shows "(\<forall>a \<in> set (findOverlappingChunks st en c). st \<le> ck_index (cc_heap c ! a) \<and> ck_index (cc_heap c ! a) \<le> en)
    \<and> (\<forall>i a. map_of (cc_chunkMap c) i = Some a \<and> st \<le> i \<and> i \<le> en \<longrightarrow> a \<in> set (findOverlappingChunks st en c))"
proof -
  from cache_wf_overlap [OF cache_reachable_wf [OF assms]]
  obtain f where f: "map_of (cc_chunkMap c) \<subseteq>\<^sub>m f" "tree_ok c f"
    "set (findOverlappingChunks st en c) = {a. \<exists>i. st \<le> i \<and> i \<le> en \<and> f i = Some a}"
    by blast
  have "f i = Some a" if "map_of (cc_chunkMap c) i = Some a" for i a
    using f(1) that by (metis domI map_le_def)
  with f(2,3) show ?thesis by (auto simp: tree_ok_def)
qed

text \<open>
  C12: Advancing the window does not release memory. A chunk of the cache that \<open>evictBefore\<close>
  removes from the map is still held by the interval tree: the search returns it.
\<close>

theorem evictBefore_leaves_tree:
  assumes "cache_reachable c" "map_of (cc_chunkMap c) i = Some a"
  shows "a \<in> set (findOverlappingChunks i i (evictBefore m c))
    \<and> (hasChunk i (evictBefore m c) \<longleftrightarrow> \<not> (cc_minIndex c < m \<and> i < m))"
proof -
  from cache_wf_overlap [OF cache_reachable_wf [OF assms(1)]]
  obtain f where f: "map_of (cc_chunkMap c) \<subseteq>\<^sub>m f"
    "set (findOverlappingChunks i i c) = {a. \<exists>j. i \<le> j \<and> j \<le> i \<and> f j = Some a}"
    by blast
  have "f i = Some a" using f(1) assms(2) by (metis domI map_le_def)
  moreover have "cc_heap (evictBefore m c) = cc_heap c" "cc_intervalTree (evictBefore m c) = cc_intervalTree c"
    by (simp_all add: evictBefore_def evictBefore_locked_def)
  then have "findOverlappingChunks i i (evictBefore m c) = findOverlappingChunks i i c"
    by (simp add: findOverlappingChunks_def split: option.split)
  ultimately have "a \<in> set (findOverlappingChunks i i (evictBefore m c))" using f(2) by auto
  moreover have "hasChunk i c" using assms(2) by (simp add: hasChunk_def go_has_def)
  ultimately show ?thesis by (simp add: hasChunk_evictBefore)
qed

section \<open>Instances\<close>

definition demo_chunk :: "int \<Rightarrow> int \<Rightarrow> chunk" where
  "demo_chunk i t = \<lparr>ck_index = i, ck_data = ''ab'', ck_size = 2, ck_lastUsed = t\<rparr>"

definition demo_cache :: chunkCache where
  "demo_cache = addChunk 11 1 (addChunk 10 0 (snd (new_chunk (demo_chunk 4 9) (snd (new_chunk (demo_chunk 3 8) (newChunkCache 2))))))"

lemma demo_cache_reachable: "cache_reachable demo_cache"
  unfolding demo_cache_def
  by (intro cache_reachable.step [OF _ cache_step.add] cache_reachable.step [OF _ cache_step.alloc] cache_reachable.init)
     (simp_all add: new_chunk_def newChunkCache_def demo_chunk_def addChunk_def tree_add_def interval_leaf_def Let_def)

lemma demo_cache_eval:
  "cc_chunkMap demo_cache = [(3, 0), (4, 1)]" "cc_minIndex demo_cache = 0"
  by (simp_all add: demo_cache_def new_chunk_def newChunkCache_def demo_chunk_def addChunk_def tree_add_def
      interval_leaf_def Let_def)

definition demo_full :: chunkCache where
  "demo_full = (newChunkCache 2)\<lparr>cc_chunkMap := [(7, 0), (8, 1), (9, 2)], cc_maxCacheSize := 2, cc_evictCount := 1,
     cc_heap := [demo_chunk 7 30, demo_chunk 8 10, demo_chunk 9 20]\<rparr>"

lemma demo_full_ok: "map_ok demo_full" "cc_maxCacheSize demo_full - cc_evictCount demo_full < length (cc_chunkMap demo_full)"
  by (simp_all add: demo_full_def map_ok_def newChunkCache_def demo_chunk_def)

theorem cache_bounded_witness:
  "length (cc_chunkMap demo_cache) \<le> 1024 \<and> map_of (cc_chunkMap demo_cache) 4 = Some 1
   \<and> cc_minIndex demo_cache \<le> 4 \<and> ck_index (cc_heap demo_cache ! 1) = 4"
  using cache_bounded [OF demo_cache_reachable] by (simp add: demo_cache_eval)

lemma demo_full_evict: "cc_chunkMap (evictOldest demo_full) = [(7, 0), (9, 2)]"
  by code_simp

theorem evictOldest_lru_witness:
  "cc_chunkMap demo_full = [(7, 0), (8, 1), (9, 2)] \<and> cc_chunkMap (evictOldest demo_full) = [(7, 0), (9, 2)]
   \<and> ck_lastUsed (cc_heap demo_full ! 1) \<le> ck_lastUsed (cc_heap demo_full ! 0)
   \<and> ck_lastUsed (cc_heap demo_full ! 1) \<le> ck_lastUsed (cc_heap demo_full ! 2)"
proof -
  have m: "cc_chunkMap demo_full = [(7, 0), (8, 1), (9, 2)]" by (simp add: demo_full_def)
  show ?thesis using evictOldest_lru [OF demo_full_ok] by (fastforce simp: m demo_full_evict)
qed

lemma demo_cache_reads: "map_of (cc_chunkMap demo_cache) 4 = Some 1"
  by (simp add: demo_cache_eval)

theorem overlap_search_witness:
  "1 \<in> set (findOverlappingChunks 4 9 demo_cache) \<and> 4 \<le> ck_index (cc_heap demo_cache ! 1)"
proof -
  have "(1::nat) \<in> set (findOverlappingChunks 4 9 demo_cache)"
    using conjunct2 [OF overlap_search_correct [OF demo_cache_reachable, of 4 9], rule_format, of 4 1] demo_cache_reads by simp
  then show ?thesis using overlap_search_correct [OF demo_cache_reachable, of 4 9] by blast
qed

theorem evictBefore_leaves_tree_witness:
  "0 \<in> set (findOverlappingChunks 3 3 (evictBefore 4 demo_cache)) \<and> \<not> hasChunk 3 (evictBefore 4 demo_cache)"
  using evictBefore_leaves_tree [OF demo_cache_reachable, of 3 0 4] by (simp add: demo_cache_eval)

end
