(* ===== verification/Go_Strings.thy ===== *)
theory Go_Strings
  imports Prelude "HOL-Library.Char_ord" "HOL-Library.List_Lexorder"
begin

text \<open>
  The functions of Go's package strings the repository calls, on byte strings: prefixes and
  suffixes, \<open>Cut\<close>, \<open>Split\<close>, \<open>Join\<close>, \<open>Contains\<close>, \<open>TrimSpace\<close>, \<open>ToLower\<close> and
  \<open>EqualFold\<close>.
\<close>

named_theorems go_string_simps \<open>evaluation of the string functions\<close>

text \<open>Go compares strings byte by byte, the lexicographic order on lists of characters.\<close>

lemma less_char_int [code]: "(c::char) < d \<longleftrightarrow> (of_char c :: int) < of_char d"
proof -
  have "(of_char c :: int) = int (of_char c)" for c by (simp add: of_nat_of_char)
  then show ?thesis by (simp add: less_char_def)
qed

section \<open>Prefixes, suffixes, occurrences\<close>

definition HasPrefix :: "string \<Rightarrow> string \<Rightarrow> bool" where
  "HasPrefix s p = prefix p s"

definition HasSuffix :: "string \<Rightarrow> string \<Rightarrow> bool" where
  "HasSuffix s p = suffix p s"

definition TrimPrefix :: "string \<Rightarrow> string \<Rightarrow> string" where
  "TrimPrefix s p = (if HasPrefix s p then drop (length p) s else s)"

definition TrimSuffix :: "string \<Rightarrow> string \<Rightarrow> string" where
  "TrimSuffix s p = (if HasSuffix s p then take (length s - length p) s else s)"

lemma HasPrefix_append [simp]: "HasPrefix (p @ s) p"
  by (simp add: HasPrefix_def)

lemma HasPrefix_iff: "HasPrefix s p \<longleftrightarrow> (\<exists>t. s = p @ t)"
  by (auto simp: HasPrefix_def prefix_def)

lemma HasSuffix_iff: "HasSuffix s p \<longleftrightarrow> (\<exists>t. s = t @ p)"
  by (auto simp: HasSuffix_def suffix_def)

lemma TrimPrefix_append [simp]: "TrimPrefix (p @ s) p = s"
  by (simp add: TrimPrefix_def)

lemma TrimSuffix_append [simp]: "TrimSuffix (s @ p) p = s"
  by (simp add: TrimSuffix_def HasSuffix_iff)

text \<open>The first occurrence of a separator: what stands before it and what after.\<close>

fun cut_at :: "string \<Rightarrow> string \<Rightarrow> (string \<times> string) option" where
  "cut_at sep [] = (if sep = [] then Some ([], []) else None)"
| "cut_at sep (c # s) =
     (if prefix sep (c # s) then Some ([], drop (length sep) (c # s))
      else map_option (\<lambda>(a, b). (c # a, b)) (cut_at sep s))"

definition Cut :: "string \<Rightarrow> string \<Rightarrow> string \<times> string \<times> bool" where
  "Cut s sep = (case cut_at sep s of None \<Rightarrow> (s, [], False) | Some (a, b) \<Rightarrow> (a, b, True))"

definition Contains :: "string \<Rightarrow> string \<Rightarrow> bool" where
  "Contains s sub = (cut_at sub s \<noteq> None)"

lemma cut_at_SomeD: "cut_at sep s = Some (a, b) \<Longrightarrow> s = a @ sep @ b"
proof (induction sep s arbitrary: a rule: cut_at.induct)
  case (1 sep)
  then show ?case by (auto split: if_splits)
next
  case (2 sep c s)
  show ?case
  proof (cases "prefix sep (c # s)")
    case True
    with "2.prems" show ?thesis by (auto simp: prefix_def)
  next
    case False
    with "2.prems" obtain a' where "cut_at sep s = Some (a', b)" "a = c # a'"
      by (auto split: prod.splits)
    with "2.IH" [OF False] show ?thesis by simp
  qed
qed

lemma cut_at_eq_None_iff: "cut_at sep s = None \<longleftrightarrow> \<not> (\<exists>a b. s = a @ sep @ b)"
proof (induction sep s rule: cut_at.induct)
  case (1 sep)
  then show ?case by auto
next
  case (2 sep c s)
  show ?case
  proof (cases "prefix sep (c # s)")
    case True
    then obtain b where "c # s = [] @ sep @ b" by (auto simp: prefix_def)
    then have "\<exists>a b. c # s = a @ sep @ b" by blast
    with True show ?thesis by simp
  next
    case False
    then have "(\<exists>a b. c # s = a @ sep @ b) \<longleftrightarrow> (\<exists>a b. s = a @ sep @ b)"
      by (metis append_Cons append_Nil list.inject neq_Nil_conv prefixI)
    with False "2.IH" [OF False] show ?thesis by simp
  qed
qed

lemma Contains_iff: "Contains s sub \<longleftrightarrow> (\<exists>a b. s = a @ sub @ b)"
  by (simp add: Contains_def cut_at_eq_None_iff)

lemma Contains_char: "Contains s [c] \<longleftrightarrow> c \<in> set s"
  by (auto simp: Contains_iff in_set_conv_decomp)

lemma cut_at_char_append: "c \<notin> set a \<Longrightarrow> cut_at [c] (a @ c # b) = Some (a, b)"
  by (induction a) (auto simp: prefix_def)

lemma cut_at_char_None: "c \<notin> set s \<Longrightarrow> cut_at [c] s = None"
  by (induction s) (auto simp: prefix_def)

text \<open>Cutting at a one-byte separator: the key of \<open>key=value\<close> holds no separator.\<close>

lemma Cut_char_append [simp]: "c \<notin> set a \<Longrightarrow> Cut (a @ c # b) [c] = (a, b, True)"
  by (simp add: Cut_def cut_at_char_append)

lemma Cut_char_None [simp]: "c \<notin> set s \<Longrightarrow> Cut s [c] = (s, [], False)"
  by (simp add: Cut_def cut_at_char_None)

lemma Cut_char_cases:
  obtains (none) "c \<notin> set s" "Cut s [c] = (s, [], False)"
  | (some) a b where "s = a @ c # b" "c \<notin> set a" "Cut s [c] = (a, b, True)"
proof (cases "c \<in> set s")
  case True
  then obtain a b where "s = a @ c # b" "c \<notin> set a" by (meson split_list_first)
  then show ?thesis using some by simp
next
  case False
  then show ?thesis using none by simp
qed

section \<open>Split and Join\<close>

fun Split :: "string \<Rightarrow> char \<Rightarrow> string list" where
  \<comment> \<open>\<open>strings.Split(s, sep)\<close> for a one-byte separator.\<close>
  "Split [] c = [[]]"
| "Split (x # s) c = (if x = c then [] # Split s c else (x # hd (Split s c)) # tl (Split s c))"

fun Join :: "string list \<Rightarrow> string \<Rightarrow> string" where
  "Join [] sep = []"
| "Join [s] sep = s"
| "Join (s # t # ss) sep = s @ sep @ Join (t # ss) sep"

lemma Split_nonempty [simp]: "Split s c \<noteq> []"
  by (cases s) auto

text \<open>The equations to compute with: one recursive call.\<close>

lemma Split_code [code]:
  "Split [] c = [[]]"
  "Split (x # s) c =
     (if x = c then [] # Split s c else (case Split s c of [] \<Rightarrow> [[x]] | t # ts \<Rightarrow> (x # t) # ts))"
  using Split_nonempty [of s c] by (auto split: list.split simp del: Split_nonempty)

lemma Join_Cons: "ss \<noteq> [] \<Longrightarrow> Join (s # ss) sep = s @ sep @ Join ss sep"
  by (cases ss) auto

lemma Join_hd_append: "Join ((x # s) # ss) sep = x # Join (s # ss) sep"
  by (cases ss) auto

lemma Join_Split [simp]: "Join (Split s c) [c] = s"
proof (induction s)
  case Nil
  then show ?case by simp
next
  case (Cons x s)
  have "hd (Split s c) # tl (Split s c) = Split s c" by simp
  with Cons show ?case by (simp add: Join_Cons Join_hd_append del: Split.simps(1))
qed

lemma Split_no_sep: "t \<in> set (Split s c) \<Longrightarrow> c \<notin> set t"
proof (induction s arbitrary: t)
  case Nil
  then show ?case by simp
next
  case (Cons x s)
  have "hd (Split s c) \<in> set (Split s c)" by simp
  moreover have "set (tl (Split s c)) \<subseteq> set (Split s c)" by (simp add: list.set_sel(2) subsetI)
  ultimately show ?case using Cons by (auto split: if_splits)
qed

lemma Split_append_sep: "c \<notin> set s \<Longrightarrow> Split (s @ c # t) c = s # Split t c"
  by (induction s) auto

lemma Split_no_occurrence: "c \<notin> set s \<Longrightarrow> Split s c = [s]"
  by (induction s) auto

lemma Split_Join:
  "ss \<noteq> [] \<Longrightarrow> (\<forall>s \<in> set ss. c \<notin> set s) \<Longrightarrow> Split (Join ss [c]) c = ss"
proof (induction ss)
  case Nil
  then show ?case by simp
next
  case (Cons s ss)
  show ?case
  proof (cases "ss = []")
    case True
    with Cons.prems show ?thesis by (simp add: Split_no_occurrence)
  next
    case False
    with Cons show ?thesis by (simp add: Join_Cons Split_append_sep)
  qed
qed

text \<open>\<open>strings.SplitN(s, sep, 2)\<close>: at most one cut.\<close>

definition SplitN2 :: "string \<Rightarrow> string \<Rightarrow> string list" where
  "SplitN2 s sep = (case cut_at sep s of None \<Rightarrow> [s] | Some (a, b) \<Rightarrow> [a, b])"

section \<open>TrimSpace\<close>

text \<open>
  The UTF-8 encodings of the runes for which \<open>unicode.IsSpace\<close> holds. A rune at either end of
  the string is one of these exactly when the string starts (ends) with its encoding.
\<close>

definition space_encodings :: "string list" where
  "space_encodings =
     [[CHR 0x09], [CHR 0x0A], [CHR 0x0B], [CHR 0x0C], [CHR 0x0D], [CHR 0x20],
      [CHR 0xC2, CHR 0x85], [CHR 0xC2, CHR 0xA0],
      [CHR 0xE1, CHR 0x9A, CHR 0x80],
      [CHR 0xE2, CHR 0x80, CHR 0x80], [CHR 0xE2, CHR 0x80, CHR 0x81], [CHR 0xE2, CHR 0x80, CHR 0x82],
      [CHR 0xE2, CHR 0x80, CHR 0x83], [CHR 0xE2, CHR 0x80, CHR 0x84], [CHR 0xE2, CHR 0x80, CHR 0x85],
      [CHR 0xE2, CHR 0x80, CHR 0x86], [CHR 0xE2, CHR 0x80, CHR 0x87], [CHR 0xE2, CHR 0x80, CHR 0x88],
      [CHR 0xE2, CHR 0x80, CHR 0x89], [CHR 0xE2, CHR 0x80, CHR 0x8A], [CHR 0xE2, CHR 0x80, CHR 0xA8],
      [CHR 0xE2, CHR 0x80, CHR 0xA9], [CHR 0xE2, CHR 0x80, CHR 0xAF], [CHR 0xE2, CHR 0x81, CHR 0x9F],
      [CHR 0xE3, CHR 0x80, CHR 0x80]]"

fun strip_with :: "string list \<Rightarrow> nat \<Rightarrow> string \<Rightarrow> string" where
  \<comment> \<open>Drop leading members of \<open>encs\<close>; at most \<open>n\<close> of them.\<close>
  "strip_with encs 0 s = s"
| "strip_with encs (Suc n) s =
     (case find (\<lambda>e. prefix e s) encs of
        None \<Rightarrow> s
      | Some e \<Rightarrow> strip_with encs n (drop (length e) s))"

definition TrimLeftSpace :: "string \<Rightarrow> string" where
  "TrimLeftSpace s = strip_with space_encodings (length s) s"

definition TrimRightSpace :: "string \<Rightarrow> string" where
  "TrimRightSpace s = rev (strip_with (map rev space_encodings) (length s) (rev s))"

definition TrimSpace :: "string \<Rightarrow> string" where
  "TrimSpace s = TrimRightSpace (TrimLeftSpace s)"

text \<open>
  The length of the string is enough fuel: every encoding has at least one byte, so what is left
  starts with none of them.
\<close>

lemma strip_with_fuel:
  assumes "[] \<notin> set encs" and "length s \<le> n"
  shows "\<not> (\<exists>e \<in> set encs. prefix e (strip_with encs n s))"
  using assms(2)
proof (induction n arbitrary: s)
  case 0
  with assms(1) show ?case by auto
next
  case (Suc n)
  show ?case
  proof (cases "find (\<lambda>e. prefix e s) encs")
    case None
    then have "\<not> (\<exists>e \<in> set encs. prefix e s)" by (auto simp: find_None_iff)
    with None show ?thesis by simp
  next
    case (Some e)
    then have "e \<in> set encs" by (metis find_Some_iff nth_mem)
    with assms(1) have "e \<noteq> []" by metis
    with Suc.prems have "length (drop (length e) s) \<le> n" by (cases e) auto
    with Some show ?thesis using Suc.IH by simp
  qed
qed

lemma strip_with_suffix: "\<exists>t. s = t @ strip_with encs n s"
proof (induction encs n s rule: strip_with.induct)
  case (1 encs s)
  then show ?case by simp
next
  case (2 encs n s)
  show ?case
  proof (cases "find (\<lambda>e. prefix e s) encs")
    case None
    then show ?thesis by simp
  next
    case (Some e)
    with "2.IH" [OF Some] obtain t where "drop (length e) s = t @ strip_with encs n (drop (length e) s)"
      by blast
    then have "s = (take (length e) s @ t) @ strip_with encs n (drop (length e) s)"
      by (metis append.assoc append_take_drop_id)
    with Some show ?thesis
      by (intro exI [of _ "take (length e) s @ t"]) simp
  qed
qed

lemma TrimSpace_set_subset: "set (TrimSpace s) \<subseteq> set s"
proof -
  obtain t where t: "s = t @ TrimLeftSpace s"
    unfolding TrimLeftSpace_def using strip_with_suffix by blast
  obtain u where "rev (TrimLeftSpace s) = u @ rev (TrimSpace s)"
    unfolding TrimSpace_def TrimRightSpace_def using strip_with_suffix by fastforce
  then have "set (TrimSpace s) \<subseteq> set (TrimLeftSpace s)" by (metis Un_upper2 set_append set_rev)
  also have "\<dots> \<subseteq> set s" by (subst t) simp
  finally show ?thesis .
qed

section \<open>ToLower and EqualFold\<close>

definition lower_char :: "char \<Rightarrow> char" where
  "lower_char c = (let n = (of_char c :: nat) in if 65 \<le> n \<and> n \<le> 90 then char_of (n + 32) else c)"

definition ToLower :: "string \<Rightarrow> string" where
  \<comment> \<open>ASCII letters; the bytes of other runes are left as they are.\<close>
  "ToLower s = map lower_char s"

lemma lower_char_idem [simp]: "lower_char (lower_char c) = lower_char c"
  by (auto simp: lower_char_def Let_def)

lemma ToLower_idem [simp]: "ToLower (ToLower s) = ToLower s"
  by (simp add: ToLower_def)

text \<open>
  \<open>strings.EqualFold\<close> against a lower-case ASCII word. Under Unicode simple folding the only
  non-ASCII runes equal to an ASCII letter are U+017F (long s) and U+212A (Kelvin sign).
\<close>

fun fold_matches :: "string \<Rightarrow> string \<Rightarrow> bool" where
  "fold_matches s [] = (s = [])"
| "fold_matches s (p # ps) =
     ((s \<noteq> [] \<and> lower_char (hd s) = p \<and> fold_matches (tl s) ps)
      \<or> (p = CHR ''s'' \<and> prefix [CHR 0xC5, CHR 0xBF] s \<and> fold_matches (drop 2 s) ps)
      \<or> (p = CHR ''k'' \<and> prefix [CHR 0xE2, CHR 0x84, CHR 0xAA] s \<and> fold_matches (drop 3 s) ps))"

definition EqualFold :: "string \<Rightarrow> string \<Rightarrow> bool" where
  "EqualFold s word = fold_matches s (ToLower word)"

lemma EqualFold_lower: "EqualFold (map f s) s" if "\<And>c. c \<in> set s \<Longrightarrow> lower_char (f c) = lower_char c"
proof -
  have "fold_matches (map f t) (map lower_char t)" if "set t \<subseteq> set s" for t
    using that by (induction t) (auto simp: \<open>\<And>c. c \<in> set s \<Longrightarrow> lower_char (f c) = lower_char c\<close>)
  then show ?thesis by (simp add: EqualFold_def ToLower_def)
qed

lemma EqualFold_refl [simp]: "EqualFold s s"
  using EqualFold_lower [of s "\<lambda>c. c"] by simp

end
