(* ===== verification/Go_Encoding.thy ===== *)
theory Go_Encoding
  imports Go_Strings
begin

text \<open>
  The parts of Go's strconv, encoding/base64 and encoding/hex the repository calls: decimal
  integers at a bit width, the two base64 alphabets' decoders and the hexadecimal codec.
\<close>

section \<open>Decimal integers\<close>

definition digit_value :: "char \<Rightarrow> nat option" where
  "digit_value c = (let n = (of_char c :: nat) in if 48 \<le> n \<and> n \<le> 57 then Some (n - 48) else None)"

definition digit_char :: "nat \<Rightarrow> char" where
  "digit_char d = char_of (48 + d)"

text \<open>
  The digit loop of \<open>strconv.ParseUint\<close> in base 10: the first byte that is no digit is a syntax
  error, the first digit that takes the value over the width's maximum a range error, whichever
  comes first.
\<close>

fun parse_digits :: "nat \<Rightarrow> nat \<Rightarrow> string \<Rightarrow> goerr + nat" where
  "parse_digits bits n [] = Inr n"
| "parse_digits bits n (c # s) =
     (case digit_value c of
        None \<Rightarrow> Inl SyntaxError
      | Some d \<Rightarrow> if n * 10 + d \<ge> 2 ^ bits then Inl RangeError else parse_digits bits (n * 10 + d) s)"

definition ParseUint :: "string \<Rightarrow> nat \<Rightarrow> goerr + nat" where
  "ParseUint s bits = (if s = [] then Inl SyntaxError else parse_digits bits 0 s)"

text \<open>\<open>strconv.ParseInt(s, 10, bits)\<close>: an optional sign, then the digits at 64 bits, then the cut-off.\<close>

definition ParseInt :: "string \<Rightarrow> nat \<Rightarrow> goerr + int" where
  "ParseInt s bits =
     (case s of
        [] \<Rightarrow> Inl SyntaxError
      | c # t \<Rightarrow>
          (let neg = (c = CHR ''-'');
               digits = (if c = CHR ''+'' \<or> c = CHR ''-'' then t else s)
           in case (if digits = [] then Inl SyntaxError else parse_digits 64 0 digits) of
                Inl e \<Rightarrow> Inl e
              | Inr un \<Rightarrow>
                  if \<not> neg \<and> un \<ge> 2 ^ (bits - 1) then Inl RangeError
                  else if neg \<and> un > 2 ^ (bits - 1) then Inl RangeError
                  else Inr (if neg then - int un else int un)))"

text \<open>The equations to compute with: the limits are binary integers.\<close>

lemma nat_limit: "n \<ge> 2 ^ k \<longleftrightarrow> (2::int) ^ k \<le> int n" "n > 2 ^ k \<longleftrightarrow> (2::int) ^ k < int n"
  by (metis of_nat_le_iff of_nat_numeral of_nat_power) (metis of_nat_less_iff of_nat_numeral of_nat_power)

lemmas parse_digits_code [code] = parse_digits.simps [unfolded nat_limit]

lemmas ParseInt_code [code] = ParseInt_def [unfolded nat_limit]

text \<open>\<open>fmt.Sprintf("%d", i)\<close>.\<close>

fun nat_digits :: "nat \<Rightarrow> string" where
  "nat_digits n = (if n < 10 then [digit_char n] else nat_digits (n div 10) @ [digit_char (n mod 10)])"

declare nat_digits.simps [simp del]

definition FormatInt :: "int \<Rightarrow> string" where
  "FormatInt i = (if i < 0 then CHR ''-'' # nat_digits (nat (- i)) else nat_digits (nat i))"

lemma digit_value_digit_char [simp]: "d < 10 \<Longrightarrow> digit_value (digit_char d) = Some d"
  by (simp add: digit_value_def digit_char_def)

lemma nat_digits_nonempty [simp]: "nat_digits n \<noteq> []"
  by (subst nat_digits.simps) simp

lemma parse_digits_append:
  "parse_digits bits n (s @ t) = res_bind (parse_digits bits n s) (\<lambda>m. parse_digits bits m t)"
  by (induction bits n s rule: parse_digits.induct) (auto split: option.splits)

lemma parse_nat_digits: "n < 2 ^ bits \<Longrightarrow> parse_digits bits 0 (nat_digits n) = Inr n"
proof (induction n rule: nat_digits.induct)
  case (1 n)
  show ?case
  proof (cases "n < 10")
    case True
    with "1.prems" show ?thesis by (simp add: nat_digits.simps [of n])
  next
    case False
    from "1.prems" have "n div 10 < 2 ^ bits"
      by (meson div_le_dividend le_less_trans)
    with False have "parse_digits bits 0 (nat_digits (n div 10)) = Inr (n div 10)"
      by (rule "1.IH")
    moreover have "n div 10 * 10 + n mod 10 = n" by simp
    ultimately show ?thesis
      using False "1.prems" by (simp add: nat_digits.simps [of n] parse_digits_append)
  qed
qed

lemma parse_nat_digits_eq: "parse_digits bits 0 (nat_digits n) = Inr m \<Longrightarrow> m = n"
proof (induction n arbitrary: m rule: nat_digits.induct)
  case (1 n)
  show ?case
  proof (cases "n < 10")
    case True
    with "1.prems" show ?thesis by (simp add: nat_digits.simps [of n] split: if_splits)
  next
    case False
    with "1.prems" obtain k where "parse_digits bits 0 (nat_digits (n div 10)) = Inr k" "k * 10 + n mod 10 = m"
      by (auto simp: nat_digits.simps [of n] parse_digits_append result_simps split: if_splits)
    with "1.IH" [OF False] show ?thesis by (metis div_mult_mod_eq)
  qed
qed

lemma nat_digits_hd: "\<exists>d < 10. hd (nat_digits n) = digit_char d"
proof (induction n rule: nat_digits.induct)
  case (1 n)
  show ?case
  proof (cases "n < 10")
    case True
    then show ?thesis by (auto simp: nat_digits.simps [of n])
  next
    case False
    with "1.IH" show ?thesis by (simp add: nat_digits.simps [of n])
  qed
qed

lemma digit_char_not_sign: "d < 10 \<Longrightarrow> digit_char d \<noteq> CHR ''-'' \<and> digit_char d \<noteq> CHR ''+''"
proof
  assume d: "d < 10"
  have "digit_value (CHR ''-'') = None" "digit_value (CHR ''+'') = None"
    by (simp_all add: digit_value_def)
  with d show "digit_char d \<noteq> CHR ''-''" "digit_char d \<noteq> CHR ''+''"
    by (metis digit_value_digit_char option.distinct(1))+
qed

text \<open>Printing a 64-bit integer and reading it back gives the integer.\<close>

lemma ParseInt_FormatInt:
  assumes "- (2 ^ 63) \<le> i" "i < 2 ^ 63"
  shows "ParseInt (FormatInt i) 64 = Inr i"
proof (cases "i < 0")
  case True
  with assms have "nat (- i) < 2 ^ 64" "nat (- i) \<le> 2 ^ 63" by auto
  with True show ?thesis by (simp add: ParseInt_def FormatInt_def Let_def parse_nat_digits)
next
  case False
  with assms have n: "nat i < 2 ^ 64" "nat i < 2 ^ 63" by auto
  obtain c t where ct: "nat_digits (nat i) = c # t" by (meson nat_digits_nonempty neq_Nil_conv)
  with nat_digits_hd [of "nat i"] digit_char_not_sign have "c \<noteq> CHR ''-'' \<and> c \<noteq> CHR ''+''" by auto
  with False n ct parse_nat_digits [OF n(1)] show ?thesis
    by (simp add: ParseInt_def FormatInt_def Let_def)
qed

lemma ParseInt_FormatInt_eq:
  assumes "0 \<le> i" "ParseInt (FormatInt i) bits = Inr j"
  shows "j = i"
proof -
  obtain c t where ct: "nat_digits (nat i) = c # t" by (meson nat_digits_nonempty neq_Nil_conv)
  with nat_digits_hd [of "nat i"] digit_char_not_sign have "c \<noteq> CHR ''-'' \<and> c \<noteq> CHR ''+''" by auto
  with assms ct have "\<exists>un. parse_digits 64 0 (nat_digits (nat i)) = Inr un \<and> j = int un"
    by (auto simp: ParseInt_def FormatInt_def Let_def split: sum.splits if_splits)
  with assms(1) show ?thesis by (auto dest: parse_nat_digits_eq)
qed

lemma ParseInt_range:
  assumes "ParseInt s 64 = Inr i"
  shows "- (2 ^ 63) \<le> i \<and> i < 2 ^ 63"
  using assms
  by (auto simp: ParseInt_def Let_def split: list.splits sum.splits if_splits)

lemma parse_digits_bound: "parse_digits bits n s = Inr m \<Longrightarrow> n < 2 ^ bits \<Longrightarrow> m < 2 ^ bits"
  by (induction bits n s rule: parse_digits.induct) (auto split: option.splits if_splits)

lemma ParseUint_range: "ParseUint s bits = Inr n \<Longrightarrow> n < 2 ^ bits"
  by (auto simp: ParseUint_def split: if_splits dest: parse_digits_bound)

section \<open>Hexadecimal\<close>

definition hex_char :: "nat \<Rightarrow> char" where
  "hex_char d = (if d < 10 then char_of (48 + d) else char_of (87 + d))"

definition hex_value :: "char \<Rightarrow> nat option" where
  "hex_value c = (let n = (of_char c :: nat) in
     if 48 \<le> n \<and> n \<le> 57 then Some (n - 48)
     else if 97 \<le> n \<and> n \<le> 102 then Some (n - 87)
     else if 65 \<le> n \<and> n \<le> 70 then Some (n - 55)
     else None)"

fun hex_EncodeToString :: "bytes \<Rightarrow> string" where
  "hex_EncodeToString [] = []"
| "hex_EncodeToString (b # bs) =
     hex_char (of_char b div 16) # hex_char (of_char b mod 16) # hex_EncodeToString bs"

fun hex_DecodeString :: "string \<Rightarrow> goerr + bytes" where
  "hex_DecodeString [] = Inr []"
| "hex_DecodeString [c] = Inl CorruptInput"
| "hex_DecodeString (c # d # s) =
     (case (hex_value c, hex_value d) of
        (Some a, Some b) \<Rightarrow> res_bind (hex_DecodeString s) (\<lambda>bs. Inr (char_of (a * 16 + b) # bs))
      | _ \<Rightarrow> Inl CorruptInput)"

lemma hex_value_hex_char [simp]: "d < 16 \<Longrightarrow> hex_value (hex_char d) = Some d"
  by (auto simp: hex_value_def hex_char_def)

lemma length_hex_EncodeToString [simp]: "length (hex_EncodeToString bs) = 2 * length bs"
  by (induction bs) auto

lemma of_char_less_256: "(of_char c :: nat) < 256"
  by (metis of_char_mod_256 mod_less_divisor zero_less_numeral)

lemma of_char_div_less:
  "(of_char c :: nat) div 4 < 64" "(of_char c :: nat) div 16 < 16" "(of_char c :: nat) div 64 < 4"
  by (rule less_mult_imp_div_less, use of_char_less_256 [of c] in linarith)+

lemma hex_roundtrip: "hex_DecodeString (hex_EncodeToString bs) = Inr bs"
proof (induction bs)
  case Nil
  then show ?case by simp
next
  case (Cons b bs)
  from Cons of_char_div_less [of b] show ?case by simp
qed

text \<open>A string decodes exactly when it has even length and hexadecimal digits only.\<close>

lemma hex_DecodeString_ok_iff:
  "(\<exists>bs. hex_DecodeString s = Inr bs) \<longleftrightarrow> even (length s) \<and> (\<forall>c \<in> set s. hex_value c \<noteq> None)"
  by (induction s rule: hex_DecodeString.induct) (auto simp: result_simps split: option.splits)

lemma hex_DecodeString_length: "hex_DecodeString s = Inr bs \<Longrightarrow> length s = 2 * length bs"
  by (induction s arbitrary: bs rule: hex_DecodeString.induct)
    (auto simp: result_simps split: option.splits)

lemma hex_char_lower: "d < 16 \<Longrightarrow> lower_char (hex_char d) = hex_char d"
  by (auto simp: lower_char_def hex_char_def Let_def)

lemma hex_EncodeToString_lower: "ToLower (hex_EncodeToString bs) = hex_EncodeToString bs"
proof (induction bs)
  case Nil
  then show ?case by (simp add: ToLower_def)
next
  case (Cons b bs)
  from Cons of_char_div_less [of b] show ?case by (simp add: ToLower_def hex_char_lower)
qed

section \<open>Base64\<close>

definition b64_value :: "char \<Rightarrow> nat option" where
  "b64_value c = (let n = (of_char c :: nat) in
     if 65 \<le> n \<and> n \<le> 90 then Some (n - 65)
     else if 97 \<le> n \<and> n \<le> 122 then Some (n - 71)
     else if 48 \<le> n \<and> n \<le> 57 then Some (n + 4)
     else if n = 43 then Some 62
     else if n = 47 then Some 63
     else None)"

definition b64_char :: "nat \<Rightarrow> char" where
  "b64_char v =
     (if v < 26 then char_of (65 + v) else if v < 52 then char_of (71 + v)
      else if v < 62 then char_of (v - 4) else if v = 62 then CHR ''+'' else CHR ''/'')"

text \<open>
  The decoder over four-character groups, after carriage returns and line feeds are skipped (the
  decoder skips them everywhere). \<open>StdEncoding\<close> needs the padding and nothing may follow it;
  \<open>RawStdEncoding\<close> has no padding. Unused low bits of a short last group are ignored.
\<close>

fun b64_groups :: "bool \<Rightarrow> string \<Rightarrow> goerr + bytes" where
  "b64_groups padded [] = Inr []"
| "b64_groups padded [a] = Inl CorruptInput"
| "b64_groups padded [a, b] =
     (if padded then Inl CorruptInput
      else case (b64_value a, b64_value b) of
        (Some x, Some y) \<Rightarrow> Inr [char_of (x * 4 + y div 16)]
      | _ \<Rightarrow> Inl CorruptInput)"
| "b64_groups padded [a, b, c] =
     (if padded then Inl CorruptInput
      else case (b64_value a, b64_value b, b64_value c) of
        (Some x, Some y, Some z) \<Rightarrow> Inr [char_of (x * 4 + y div 16), char_of (y mod 16 * 16 + z div 4)]
      | _ \<Rightarrow> Inl CorruptInput)"
| "b64_groups padded (a # b # c # d # s) =
     (case (b64_value a, b64_value b, b64_value c, b64_value d) of
        (Some x, Some y, Some z, Some w) \<Rightarrow>
          res_bind (b64_groups padded s) (\<lambda>bs.
            Inr (char_of (x * 4 + y div 16) # char_of (y mod 16 * 16 + z div 4)
                 # char_of (z mod 4 * 64 + w) # bs))
      | (Some x, Some y, Some z, None) \<Rightarrow>
          if padded \<and> d = CHR ''='' \<and> s = []
          then Inr [char_of (x * 4 + y div 16), char_of (y mod 16 * 16 + z div 4)]
          else Inl CorruptInput
      | (Some x, Some y, None, _) \<Rightarrow>
          if padded \<and> c = CHR ''='' \<and> d = CHR ''='' \<and> s = []
          then Inr [char_of (x * 4 + y div 16)]
          else Inl CorruptInput
      | _ \<Rightarrow> Inl CorruptInput)"

definition StdEncoding_DecodeString :: "string \<Rightarrow> goerr + bytes" where
  "StdEncoding_DecodeString s = b64_groups True (filter (\<lambda>c. c \<noteq> CHR 0x0A \<and> c \<noteq> CHR 0x0D) s)"

definition RawStdEncoding_DecodeString :: "string \<Rightarrow> goerr + bytes" where
  "RawStdEncoding_DecodeString s = b64_groups False (filter (\<lambda>c. c \<noteq> CHR 0x0A \<and> c \<noteq> CHR 0x0D) s)"

text \<open>The reference encoder the peers of the shim use.\<close>

fun StdEncoding_EncodeToString :: "bytes \<Rightarrow> string" where
  "StdEncoding_EncodeToString [] = []"
| "StdEncoding_EncodeToString [a] =
     [b64_char (of_char a div 4), b64_char (of_char a mod 4 * 16), CHR ''='', CHR ''='']"
| "StdEncoding_EncodeToString [a, b] =
     [b64_char (of_char a div 4), b64_char (of_char a mod 4 * 16 + of_char b div 16),
      b64_char (of_char b mod 16 * 4), CHR ''='']"
| "StdEncoding_EncodeToString (a # b # c # s) =
     b64_char (of_char a div 4) # b64_char (of_char a mod 4 * 16 + of_char b div 16)
     # b64_char (of_char b mod 16 * 4 + of_char c div 64) # b64_char (of_char c mod 64)
     # StdEncoding_EncodeToString s"

lemma b64_value_b64_char [simp]: "v < 64 \<Longrightarrow> b64_value (b64_char v) = Some v"
  by (auto simp: b64_value_def b64_char_def Let_def)

lemma b64_value_pad [simp]: "b64_value (CHR ''='') = None"
  by (simp add: b64_value_def)

lemma b64_sextets:
  fixes a b c :: char
  shows "(of_char a :: nat) div 4 < 64"
    and "(of_char a :: nat) mod 4 * 16 < 64"
    and "(of_char a :: nat) mod 4 * 16 + of_char b div 16 < 64"
    and "(of_char b :: nat) mod 16 * 4 < 64"
    and "(of_char b :: nat) mod 16 * 4 + of_char c div 64 < 64"
    and "(of_char c :: nat) mod 64 < 64"
proof -
  note of_char_div_less [of a] of_char_div_less [of b] of_char_div_less [of c]
  moreover have "(of_char a :: nat) mod 4 < 4" "(of_char b :: nat) mod 16 < 16" by simp_all
  ultimately show "(of_char a :: nat) div 4 < 64"
    and "(of_char a :: nat) mod 4 * 16 < 64"
    and "(of_char a :: nat) mod 4 * 16 + of_char b div 16 < 64"
    and "(of_char b :: nat) mod 16 * 4 < 64"
    and "(of_char b :: nat) mod 16 * 4 + of_char c div 64 < 64"
    and "(of_char c :: nat) mod 64 < 64"
    by linarith+
qed

lemma b64_octets:
  fixes a b c :: char
  defines "A \<equiv> (of_char a :: nat)" and "B \<equiv> (of_char b :: nat)" and "C \<equiv> (of_char c :: nat)"
  shows "A div 4 * 4 + (A mod 4 * 16) div 16 = A"
    and "A div 4 * 4 + (A mod 4 * 16 + B div 16) div 16 = A"
    and "(A mod 4 * 16 + B div 16) mod 16 * 16 + (B mod 16 * 4) div 4 = B"
    and "(A mod 4 * 16 + B div 16) mod 16 * 16 + (B mod 16 * 4 + C div 64) div 4 = B"
    and "(B mod 16 * 4 + C div 64) mod 4 * 64 + C mod 64 = C"
proof -
  have B: "B div 16 < 16" and C: "C div 64 < 4"
    unfolding B_def C_def by (rule of_char_div_less)+
  then have "(A mod 4 * 16 + B div 16) div 16 = A mod 4" "(A mod 4 * 16 + B div 16) mod 16 = B div 16"
    "(B mod 16 * 4 + C div 64) div 4 = B mod 16" "(B mod 16 * 4 + C div 64) mod 4 = C div 64"
    by simp_all
  then show "A div 4 * 4 + (A mod 4 * 16) div 16 = A"
    and "A div 4 * 4 + (A mod 4 * 16 + B div 16) div 16 = A"
    and "(A mod 4 * 16 + B div 16) mod 16 * 16 + (B mod 16 * 4) div 4 = B"
    and "(A mod 4 * 16 + B div 16) mod 16 * 16 + (B mod 16 * 4 + C div 64) div 4 = B"
    and "(B mod 16 * 4 + C div 64) mod 4 * 64 + C mod 64 = C"
    by (simp_all add: div_mult_mod_eq)
qed

lemma b64_groups_encode: "b64_groups True (StdEncoding_EncodeToString bs) = Inr bs"
proof (induction bs rule: StdEncoding_EncodeToString.induct)
  case 1
  then show ?case by simp
next
  case (2 a)
  then show ?case using b64_sextets(1,2) [of a] b64_octets(1) [of a] by simp
next
  case (3 a b)
  then show ?case using b64_sextets(1,3,4) b64_octets(2,3) [of a b] by (simp del: div_mult_self3)
next
  case (4 a b c s)
  then show ?case
    using b64_sextets(1,3,5,6) b64_octets(2,4,5) [of a b] b64_octets(5) [of b c] by simp
qed

lemma encode_no_newline:
  "set (StdEncoding_EncodeToString bs) \<subseteq> - {CHR 0x0A, CHR 0x0D}"
proof -
  have "b64_char v \<noteq> CHR 0x0A \<and> b64_char v \<noteq> CHR 0x0D" if "v < 64" for v
  proof -
    have "b64_value (CHR 0x0A) = None" "b64_value (CHR 0x0D) = None" by (simp_all add: b64_value_def)
    with that show ?thesis by (metis b64_value_b64_char option.distinct(1))
  qed
  then show ?thesis
    by (induction bs rule: StdEncoding_EncodeToString.induct) (simp_all add: b64_sextets)
qed

theorem StdEncoding_roundtrip: "StdEncoding_DecodeString (StdEncoding_EncodeToString bs) = Inr bs"
proof -
  have "filter (\<lambda>c. c \<noteq> CHR 0x0A \<and> c \<noteq> CHR 0x0D) (StdEncoding_EncodeToString bs)
        = StdEncoding_EncodeToString bs"
    using encode_no_newline [of bs] by (intro filter_True) auto
  then show ?thesis by (simp add: StdEncoding_DecodeString_def b64_groups_encode)
qed

end
