(* ===== verification/Prefetcher.thy ===== *)
theory Prefetcher
  imports Prefetch_Cache Go_Encoding
begin

text \<open>
  The prefetcher (\<open>pkg/prefetch/prefetch.go\<close>): concurrent \<open>ReadAt\<close> over a slow reader,
  with a chunk cache, read-ahead, a semaphore on the reads, duplicate suppression by a
  \<open>singleflight.Group\<close> and an orderly \<open>Close\<close>.

  The state is the shared object together with a list of goroutines, each with its program
  counter. \<open>goroutine_step\<close> lists the outcomes of the next atomic section of a goroutine, in
  the order of the code, and \<open>sys_step\<close> interleaves them. The reader is a parameter
  \<open>rd\<close>: the outcomes of \<open>reader.ReadAt\<close> on a buffer of a given length at a given offset, each
  the buffer, the count and the error. A timer may always fire. Chunk indices and offsets are
  64-bit in the code, so sums and products are wrapped with \<open>i64\<close>.
\<close>

section \<open>64-bit arithmetic\<close>

definition i64 :: "int \<Rightarrow> int" where
  "i64 x = (x + 2 ^ 63) mod 2 ^ 64 - 2 ^ 63"

lemma i64_wrap: "2 ^ 63 \<le> x \<Longrightarrow> x < 2 ^ 63 + 2 ^ 64 \<Longrightarrow> i64 x = x - 2 ^ 64"
proof -
  assume "2 ^ 63 \<le> x" "x < 2 ^ 63 + 2 ^ 64"
  then have "(x - 2 ^ 63) mod 2 ^ 64 = x - 2 ^ 63" by simp
  moreover have "(x + 2 ^ 63) mod 2 ^ 64 = (x + 2 ^ 63 - 2 ^ 64) mod 2 ^ 64" by (simp only: minus_mod_self2)
  ultimately show ?thesis by (simp add: i64_def)
qed

lemma i64_id: "- (2 ^ 63) \<le> x \<Longrightarrow> x < 2 ^ 63 \<Longrightarrow> i64 x = x"
  by (simp add: i64_def)

lemma i64_nonneg [simp]: "0 \<le> x \<Longrightarrow> x < 9223372036854775808 \<Longrightarrow> i64 x = x"
  by (simp add: i64_def)

lemma i64_range: "- (2 ^ 63) \<le> i64 x \<and> i64 x < 2 ^ 63"
  using pos_mod_bound [of "2 ^ 64" "x + 2 ^ 63"] pos_mod_sign [of "2 ^ 64" "x + 2 ^ 63"]
  by (simp add: i64_def)

definition quot :: "int \<Rightarrow> int \<Rightarrow> int" where
  \<comment> \<open>Go's division, which rounds towards zero\<close>
  "quot a b = sgn a * sgn b * (\<bar>a\<bar> div \<bar>b\<bar>)"

lemma quot_nonneg: "0 \<le> a \<Longrightarrow> 0 < b \<Longrightarrow> quot a b = a div b"
  by (cases "a = 0") (auto simp: quot_def)

section \<open>Configuration\<close>

record config =
  cf_WindowSize :: int
  cf_ChunkSize :: int
  cf_MaxParallelReads :: int
  cf_ReadTimeout :: int
  cf_RetryInterval :: int
  cf_MaxRetries :: int

definition DefaultConfig :: config where
  "DefaultConfig = \<lparr>cf_WindowSize = 2 ^ 20, cf_ChunkSize = 2 ^ 16, cf_MaxParallelReads = 4,
     cf_ReadTimeout = 2 ^ 63 - 1, cf_RetryInterval = 500000000, cf_MaxRetries = 3\<rparr>"

definition normalise_config :: "config \<Rightarrow> config" where
  "normalise_config c0 =
     (let c1 = (if cf_WindowSize c0 \<le> 0 then c0\<lparr>cf_WindowSize := cf_WindowSize DefaultConfig\<rparr> else c0);
          c2 = (if cf_ChunkSize c1 \<le> 0 then c1\<lparr>cf_ChunkSize := cf_ChunkSize DefaultConfig\<rparr> else c1);
          c3 = (if cf_MaxParallelReads c2 \<le> 0 then c2\<lparr>cf_MaxParallelReads := cf_MaxParallelReads DefaultConfig\<rparr> else c2);
          c4 = (if cf_ReadTimeout c3 \<le> 0 then c3\<lparr>cf_ReadTimeout := cf_ReadTimeout DefaultConfig\<rparr> else c3);
          c5 = (if cf_RetryInterval c4 \<le> 0 then c4\<lparr>cf_RetryInterval := cf_RetryInterval DefaultConfig\<rparr> else c4);
          c6 = (if cf_MaxRetries c5 < 0 then c5\<lparr>cf_MaxRetries := cf_MaxRetries DefaultConfig\<rparr> else c5)
      in if cf_WindowSize c6 < cf_ChunkSize c6 then c6\<lparr>cf_WindowSize := cf_ChunkSize c6\<rparr> else c6)"

section \<open>State\<close>

text \<open>A \<open>singleflight\<close> call: its key and, once the function has returned, its result.\<close>

record flight =
  fl_key :: string
  fl_result :: "(goerr + chunk_addr) option"

record prefetcher =
  pf_size :: int
  pf_config :: config
  pf_cache :: chunkCache
  pf_semaphore :: nat
  pf_readCount :: int
  pf_canceled :: bool
  pf_wg :: nat
  pf_closed :: bool
  pf_group :: "string \<rightharpoonup> nat"
  pf_flights :: "flight list"

definition New :: "bool \<Rightarrow> int \<Rightarrow> config list \<Rightarrow> goerr + prefetcher" where
  "New reader_nil sz configs =
     (if reader_nil then Inl (Errorf ''reader cannot be nil'')
      else
        let config = normalise_config (case configs of [] \<Rightarrow> DefaultConfig | c # _ \<Rightarrow> c)
        in Inr \<lparr>pf_size = sz, pf_config = config, pf_cache = newChunkCache (nat (cf_ChunkSize config)),
                pf_semaphore = 0, pf_readCount = 0, pf_canceled = False, pf_wg = 0, pf_closed = False,
                pf_group = Map.empty, pf_flights = []\<rparr>)"

abbreviation chunk_size :: "prefetcher \<Rightarrow> int" where
  "chunk_size p \<equiv> cf_ChunkSize (pf_config p)"

section \<open>Straight-line operations\<close>

definition beginOperation :: "prefetcher \<Rightarrow> bool \<times> prefetcher" where
  "beginOperation p = (if pf_closed p then (False, p) else (True, p\<lparr>pf_wg := pf_wg p + 1\<rparr>))"

definition wg_Done :: "prefetcher \<Rightarrow> prefetcher" where
  "wg_Done p = p\<lparr>pf_wg := pf_wg p - 1\<rparr>"

definition validateRead :: "prefetcher \<Rightarrow> nat \<Rightarrow> int \<Rightarrow> goerr option" where
  "validateRead p len off =
     (if off < 0 then Some (PrefetchError ErrOffsetOutOfRange)
      else if len = 0 then None
      else if pf_size p = 0 \<and> len > 0 then Some IoEOF
      else if pf_size p > 0 \<and> off \<ge> pf_size p then Some (PrefetchError ErrOffsetOutOfRange)
      else None)"

definition windowEndChunk :: "prefetcher \<Rightarrow> int \<Rightarrow> int" where
  "windowEndChunk p startChunk =
     (let chunkSize = chunk_size p;
          w = quot (i64 (i64 (cf_WindowSize (pf_config p) + chunkSize) - 1)) chunkSize;
          windowChunks = (if w < 1 then 1 else w);
          windowEnd = i64 (i64 (startChunk + windowChunks) - 1)
      in if pf_size p > 0 then
           let maxChunk = quot (i64 (pf_size p - 1)) chunkSize
           in if windowEnd > maxChunk then maxChunk else windowEnd
         else windowEnd)"

definition readAhead_limit :: "prefetcher \<Rightarrow> int" where
  "readAhead_limit p =
     (let limit = quot (cf_WindowSize (pf_config p)) (chunk_size p)
      in if limit > 1000 then 1000 else limit)"

definition minimumInt :: "nat \<Rightarrow> nat \<Rightarrow> nat" where
  "minimumInt first second = (if first < second then first else second)"

text \<open>
  One iteration of \<open>copyChunks\<close> on the chunk it got: None is the \<open>break\<close>, otherwise the
  buffer with the bytes appended.
\<close>

definition copy_chunk :: "prefetcher \<Rightarrow> nat \<Rightarrow> int \<Rightarrow> int \<Rightarrow> int \<Rightarrow> bytes \<Rightarrow> chunk \<Rightarrow> bytes option" where
  "copy_chunk p len off startChunk index acc ch =
     (let chunkOffset = (if index = startChunk then nat (off mod chunk_size p) else 0)
      in if ck_size ch \<le> chunkOffset then None
         else
           let available = ck_size ch - chunkOffset;
               count = minimumInt available (len - length acc)
           in Some (acc @ take count (drop chunkOffset (ck_data ch))))"

text \<open>What \<open>ReadAt\<close> adds to the result of \<open>copyChunks\<close>.\<close>

definition read_result :: "prefetcher \<Rightarrow> int \<Rightarrow> bytes \<Rightarrow> goerr option \<Rightarrow> goerr option" where
  "read_result p off acc err =
     (if err = None \<and> pf_size p > 0 \<and> i64 (off + int (length acc)) \<ge> pf_size p then Some IoEOF else err)"

section \<open>Goroutines\<close>

type_synonym reader = "int \<Rightarrow> nat \<Rightarrow> (bytes \<times> nat \<times> goerr option) outcomes"

abbreviation read_ok :: "goerr option \<Rightarrow> bool" where
  "read_ok err \<equiv> err = None \<or> err = Some IoEOF"

text \<open>
  \<open>fetchChunk\<close>: entering \<open>group.Do\<close>, waiting for another call with the same key, or leading
  a call: the second look at the cache, the wait for the semaphore, the attempts of
  \<open>readChunkWithRetries\<close> (each a \<open>readChunkOnce\<close>) with the pauses between them, and the end of the
  call. A call is addressed by its position in \<open>pf_flights\<close>.
\<close>

datatype fetch_pc =
    FEnter
  | FWait nat
  | FLead nat
  | FAcquire nat
  | FReading nat nat
  | FBackoff nat nat
  | FFinish nat "goerr + chunk_addr"
  | FReturn "goerr + chunk_addr"

definition release :: "prefetcher \<Rightarrow> prefetcher" where
  "release p = p\<lparr>pf_semaphore := pf_semaphore p - 1\<rparr>"

definition free_slot :: "prefetcher \<Rightarrow> bool" where
  "free_slot p = (pf_semaphore p < nat (cf_MaxParallelReads (pf_config p)))"

definition store_chunk :: "int \<Rightarrow> int \<Rightarrow> bytes \<Rightarrow> nat \<Rightarrow> prefetcher \<Rightarrow> chunk_addr \<times> prefetcher" where
  \<comment> \<open>\<open>addChunk(&chunk{...})\<close>\<close>
  "store_chunk now index buffer n p =
     (let (a, c) = new_chunk \<lparr>ck_index = index, ck_data = buffer, ck_size = n, ck_lastUsed = now\<rparr> (pf_cache p)
      in (a, p\<lparr>pf_cache := addChunk now a c\<rparr>))"

definition read_chunk :: "reader \<Rightarrow> prefetcher \<Rightarrow> int \<Rightarrow> (bytes \<times> nat \<times> goerr option) outcomes" where
  \<comment> \<open>\<open>p.reader.ReadAt(buffer, index*int64(p.config.ChunkSize))\<close>\<close>
  "read_chunk rd p index = rd (i64 (index * chunk_size p)) (nat (chunk_size p))"

definition retry_or_fail :: "nat \<Rightarrow> nat \<Rightarrow> prefetcher \<Rightarrow> prefetcher \<times> fetch_pc" where
  "retry_or_fail c attempt p =
     (if int attempt + 1 \<le> cf_MaxRetries (pf_config p) then (p, FBackoff c (attempt + 1))
      else (release p, FFinish c (Inl (PrefetchError ErrReadFailed))))"

fun fetch_step :: "reader \<Rightarrow> int \<Rightarrow> int \<Rightarrow> prefetcher \<Rightarrow> fetch_pc \<Rightarrow> (prefetcher \<times> fetch_pc) outcomes" where
  "fetch_step rd now index p FEnter =
     (let key = FormatInt index
      in case pf_group p key of
           Some c \<Rightarrow> [(p, FWait c)]
         | None \<Rightarrow>
             let c = length (pf_flights p)
             in [(p\<lparr>pf_group := (pf_group p)(key \<mapsto> c),
                    pf_flights := pf_flights p @ [\<lparr>fl_key = key, fl_result = None\<rparr>]\<rparr>, FLead c)])"
| "fetch_step rd now index p (FWait c) =
     (case fl_result (pf_flights p ! c) of
        Some r \<Rightarrow> [(p, FReturn r)]
      | None \<Rightarrow> [])"
| "fetch_step rd now index p (FLead c) =
     (case cache_getChunk now index (pf_cache p) of
        (Some a, cc) \<Rightarrow> [(p\<lparr>pf_cache := cc\<rparr>, FFinish c (Inr a))]
      | (None, cc) \<Rightarrow> [(p\<lparr>pf_cache := cc\<rparr>, FAcquire c)])"
| "fetch_step rd now index p (FAcquire c) =
     alt_if (pf_canceled p) [(p, FFinish c (Inl ContextCanceled))]
     @ alt_if (free_slot p) [(p\<lparr>pf_semaphore := pf_semaphore p + 1\<rparr>, FReading c 0)]
     @ [(p, FFinish c (Inl (PrefetchError ErrReadFailed)))]"
| "fetch_step rd now index p (FReading c attempt) =
     retry_or_fail c attempt p #
     map (\<lambda>(buffer, n, err).
            if read_ok err then
              (let (a, p') = store_chunk now index buffer n p
               in (release p', FFinish c (Inr a)))
            else retry_or_fail c attempt p)
       (read_chunk rd p index)"
| "fetch_step rd now index p (FBackoff c attempt) =
     alt_if (pf_canceled p) [(release p, FFinish c (Inl (PrefetchError ErrReadFailed)))]
     @ [(p, FReading c attempt)]"
| "fetch_step rd now index p (FFinish c r) =
     (let key = FormatInt index
      in [(p\<lparr>pf_flights := (pf_flights p)[c := (pf_flights p ! c)\<lparr>fl_result := Some r\<rparr>],
             pf_group := (if pf_group p key = Some c then (pf_group p)(key := None) else pf_group p)\<rparr>,
           FReturn r)])"
| "fetch_step rd now index p (FReturn r) = []"

text \<open>
  The goroutines: callers of \<open>ReadAt\<close> (buffer length, offset, first and last chunk, loop index,
  bytes copied so far), the fetches of \<open>scheduleRequiredChunks\<close>, the read-aheads, and callers of
  \<open>Close\<close>. \<open>ClDone True\<close> is the return of the call that shut the prefetcher down.
\<close>

datatype goroutine =
    RdBegin nat int
  | RdEvict nat int
  | RdRequired nat int int int int
  | RdAhead nat int int int int int int
  | RdCopy nat int int int int bytes
  | RdFetch nat int int int int bytes fetch_pc
  | RdDone nat int bytes "goerr option"
  | RqStart int
  | RqFetch int fetch_pc
  | RaStart int
  | RaReading int
  | ClStart
  | ClWait
  | ClClear
  | ClDone bool
  | Exited

definition finish_read :: "prefetcher \<Rightarrow> nat \<Rightarrow> int \<Rightarrow> bytes \<Rightarrow> goerr option \<Rightarrow> (prefetcher \<times> goroutine \<times> goroutine list) outcomes" where
  \<comment> \<open>the return of \<open>ReadAt\<close> with its deferred calls\<close>
  "finish_read p len off acc err =
     [(wg_Done (p\<lparr>pf_readCount := pf_readCount p - 1\<rparr>), RdDone len off acc err, [])]"

definition copy_next ::
    "prefetcher \<Rightarrow> nat \<Rightarrow> int \<Rightarrow> int \<Rightarrow> int \<Rightarrow> int \<Rightarrow> bytes \<Rightarrow> chunk \<Rightarrow> (prefetcher \<times> goroutine \<times> goroutine list) outcomes" where
  "copy_next p len off startChunk endChunk index acc ch =
     (case copy_chunk p len off startChunk index acc ch of
        None \<Rightarrow> finish_read p len off acc (read_result p off acc None)
      | Some acc' \<Rightarrow> [(p, RdCopy len off startChunk endChunk (i64 (index + 1)) acc', [])])"

fun goroutine_step :: "reader \<Rightarrow> int \<Rightarrow> prefetcher \<Rightarrow> goroutine \<Rightarrow> (prefetcher \<times> goroutine \<times> goroutine list) outcomes" where
  "goroutine_step rd now p (RdBegin len off) =
     (case beginOperation p of
        (False, p) \<Rightarrow> [(p, RdDone len off [] (Some (PrefetchError ErrPrefetcherClosed)), [])]
      | (True, p) \<Rightarrow>
          let err = validateRead p len off
          in if err \<noteq> None \<or> len = 0 then [(wg_Done p, RdDone len off [] err, [])]
             else [(p\<lparr>pf_readCount := pf_readCount p + 1\<rparr>, RdEvict len off, [])])"
| "goroutine_step rd now p (RdEvict len off) =
     (let startChunkIdx = quot off (chunk_size p);
          endChunkIdx = quot (i64 (i64 (off + int len) - 1)) (chunk_size p);
          p = p\<lparr>pf_cache := evictBefore startChunkIdx (pf_cache p)\<rparr>
      in if pf_size p > 0 \<and> i64 (off + int len) > pf_size p \<and> startChunkIdx = endChunkIdx
         then finish_read p len off [] (Some IoEOF)
         else [(p, RdRequired len off startChunkIdx endChunkIdx startChunkIdx, [])])"
| "goroutine_step rd now p (RdRequired len off startChunk endChunk index) =
     (if index \<le> endChunk then
        if hasChunk index (pf_cache p) then [(p, RdRequired len off startChunk endChunk (i64 (index + 1)), [])]
        else
          (case beginOperation p of
             (False, p) \<Rightarrow> [(p, RdRequired len off startChunk endChunk (i64 (index + 1)), [])]
           | (True, p) \<Rightarrow> [(p, RdRequired len off startChunk endChunk (i64 (index + 1)), [RqStart index])])
      else [(p, RdAhead len off startChunk endChunk (windowEndChunk p startChunk) (i64 (endChunk + 1)) 0, [])])"
| "goroutine_step rd now p (RdAhead len off startChunk endChunk windowEnd index scheduled) =
     (if index \<le> windowEnd \<and> scheduled < readAhead_limit p then
        if hasChunk index (pf_cache p)
        then [(p, RdAhead len off startChunk endChunk windowEnd (i64 (index + 1)) scheduled, [])]
        else
          (case beginOperation p of
             (False, p) \<Rightarrow> [(p, RdAhead len off startChunk endChunk windowEnd (i64 (index + 1)) scheduled, [])]
           | (True, p) \<Rightarrow> [(p, RdAhead len off startChunk endChunk windowEnd (i64 (index + 1)) (scheduled + 1), [RaStart index])])
      else [(p, RdCopy len off startChunk endChunk startChunk [], [])])"
| "goroutine_step rd now p (RdCopy len off startChunk endChunk index acc) =
     (if index \<le> endChunk \<and> length acc < len then
        (case cache_getChunk now index (pf_cache p) of
           (Some a, cc) \<Rightarrow> copy_next (p\<lparr>pf_cache := cc\<rparr>) len off startChunk endChunk index acc (cc_heap cc ! a)
         | (None, cc) \<Rightarrow> [(p\<lparr>pf_cache := cc\<rparr>, RdFetch len off startChunk endChunk index acc FEnter, [])])
      else finish_read p len off acc (read_result p off acc None))"
| "goroutine_step rd now p (RdFetch len off startChunk endChunk index acc pc) =
     (case pc of
        FReturn (Inl err) \<Rightarrow> finish_read p len off acc (read_result p off acc (Some err))
      | FReturn (Inr a) \<Rightarrow> copy_next p len off startChunk endChunk index acc (cc_heap (pf_cache p) ! a)
      | _ \<Rightarrow> map (\<lambda>(p', pc'). (p', RdFetch len off startChunk endChunk index acc pc', [])) (fetch_step rd now index p pc))"
| "goroutine_step rd now p (RqStart index) =
     (if pf_canceled p \<or> hasChunk index (pf_cache p) then [(wg_Done p, Exited, [])]
      else [(p, RqFetch index FEnter, [])])"
| "goroutine_step rd now p (RqFetch index pc) =
     (case pc of
        FReturn r \<Rightarrow> [(wg_Done p, Exited, [])]
      | _ \<Rightarrow> map (\<lambda>(p', pc'). (p', RqFetch index pc', [])) (fetch_step rd now index p pc))"
| "goroutine_step rd now p (RaStart index) =
     (if pf_canceled p \<or> hasChunk index (pf_cache p) then [(wg_Done p, Exited, [])]
      else if free_slot p then [(p\<lparr>pf_semaphore := pf_semaphore p + 1\<rparr>, RaReading index, [])]
      else [(wg_Done p, Exited, [])])"
| "goroutine_step rd now p (RaReading index) =
     map (\<lambda>(buffer, n, err).
            let p' = (if read_ok err then snd (store_chunk now index buffer n p) else p)
            in (wg_Done (release p'), Exited, []))
       (read_chunk rd p index)"
| "goroutine_step rd now p ClStart =
     (if pf_closed p then [(p, ClDone False, [])]
      else [(p\<lparr>pf_closed := True, pf_canceled := True\<rparr>, ClWait, [])])"
| "goroutine_step rd now p ClWait = alt_if (pf_wg p = 0) [(p, ClClear, [])]"
| "goroutine_step rd now p ClClear = [(p\<lparr>pf_cache := cache_clear (pf_cache p)\<rparr>, ClDone True, [])]"
| "goroutine_step rd now p (RdDone len off acc err) = []"
| "goroutine_step rd now p (ClDone b) = []"
| "goroutine_step rd now p Exited = []"

text \<open>
  The system: any goroutine may take its next step at any time, and clients may call
  \<open>ReadAt\<close> and \<open>Close\<close> from new goroutines whenever they like.
\<close>

inductive sys_step :: "reader \<Rightarrow> prefetcher \<times> goroutine list \<Rightarrow> prefetcher \<times> goroutine list \<Rightarrow> bool" for rd where
  run: "i < length ts \<Longrightarrow> (p', t', new) \<in> set (goroutine_step rd now p (ts ! i)) \<Longrightarrow>
        sys_step rd (p, ts) (p', ts[i := t'] @ new)"
| call_ReadAt: "off + int len < 2 ^ 63 \<Longrightarrow> sys_step rd (p, ts) (p, ts @ [RdBegin len off])"
| call_Close: "sys_step rd (p, ts) (p, ts @ [ClStart])"

section \<open>The contract of the reader\<close>

text \<open>
  \<open>reader_at content rd\<close>: an \<open>io.ReaderAt\<close> over \<open>content\<close>. A read that reports no error or
  the end of the file delivers bytes of the content from the offset on, and delivers fewer than the
  buffer takes only when the content ends there. A read may fail at any time.
\<close>

locale reader_at =
  fixes content :: bytes and rd :: reader
  assumes read_bytes: "0 \<le> off \<Longrightarrow> (buf, n, err) \<in> set (rd off len) \<Longrightarrow> read_ok err \<Longrightarrow>
      n \<le> len \<and> length buf = len \<and> take n buf = take n (drop (nat off) content)"
    and read_short: "0 \<le> off \<Longrightarrow> (buf, n, err) \<in> set (rd off len) \<Longrightarrow> read_ok err \<Longrightarrow>
      n < len \<Longrightarrow> length content \<le> nat off + n"

definition chunk_ok :: "bytes \<Rightarrow> nat \<Rightarrow> chunk \<Rightarrow> bool" where
  "chunk_ok content cs ch \<longleftrightarrow>
     0 \<le> ck_index ch \<and> ck_size ch \<le> length (ck_data ch) \<and> ck_size ch \<le> cs
     \<and> take (ck_size ch) (ck_data ch) = take (ck_size ch) (drop (nat (ck_index ch) * cs) content)
     \<and> (ck_size ch = cs \<or> length content \<le> nat (ck_index ch) * cs + ck_size ch)"

definition index_ok :: "nat \<Rightarrow> int \<Rightarrow> bool" where
  "index_ok cs index \<longleftrightarrow> 0 \<le> index \<and> index * int cs < 2 ^ 63"

context reader_at
begin

lemma read_chunk_ok:
  assumes "(buf, n, err) \<in> set (read_chunk rd p index)" "read_ok err" "index_ok cs index" "chunk_size p = int cs"
  shows "chunk_ok content cs \<lparr>ck_index = index, ck_data = buf, ck_size = n, ck_lastUsed = now\<rparr>"
proof -
  have off: "i64 (index * chunk_size p) = index * int cs" "0 \<le> index * int cs"
    using assms(3,4) by (auto simp: index_ok_def)
  have rd: "(buf, n, err) \<in> set (rd (index * int cs) cs)" using assms(1,4) off by (simp add: read_chunk_def)
  have nat: "nat (index * int cs) = nat index * cs" using assms(3) by (simp add: index_ok_def nat_mult_distrib)
  from read_bytes [OF off(2) rd assms(2)] read_short [OF off(2) rd assms(2)] assms(3) show ?thesis
    by (cases "n < cs") (auto simp: chunk_ok_def index_ok_def nat)
qed

end

section \<open>Progress of a read\<close>

text \<open>
  What \<open>copyChunks\<close> has copied when it is about to look at chunk \<open>i\<close>: a prefix of the content
  from the offset on, which is empty at the first chunk, and otherwise ends at the start of chunk
  \<open>i\<close>, fills the buffer, or ends at the end of the content.
\<close>

definition progress :: "bytes \<Rightarrow> nat \<Rightarrow> nat \<Rightarrow> int \<Rightarrow> int \<Rightarrow> int \<Rightarrow> bytes \<Rightarrow> bool" where
  "progress content cs len off startChunk i acc \<longleftrightarrow>
     length acc \<le> len \<and> acc = take (length acc) (drop (nat off) content)
     \<and> (if i = startChunk then acc = []
        else nat off + length acc = nat i * cs \<or> length acc = len
             \<or> length content \<le> nat off + length acc \<and> length content \<le> nat i * cs)"

lemma slice_of_chunk:
  assumes "take n data = take n (drop k content)" "c + co \<le> n"
  shows "take c (drop co data) = take c (drop (k + co) content)"
proof -
  have "take c (drop co data) = take c (drop co (take n data))"
    using assms(2) by (simp add: drop_take min_def)
  also have "\<dots> = take c (drop co (take n (drop k content)))" by (simp add: assms(1))
  also have "\<dots> = take c (drop (k + co) content)"
    using assms(2) by (simp add: drop_take min_def add.commute)
  finally show ?thesis .
qed

lemma copy_chunk_progress:
  assumes ok: "chunk_ok content cs ch" "ck_index ch = i" and cs: "0 < cs" "chunk_size p = int cs"
    and range: "0 \<le> off" "startChunk = off div int cs" "startChunk \<le> i"
    and acc: "progress content cs len off startChunk i acc" "length acc < len"
  shows "case copy_chunk p len off startChunk i acc ch of
      None \<Rightarrow> length content \<le> nat off + length acc
    | Some acc' \<Rightarrow> progress content cs len off startChunk (i + 1) acc'"
proof -
  define q k where "q = nat off" and "k = nat i"
  define co where "co = (if i = startChunk then nat (off mod chunk_size p) else 0)"
  define n where "n = ck_size ch"
  from ok have n: "n \<le> length (ck_data ch)" "n \<le> cs" "take n (ck_data ch) = take n (drop (k * cs) content)"
    "n = cs \<or> length content \<le> k * cs + n"
    by (auto simp: chunk_ok_def n_def k_def)
  have i0: "0 \<le> i" and k1: "nat (i + 1) = Suc k" using ok by (auto simp: chunk_ok_def k_def)
  have "q div cs = k \<and> co = q mod cs" if "i = startChunk"
    using that range cs(2) by (simp add: co_def q_def k_def nat_div_distrib nat_mod_distrib)
  then have start: "k * cs + co = q" "co < cs" if "i = startChunk"
    using that cs(1) div_mult_mod_eq [of q cs] by auto
  have room: "n \<le> length content - k * cs"
  proof -
    have "length (take n (ck_data ch)) = n" using n(1) by simp
    then show ?thesis using n(3) by simp
  qed
  from acc have pre: "acc = take (length acc) (drop q content)" by (simp add: progress_def q_def)
  from acc start have pos: "k * cs + co = q + length acc \<and> co < cs
      \<or> co = 0 \<and> length content \<le> q + length acc \<and> length content \<le> k * cs"
    using cs(1) by (auto simp: progress_def q_def k_def co_def split: if_splits)
  show ?thesis
  proof (cases "n \<le> co")
    case True
    have "copy_chunk p len off startChunk i acc ch = None" using True by (simp add: copy_chunk_def co_def n_def)
    moreover have "length content \<le> q + length acc" using pos n(4) True by auto
    ultimately show ?thesis by (simp add: q_def)
  next
    case False
    with pos room have at: "k * cs + co = q + length acc" "co < cs" by auto
    define c where "c = minimumInt (n - co) (len - length acc)"
    have c: "c + co \<le> n" "c \<le> len - length acc" "c = n - co \<or> c = len - length acc" using False by (auto simp: c_def minimumInt_def)
    have copy: "copy_chunk p len off startChunk i acc ch = Some (acc @ take c (drop co (ck_data ch)))"
      using False by (simp add: copy_chunk_def co_def n_def c_def Let_def)
    have new: "take c (drop co (ck_data ch)) = take c (drop (q + length acc) content)"
      using slice_of_chunk [OF n(3) c(1)] at(1) by simp
    define acc' where "acc' = acc @ take c (drop co (ck_data ch))"
    have lc: "length acc' = length acc + c" using c(1) n(1) by (simp add: acc'_def)
    have "take (length acc + c) (drop q content) = take (length acc) (drop q content) @ take c (drop (q + length acc) content)"
      by (simp only: take_add drop_drop add.commute [of q])
    then have whole: "acc' = take (length acc') (drop q content)" unfolding lc using new pre by (simp add: acc'_def)
    have "q + length acc' = Suc k * cs \<or> length acc' = len
        \<or> length content \<le> q + length acc' \<and> length content \<le> Suc k * cs"
      using c n(2,4) at acc(2) False lc by auto
    moreover have "length acc' \<le> len" using c(2) acc(2) lc by simp
    ultimately have "progress content cs len off startChunk (i + 1) acc'"
      using whole range(3) unfolding progress_def k1 q_def [symmetric] by simp
    then show ?thesis by (simp add: copy acc'_def)
  qed
qed

end
