(* ===== verification/Prefetcher_Invariant.thy ===== *)
theory Prefetcher_Invariant
  imports Prefetcher
begin

text \<open>
  Correctness of the prefetcher in every interleaving: what reads return, how many reads run at
  once, how often a chunk is retried, and what \<open>Close\<close> guarantees. Each goroutine has an assertion
  at its program counter; the assertions survive the steps of other goroutines because those only
  extend the heap of chunks and the list of calls.
\<close>

section \<open>The invariant of the system\<close>

definition result_ok :: "prefetcher \<Rightarrow> int \<Rightarrow> goerr + chunk_addr \<Rightarrow> bool" where
  "result_ok p index r =
     (case r of
        Inl e \<Rightarrow> e \<noteq> IoEOF
      | Inr a \<Rightarrow> a < length (cc_heap (pf_cache p)) \<and> ck_index (cc_heap (pf_cache p) ! a) = index)"

definition flight_for :: "prefetcher \<Rightarrow> int \<Rightarrow> nat \<Rightarrow> bool" where
  "flight_for p index c \<longleftrightarrow> c < length (pf_flights p) \<and> fl_key (pf_flights p ! c) = FormatInt index"

text \<open>The shared object: the configuration, the cache and the bytes in it, the calls in flight.\<close>

definition pf_ok :: "bytes \<Rightarrow> nat \<Rightarrow> prefetcher \<Rightarrow> bool" where
  "pf_ok content cs p \<longleftrightarrow>
     chunk_size p = int cs \<and> 0 < cs \<and> 0 \<le> cf_MaxRetries (pf_config p)
     \<and> pf_size p = int (length content) \<and> length content < 2 ^ 63
     \<and> cache_wf (pf_cache p)
     \<and> (\<forall>ch \<in> set (cc_heap (pf_cache p)). chunk_ok content cs ch)
     \<and> (\<forall>fl \<in> set (pf_flights p). \<forall>index r. index_ok cs index \<and> fl_key fl = FormatInt index \<and> fl_result fl = Some r \<longrightarrow> result_ok p index r)
     \<and> (\<forall>key c. pf_group p key = Some c \<longrightarrow> c < length (pf_flights p) \<and> fl_key (pf_flights p ! c) = key)"

fun fetch_ok :: "nat \<Rightarrow> prefetcher \<Rightarrow> int \<Rightarrow> fetch_pc \<Rightarrow> bool" where
  "fetch_ok cs p index FEnter = index_ok cs index"
| "fetch_ok cs p index (FWait c) = (index_ok cs index \<and> flight_for p index c)"
| "fetch_ok cs p index (FLead c) = (index_ok cs index \<and> flight_for p index c)"
| "fetch_ok cs p index (FAcquire c) = (index_ok cs index \<and> flight_for p index c)"
| "fetch_ok cs p index (FReading c k) = (index_ok cs index \<and> flight_for p index c \<and> int k \<le> cf_MaxRetries (pf_config p))"
| "fetch_ok cs p index (FBackoff c k) = (index_ok cs index \<and> flight_for p index c \<and> int k \<le> cf_MaxRetries (pf_config p))"
| "fetch_ok cs p index (FFinish c r) = (index_ok cs index \<and> flight_for p index c \<and> result_ok p index r)"
| "fetch_ok cs p index (FReturn r) = (index_ok cs index \<and> result_ok p index r)"

text \<open>What a goroutine may rely on while others run: chunks and calls stay what they are.\<close>

definition extends :: "prefetcher \<Rightarrow> prefetcher \<Rightarrow> bool" where
  "extends p p' \<longleftrightarrow>
     pf_config p' = pf_config p \<and> pf_size p' = pf_size p
     \<and> same_chunks (cc_heap (pf_cache p)) (cc_heap (pf_cache p'))
     \<and> length (pf_flights p) \<le> length (pf_flights p')
     \<and> (\<forall>c < length (pf_flights p). fl_key (pf_flights p' ! c) = fl_key (pf_flights p ! c))"

lemma extends_refl [simp]: "extends p p"
  by (simp add: extends_def)

lemma result_ok_extends: "extends p p' \<Longrightarrow> result_ok p i r \<Longrightarrow> result_ok p' i r"
  by (cases r) (auto simp: extends_def result_ok_def same_chunks_def)

lemma flight_for_extends: "extends p p' \<Longrightarrow> flight_for p i c \<Longrightarrow> flight_for p' i c"
  by (auto simp: extends_def flight_for_def)

lemma fetch_ok_extends: "extends p p' \<Longrightarrow> fetch_ok cs p i pc \<Longrightarrow> fetch_ok cs p' i pc"
  by (cases pc) (auto intro: result_ok_extends flight_for_extends simp: extends_def)

text \<open>A call of \<open>ReadAt\<close> past its validation, and the outcome of one.\<close>

definition call_ok :: "bytes \<Rightarrow> nat \<Rightarrow> nat \<Rightarrow> int \<Rightarrow> bool" where
  "call_ok content cs len off \<longleftrightarrow> 0 < len \<and> 0 \<le> off \<and> off < int (length content) \<and> off + int len < 2 ^ 63"

definition past_end_in_chunk :: "bytes \<Rightarrow> nat \<Rightarrow> nat \<Rightarrow> int \<Rightarrow> bool" where
  \<comment> \<open>the early return: the buffer reaches past the end and lies within one chunk\<close>
  "past_end_in_chunk content cs len off \<longleftrightarrow>
     int (length content) < off + int len \<and> off div int cs = (off + int len - 1) div int cs"

definition range_ok :: "bytes \<Rightarrow> nat \<Rightarrow> nat \<Rightarrow> int \<Rightarrow> int \<Rightarrow> int \<Rightarrow> bool" where
  "range_ok content cs len off startChunk endChunk \<longleftrightarrow>
     call_ok content cs len off \<and> \<not> past_end_in_chunk content cs len off
     \<and> startChunk = off div int cs \<and> endChunk = (off + int len - 1) div int cs"

definition done_ok :: "bytes \<Rightarrow> nat \<Rightarrow> nat \<Rightarrow> int \<Rightarrow> bytes \<Rightarrow> goerr option \<Rightarrow> bool" where
  "done_ok content cs len off acc err \<longleftrightarrow>
     acc = take (length acc) (drop (nat off) content) \<and> length acc \<le> len
     \<and> (call_ok content cs len off \<and> read_ok err \<longrightarrow>
          (if past_end_in_chunk content cs len off then acc = [] \<and> err = Some IoEOF
           else acc = take len (drop (nat off) content)
                \<and> (err = Some IoEOF \<longleftrightarrow> int (length content) \<le> off + int (length acc))))"

fun goroutine_ok :: "bytes \<Rightarrow> nat \<Rightarrow> prefetcher \<Rightarrow> goroutine \<Rightarrow> bool" where
  "goroutine_ok content cs p (RdBegin len off) = (off + int len < 2 ^ 63)"
| "goroutine_ok content cs p (RdEvict len off) = call_ok content cs len off"
| "goroutine_ok content cs p (RdRequired len off s e i) = (range_ok content cs len off s e \<and> s \<le> i)"
| "goroutine_ok content cs p (RdAhead len off s e w i k) =
     (range_ok content cs len off s e \<and> s \<le> i \<and> w \<le> (int (length content) - 1) div int cs)"
| "goroutine_ok content cs p (RdCopy len off s e i acc) =
     (range_ok content cs len off s e \<and> s \<le> i \<and> progress content cs len off s i acc)"
| "goroutine_ok content cs p (RdFetch len off s e i acc pc) =
     (range_ok content cs len off s e \<and> s \<le> i \<and> i \<le> e \<and> length acc < len
      \<and> progress content cs len off s i acc \<and> fetch_ok cs p i pc)"
| "goroutine_ok content cs p (RdDone len off acc err) = done_ok content cs len off acc err"
| "goroutine_ok content cs p (RqStart i) = index_ok cs i"
| "goroutine_ok content cs p (RqFetch i pc) = fetch_ok cs p i pc"
| "goroutine_ok content cs p (RaStart i) = index_ok cs i"
| "goroutine_ok content cs p (RaReading i) = index_ok cs i"
| "goroutine_ok content cs p _ = True"

lemma goroutine_ok_extends: "extends p p' \<Longrightarrow> goroutine_ok content cs p t \<Longrightarrow> goroutine_ok content cs p' t"
  by (cases t) (auto intro: fetch_ok_extends)

section \<open>Cache operations under the invariant\<close>

lemma heap_length [simp]:
  "length (cc_heap (touchChunk now i c)) = length (cc_heap c)"
  "length (cc_heap (addChunk now a c)) = length (cc_heap c)"
  "cc_heap (evictBefore m c) = cc_heap c"
  "cc_heap (cache_clear c) = cc_heap c"
  by (auto simp: touchChunk_def addChunk_def evictOldest_def rebuildIntervalTree_def evictBefore_def
      evictBefore_locked_def cache_clear_def Let_def split: option.split)

lemma chunk_ok_cong:
  "ck_index ch' = ck_index ch \<Longrightarrow> ck_data ch' = ck_data ch \<Longrightarrow> ck_size ch' = ck_size ch \<Longrightarrow> chunk_ok content cs ch' = chunk_ok content cs ch"
  by (simp add: chunk_ok_def)

lemma chunks_ok_same:
  assumes "same_chunks h h'" "length h' = length h" "\<forall>ch \<in> set h. chunk_ok content cs ch"
  shows "\<forall>ch \<in> set h'. chunk_ok content cs ch"
  unfolding all_set_conv_all_nth
proof (intro allI impI)
  fix a assume "a < length h'"
  with assms(1,2) have "chunk_ok content cs (h' ! a) = chunk_ok content cs (h ! a)"
    by (intro chunk_ok_cong) (auto simp: same_chunks_def)
  with assms(2,3) \<open>a < length h'\<close> show "chunk_ok content cs (h' ! a)" by simp
qed

lemma extends_cache: "same_chunks (cc_heap (pf_cache p)) (cc_heap cc) \<Longrightarrow> extends p (p\<lparr>pf_cache := cc\<rparr>)"
  by (simp add: extends_def)

lemma pf_ok_cache:
  assumes "pf_ok content cs p" "cache_wf cc" "same_chunks (cc_heap (pf_cache p)) (cc_heap cc)"
    and "\<forall>ch \<in> set (cc_heap cc). chunk_ok content cs ch"
  shows "pf_ok content cs (p\<lparr>pf_cache := cc\<rparr>)"
  using assms result_ok_extends [OF extends_cache [OF assms(3)]] unfolding pf_ok_def by simp

lemma pf_ok_getChunk:
  assumes "pf_ok content cs p" "cache_getChunk now i (pf_cache p) = (r, cc)"
  shows "pf_ok content cs (p\<lparr>pf_cache := cc\<rparr>)" "extends p (p\<lparr>pf_cache := cc\<rparr>)"
    and "r = Some a \<Longrightarrow> result_ok (p\<lparr>pf_cache := cc\<rparr>) i (Inr a)"
proof -
  have wf: "cache_wf (pf_cache p)" using assms(1) by (simp add: pf_ok_def)
  note frame = cache_getChunk_frame(1) [OF assms(2)] cache_getChunk_frame(2) [OF assms(2) wf]
  have len: "length (cc_heap cc) = length (cc_heap (pf_cache p))"
    using assms(2) by (auto simp: cache_getChunk_def split: option.splits)
  have "\<forall>ch \<in> set (cc_heap cc). chunk_ok content cs ch"
    using chunks_ok_same [OF frame(1) len] assms(1) by (simp add: pf_ok_def)
  then show "pf_ok content cs (p\<lparr>pf_cache := cc\<rparr>)" using pf_ok_cache [OF assms(1) frame(2,1)] by simp
  show ext: "extends p (p\<lparr>pf_cache := cc\<rparr>)" by (rule extends_cache [OF frame(1)])
  show "result_ok (p\<lparr>pf_cache := cc\<rparr>) i (Inr a)" if "r = Some a"
    using result_ok_extends [OF ext, of i "Inr a"] cache_getChunk_frame(3) [OF assms(2) wf that]
    by (simp add: result_ok_def)
qed

lemma pf_ok_evictBefore:
  assumes "pf_ok content cs p"
  shows "pf_ok content cs (p\<lparr>pf_cache := evictBefore m (pf_cache p)\<rparr>)"
  using assms by (intro pf_ok_cache [OF assms]) (auto simp: pf_ok_def cache_wf_evictBefore)

lemma pf_ok_clear:
  assumes "pf_ok content cs p"
  shows "pf_ok content cs (p\<lparr>pf_cache := cache_clear (pf_cache p)\<rparr>)"
  using assms by (intro pf_ok_cache [OF assms]) (auto simp: pf_ok_def cache_wf_clear)

lemma pf_ok_store:
  assumes "pf_ok content cs p" "chunk_ok content cs \<lparr>ck_index = i, ck_data = buf, ck_size = n, ck_lastUsed = now\<rparr>"
    and "store_chunk now i buf n p = (a, p')"
  shows "pf_ok content cs p'" "extends p p'" "result_ok p' i (Inr a)" "\<exists>cc. p' = p\<lparr>pf_cache := cc\<rparr>"
proof -
  let ?ch = "\<lparr>ck_index = i, ck_data = buf, ck_size = n, ck_lastUsed = now\<rparr>"
  let ?c = "(pf_cache p)\<lparr>cc_heap := cc_heap (pf_cache p) @ [?ch]\<rparr>"
  have a: "a = length (cc_heap (pf_cache p))" and p': "p' = p\<lparr>pf_cache := addChunk now a ?c\<rparr>"
    using assms(3) by (auto simp: store_chunk_def new_chunk_def Let_def)
  have wf: "cache_wf ?c" using assms(1) by (intro cache_wf_heap) (simp_all add: pf_ok_def)
  have a': "a < length (cc_heap ?c)" by (simp add: a)
  note add = addChunk_inv [OF wf a', of now]
  have same: "same_chunks (cc_heap (pf_cache p)) (cc_heap (addChunk now a ?c))"
    using same_chunks_trans [OF _ add(2)] by simp
  have ok: "\<forall>ch \<in> set (cc_heap ?c). chunk_ok content cs ch" using assms(1,2) by (auto simp: pf_ok_def)
  have "\<forall>ch \<in> set (cc_heap (addChunk now a ?c)). chunk_ok content cs ch"
    by (rule chunks_ok_same [OF add(2) heap_length(2) ok])
  then show "pf_ok content cs p'" unfolding p' by (rule pf_ok_cache [OF assms(1) add(1) same])
  show "extends p p'" unfolding p' by (rule extends_cache [OF same])
  have "ck_index (cc_heap (addChunk now a ?c) ! a) = i"
  proof -
    have "ck_index (cc_heap (addChunk now a ?c) ! a) = ck_index (cc_heap ?c ! a)"
      using add(2) a' unfolding same_chunks_def by blast
    then show ?thesis by (simp add: a)
  qed
  then show "result_ok p' i (Inr a)" by (simp add: result_ok_def p' a)
  show "\<exists>cc. p' = p\<lparr>pf_cache := cc\<rparr>" using p' by blast
qed

lemma result_ok_frame [simp]:
  "result_ok (p\<lparr>pf_semaphore := x\<rparr>) = result_ok p" "result_ok (p\<lparr>pf_wg := w\<rparr>) = result_ok p"
  "result_ok (p\<lparr>pf_readCount := r\<rparr>) = result_ok p" "result_ok (p\<lparr>pf_closed := b\<rparr>) = result_ok p"
  "result_ok (p\<lparr>pf_canceled := b\<rparr>) = result_ok p" "result_ok (p\<lparr>pf_flights := fls\<rparr>) = result_ok p"
  "result_ok (p\<lparr>pf_group := g\<rparr>) = result_ok p"
  by (simp_all add: result_ok_def fun_eq_iff split: sum.split)

lemma pf_ok_frame [simp]:
  "pf_ok content cs (p\<lparr>pf_semaphore := x\<rparr>) = pf_ok content cs p" "pf_ok content cs (p\<lparr>pf_wg := w\<rparr>) = pf_ok content cs p"
  "pf_ok content cs (p\<lparr>pf_readCount := r\<rparr>) = pf_ok content cs p" "pf_ok content cs (p\<lparr>pf_closed := b\<rparr>) = pf_ok content cs p"
  "pf_ok content cs (p\<lparr>pf_canceled := b\<rparr>) = pf_ok content cs p"
  by (simp_all add: pf_ok_def)

lemma result_ok_Inl [simp]: "result_ok p i (Inl e) = (e \<noteq> IoEOF)"
  by (simp add: result_ok_def)

lemma flight_for_frame [simp]:
  "flight_for (p\<lparr>pf_semaphore := x\<rparr>) = flight_for p" "flight_for (p\<lparr>pf_cache := cc\<rparr>) = flight_for p"
  by (simp_all add: flight_for_def fun_eq_iff)

lemma extends_frame [simp]:
  "extends p (p\<lparr>pf_semaphore := x\<rparr>)" "extends p (p\<lparr>pf_wg := w\<rparr>)" "extends p (p\<lparr>pf_readCount := r\<rparr>)"
  "extends p (p\<lparr>pf_closed := b, pf_canceled := b\<rparr>)"
  by (simp_all add: extends_def)

lemma extends_trans: "extends p p1 \<Longrightarrow> extends p1 p2 \<Longrightarrow> extends p p2"
  by (auto simp: extends_def intro: same_chunks_trans)

lemma release_frame [simp]:
  "pf_ok content cs (release p) = pf_ok content cs p" "extends p (release p)"
  "flight_for (release p) = flight_for p" "result_ok (release p) = result_ok p" "pf_config (release p) = pf_config p"
  by (simp_all add: release_def)

lemma FormatInt_inj: "- (2 ^ 63) \<le> i \<Longrightarrow> i < 2 ^ 63 \<Longrightarrow> - (2 ^ 63) \<le> j \<Longrightarrow> j < 2 ^ 63 \<Longrightarrow> FormatInt i = FormatInt j \<Longrightarrow> i = j"
  by (metis ParseInt_FormatInt Inr_inject)

lemma index_ok_inj:
  assumes "index_ok cs i" "index_ok cs j" "0 < cs" "FormatInt i = FormatInt j"
  shows "i = j"
proof -
  have "k < 2 ^ 63 \<and> 0 \<le> k" if "index_ok cs k" for k
  proof -
    have "k * 1 \<le> k * int cs" using that assms(3) by (intro mult_left_mono) (auto simp: index_ok_def)
    with that show ?thesis by (auto simp: index_ok_def)
  qed
  with assms show ?thesis by (intro FormatInt_inj) force+
qed

section \<open>Fetching a chunk\<close>

fun holding :: "fetch_pc \<Rightarrow> nat" where
  "holding (FReading c k) = 1"
| "holding (FBackoff c k) = 1"
| "holding _ = 0"

lemma retry_or_fail_ok:
  assumes "fetch_ok cs p i (FReading c k)" "retry_or_fail c k p = (p', pc')" "pf_ok content cs p"
  shows "pf_ok content cs p' \<and> extends p p' \<and> fetch_ok cs p' i pc'"
  using assms by (auto simp: retry_or_fail_def result_ok_def split: if_splits)

text \<open>A flight that finishes with a good result, and a new flight.\<close>

lemma pf_ok_finish:
  assumes ok: "pf_ok content cs p" and f: "fetch_ok cs p i (FFinish c r)"
    and g: "\<And>key d. g key = Some d \<Longrightarrow> pf_group p key = Some d"
  defines "p' \<equiv> p\<lparr>pf_flights := (pf_flights p)[c := (pf_flights p ! c)\<lparr>fl_result := Some r\<rparr>], pf_group := g\<rparr>"
  shows "pf_ok content cs p'" "extends p p'"
proof -
  have c: "c < length (pf_flights p)" "fl_key (pf_flights p ! c) = FormatInt i" and r: "result_ok p i r" and i: "index_ok cs i"
    using f by (auto simp: flight_for_def)
  have cs: "0 < cs" using ok by (simp add: pf_ok_def)
  have "result_ok p index r'"
    if "fl \<in> set (pf_flights p')" "index_ok cs index" "fl_key fl = FormatInt index" "fl_result fl = Some r'" for fl index r'
  proof -
    from that(1) c(1) have "fl = (pf_flights p ! c)\<lparr>fl_result := Some r\<rparr> \<or> fl \<in> set (pf_flights p)"
      by (auto simp: p'_def dest: set_update_subset_insert [THEN subsetD])
    then show ?thesis
    proof
      assume fl: "fl = (pf_flights p ! c)\<lparr>fl_result := Some r\<rparr>"
      with that(3) c(2) have "FormatInt index = FormatInt i" by simp
      with index_ok_inj [OF that(2) i cs] have "index = i" by blast
      moreover from fl that(4) have "r' = r" by simp
      ultimately show ?thesis using r by simp
    next
      assume "fl \<in> set (pf_flights p)"
      with that ok show ?thesis unfolding pf_ok_def by blast
    qed
  qed
  moreover have "d < length (pf_flights p') \<and> fl_key (pf_flights p' ! d) = key" if "pf_group p' key = Some d" for key d
  proof -
    from that g have "pf_group p key = Some d" by (simp add: p'_def)
    with ok have "d < length (pf_flights p)" "fl_key (pf_flights p ! d) = key" by (auto simp: pf_ok_def)
    then show ?thesis using c(1) by (auto simp: p'_def nth_list_update)
  qed
  ultimately show "pf_ok content cs p'" using ok unfolding pf_ok_def by (simp add: p'_def)
  show "extends p p'" using c(1) by (auto simp: extends_def p'_def nth_list_update)
qed

lemma pf_ok_new_flight:
  fixes key :: string
  assumes ok: "pf_ok content cs p"
  defines "p' \<equiv> p\<lparr>pf_group := (pf_group p)(key \<mapsto> length (pf_flights p)),
      pf_flights := pf_flights p @ [\<lparr>fl_key = key, fl_result = None\<rparr>]\<rparr>"
  shows "pf_ok content cs p'" "extends p p'"
proof -
  have "d < length (pf_flights p') \<and> fl_key (pf_flights p' ! d) = k" if "pf_group p' k = Some d" for k d
    using that ok by (cases "k = key") (auto simp: p'_def pf_ok_def nth_append less_SucI)
  moreover have "result_ok p index r"
    if "fl \<in> set (pf_flights p')" "index_ok cs index" "fl_key fl = FormatInt index" "fl_result fl = Some r" for fl index r
    using that ok unfolding pf_ok_def by (auto simp: p'_def)
  ultimately show "pf_ok content cs p'" using ok unfolding pf_ok_def by (simp add: p'_def)
  show "extends p p'" by (simp add: extends_def p'_def nth_append)
qed

context reader_at
begin

lemma fetch_reading_ok:
  assumes ok: "pf_ok content cs p" and f: "fetch_ok cs p i (FReading c k)"
    and read: "(buf, n, err) \<in> set (read_chunk rd p i)" "read_ok err"
    and store: "store_chunk now i buf n p = (a, p')"
  shows "pf_ok content cs (release p')" "extends p (release p')" "fetch_ok cs (release p') i (FFinish c (Inr a))"
proof -
  have "chunk_ok content cs \<lparr>ck_index = i, ck_data = buf, ck_size = n, ck_lastUsed = now\<rparr>"
    using read_chunk_ok [OF read] f ok by (simp add: pf_ok_def)
  note st = pf_ok_store [OF ok this store]
  from st(1) show "pf_ok content cs (release p')" by simp
  from st(2) show ext: "extends p (release p')" by (rule extends_trans) simp
  from st(3) flight_for_extends [OF ext] f show "fetch_ok cs (release p') i (FFinish c (Inr a))" by simp
qed

lemma fetch_step_inv:
  assumes ok: "pf_ok content cs p" and f: "fetch_ok cs p i pc"
    and step: "(p', pc') \<in> set (fetch_step rd now i p pc)"
  shows "pf_ok content cs p' \<and> extends p p' \<and> fetch_ok cs p' i pc'"
proof (cases pc)
  case FEnter
  show ?thesis
  proof (cases "pf_group p (FormatInt i)")
    case None
    with step FEnter f pf_ok_new_flight [OF ok, of "FormatInt i"] show ?thesis
      by (simp add: Let_def flight_for_def)
  next
    case (Some c)
    with ok have "flight_for p i c" by (auto simp: pf_ok_def flight_for_def)
    with step FEnter Some f ok show ?thesis by simp
  qed
next
  case (FWait c)
  with step obtain r where r: "fl_result (pf_flights p ! c) = Some r" "p' = p" "pc' = FReturn r"
    by (cases "fl_result (pf_flights p ! c)") auto
  have "pf_flights p ! c \<in> set (pf_flights p)" "fl_key (pf_flights p ! c) = FormatInt i" "index_ok cs i"
    using f FWait by (auto simp: flight_for_def)
  with ok r(1) have "result_ok p i r" unfolding pf_ok_def by blast
  with r f FWait ok show ?thesis by simp
next
  case (FLead c)
  obtain r cc where get: "cache_getChunk now i (pf_cache p) = (r, cc)" by fastforce
  note g = pf_ok_getChunk [OF ok get]
  show ?thesis
  proof (cases r)
    case None
    with step FLead f g(1,2) get show ?thesis by simp
  next
    case (Some a)
    with step FLead f g(1,2) g(3) [OF Some] get show ?thesis by simp
  qed
next
  case (FReading c k)
  with step consider "(p', pc') = retry_or_fail c k p"
    | buf n err a q where "(buf, n, err) \<in> set (read_chunk rd p i)" "read_ok err" "store_chunk now i buf n p = (a, q)"
        "p' = release q" "pc' = FFinish c (Inr a)"
    by (auto split: if_splits prod.splits)
  then show ?thesis
  proof cases
    case 1
    with retry_or_fail_ok [of cs p i c k p' pc' content] f FReading ok show ?thesis by simp
  next
    case 2
    from fetch_reading_ok [OF ok f [unfolded FReading] 2(1-3)] 2(4,5) show ?thesis by simp
  qed
next
  case (FFinish c r)
  let ?g = "if pf_group p (FormatInt i) = Some c then (pf_group p)(FormatInt i := None) else pf_group p"
  have g: "?g key = Some d \<Longrightarrow> pf_group p key = Some d" for key d by (auto split: if_splits)
  note fin = pf_ok_finish [OF ok f [unfolded FFinish] g]
  from step FFinish have "p' = p\<lparr>pf_flights := (pf_flights p)[c := (pf_flights p ! c)\<lparr>fl_result := Some r\<rparr>], pf_group := ?g\<rparr>"
      "pc' = FReturn r" by (simp_all add: Let_def)
  with fin f FFinish result_ok_extends [OF fin(2)] show ?thesis by simp
next
  case (FAcquire c)
  have "0 \<le> cf_MaxRetries (pf_config p)" using ok by (simp add: pf_ok_def)
  with step f ok FAcquire show ?thesis by auto
qed (use step f ok in auto)

end

section \<open>Reading\<close>

lemma wg_Done_frame [simp]:
  "pf_ok content cs (wg_Done p) = pf_ok content cs p" "extends p (wg_Done p)"
  by (simp_all add: wg_Done_def)

lemma beginOperation_frame:
  assumes "beginOperation p = (b, p')"
  shows "pf_ok content cs p' = pf_ok content cs p" "extends p p'" "pf_cache p' = pf_cache p" "pf_size p' = pf_size p"
    and "b \<longleftrightarrow> \<not> pf_closed p" "p' = (if b then p\<lparr>pf_wg := pf_wg p + 1\<rparr> else p)"
  using assms by (auto simp: beginOperation_def split: if_splits)

lemma div_bounds: "0 < c \<Longrightarrow> m div c * c \<le> m \<and> m < (m div c + 1) * c" for m c :: int
  using div_mult_mod_eq [of m c] pos_mod_sign [of c m] pos_mod_bound [of c m] unfolding distrib_right by linarith

lemma range_ok_bounds:
  assumes "range_ok content cs len off s e" "0 < cs"
  shows "0 \<le> s" "s \<le> e" "e * int cs \<le> off + int len - 1" "e + 1 < 2 ^ 63"
proof -
  let ?m = "off + int len - 1"
  have m: "0 \<le> ?m" "off \<le> ?m" "?m < 2 ^ 63 - 1" and off: "0 \<le> off"
    and s: "s = off div int cs" and e: "e = ?m div int cs"
    using assms by (auto simp: range_ok_def call_ok_def)
  show "0 \<le> s" "s \<le> e" using m off assms(2) by (simp_all add: s e zdiv_mono1 pos_imp_zdiv_nonneg_iff)
  have "?m div int cs * int cs \<le> ?m" using div_bounds [of "int cs" ?m] assms(2) by simp
  then show le: "e * int cs \<le> ?m" by (simp add: e)
  have "e * 1 \<le> e * int cs" using \<open>0 \<le> s\<close> \<open>s \<le> e\<close> assms(2) by (intro mult_left_mono) auto
  with le m(3) show "e + 1 < 2 ^ 63" by simp
qed

lemma index_ok_required:
  assumes "range_ok content cs len off s e" "0 < cs" "s \<le> i" "i \<le> e"
  shows "index_ok cs i" "i64 (i + 1) = i + 1"
proof -
  note b = range_ok_bounds [OF assms(1,2)]
  have "i * int cs \<le> e * int cs" using assms(4) by (simp add: mult_right_mono)
  with b assms(1,3) show "index_ok cs i" by (auto simp: index_ok_def range_ok_def call_ok_def)
  show "i64 (i + 1) = i + 1" using b assms(3,4) by simp
qed

lemma index_ok_ahead:
  assumes "0 \<le> i" "i \<le> (int n - 1) div int cs" "int n < 2 ^ 63" "0 < cs"
  shows "index_ok cs i" "i64 (i + 1) = i + 1"
proof -
  have "i * int cs \<le> (int n - 1) div int cs * int cs" using assms(2) by (simp add: mult_right_mono)
  also have "\<dots> \<le> int n - 1"
    using div_bounds [of "int cs" "int n - 1"] assms(4) by simp
  finally have i: "i * int cs \<le> int n - 1" .
  with assms(1,3) show "index_ok cs i" by (simp add: index_ok_def)
  have "i * 1 \<le> i * int cs" using assms(1,4) by (intro mult_left_mono) auto
  with i assms(1,3) show "i64 (i + 1) = i + 1" by simp
qed

lemma windowEndChunk_le:
  assumes "pf_ok content cs p" "0 < length content"
  shows "windowEndChunk p s \<le> (int (length content) - 1) div int cs"
  using assms by (simp add: windowEndChunk_def pf_ok_def Let_def quot_nonneg)

lemma done_complete:
  assumes "pf_ok content cs p" "range_ok content cs len off s e" "progress content cs len off s i acc" "s \<le> i"
    and "e < i \<or> length acc = len \<or> length content \<le> nat off + length acc"
  shows "done_ok content cs len off acc (read_result p off acc None)"
proof -
  have cs: "0 < cs" and sz: "pf_size p = int (length content)" using assms(1) by (simp_all add: pf_ok_def)
  note b = range_ok_bounds [OF assms(2) cs]
  have call: "0 < len" "0 \<le> off" "off < int (length content)" "off + int len < 2 ^ 63" "\<not> past_end_in_chunk content cs len off"
    using assms(2) by (auto simp: range_ok_def call_ok_def)
  have acc: "acc = take (length acc) (drop (nat off) content)" "length acc \<le> len" using assms(3) by (auto simp: progress_def)
  have full: "length acc = len \<or> length content \<le> nat off + length acc"
  proof (cases "e < i")
    case True
    then have "i \<noteq> s" using b(2) by simp
    then consider "nat off + length acc = nat i * cs" | "length acc = len" | "length content \<le> nat off + length acc"
      using assms(3) by (auto simp: progress_def)
    then show ?thesis
    proof cases
      case 1
      have "off + int len - 1 < (e + 1) * int cs"
        using assms(2) cs div_bounds [of "int cs" "off + int len - 1"] by (simp add: range_ok_def)
      also have "\<dots> \<le> i * int cs" using True by (intro mult_right_mono) auto
      also have "i * int cs = int (nat i * cs)" using b True by simp
      also have "\<dots> = off + int (length acc)" using 1 call(2) by (metis int_nat_eq of_nat_add)
      finally show ?thesis using acc(2) by simp
    qed auto
  qed (use assms(5) in auto)
  have all: "acc = take len (drop (nat off) content)"
  proof (cases "length acc = len")
    case True
    with acc(1) show ?thesis by simp
  next
    case False
    with full have "length content - nat off \<le> length acc" by simp
    with acc show ?thesis by (metis length_drop take_all_iff order_trans)
  qed
  have "i64 (off + int (length acc)) = off + int (length acc)" using call acc(2) by simp
  then show ?thesis
    using call sz all acc by (auto simp: done_ok_def read_result_def)
qed

lemma fetching_step:
  assumes "\<nexists>r. pc = FReturn r"
  shows "goroutine_step rd now p (RdFetch len off s e i acc pc)
      = map (\<lambda>(p', pc'). (p', RdFetch len off s e i acc pc', [])) (fetch_step rd now i p pc)"
    and "goroutine_step rd now p (RqFetch i pc) = map (\<lambda>(p', pc'). (p', RqFetch i pc', [])) (fetch_step rd now i p pc)"
  using assms by (cases pc; simp del: fetch_step.simps)+

lemma finish_read_ok:
  assumes "pf_ok content cs p" "done_ok content cs len off acc err" "(p', t', new) \<in> set (finish_read p len off acc err)"
  shows "pf_ok content cs p' \<and> extends p p' \<and> goroutine_ok content cs p' t' \<and> new = []"
proof -
  have "extends p (wg_Done (p\<lparr>pf_readCount := pf_readCount p - 1\<rparr>))"
    by (rule extends_trans [OF extends_frame(3) wg_Done_frame(2)])
  with assms show ?thesis by (simp add: finish_read_def)
qed

lemma copy_next_ok:
  assumes ok: "pf_ok content cs p" and range: "range_ok content cs len off s e" "s \<le> i" "i \<le> e"
    and acc: "progress content cs len off s i acc" "length acc < len"
    and a: "result_ok p i (Inr a)"
    and step: "(p', t', new) \<in> set (copy_next p len off s e i acc (cc_heap (pf_cache p) ! a))"
  shows "pf_ok content cs p' \<and> extends p p' \<and> goroutine_ok content cs p' t' \<and> new = []"
proof -
  let ?ch = "cc_heap (pf_cache p) ! a"
  have cs: "0 < cs" "chunk_size p = int cs" using ok by (simp_all add: pf_ok_def)
  have off: "0 \<le> off" "s = off div int cs" using range(1) by (simp_all add: range_ok_def call_ok_def)
  have ch: "chunk_ok content cs ?ch" "ck_index ?ch = i" using a ok by (auto simp: result_ok_def pf_ok_def)
  note prog = copy_chunk_progress [OF ch cs off range(2) acc]
  show ?thesis
  proof (cases "copy_chunk p len off s i acc ?ch")
    case None
    with prog have "length content \<le> nat off + length acc" by simp
    then have "done_ok content cs len off acc (read_result p off acc None)"
      by (intro done_complete [OF ok range(1) acc(1) range(2)]) simp
    with finish_read_ok [OF ok] step None show ?thesis by (simp add: copy_next_def)
  next
    case (Some acc')
    with prog have "progress content cs len off s (i + 1) acc'" by simp
    with step Some ok range index_ok_required(2) [OF range(1) cs(1) range(2,3)] show ?thesis
      by (simp add: copy_next_def)
  qed
qed

lemma RdBegin_ok:
  assumes ok: "pf_ok content cs p" and t: "goroutine_ok content cs p (RdBegin len off)"
    and step: "(p', t', new) \<in> set (goroutine_step rd now p (RdBegin len off))"
  shows "pf_ok content cs p' \<and> extends p p' \<and> goroutine_ok content cs p' t' \<and> new = []"
proof -
  have sz: "pf_size p = int (length content)" using ok by (simp add: pf_ok_def)
  have early: "done_ok content cs len off [] (Some (PrefetchError e))" for e by (simp add: done_ok_def)
  have valid: "validateRead (p\<lparr>pf_wg := w\<rparr>) len off = validateRead p len off" for w by (simp add: validateRead_def)
  have "done_ok content cs len off [] (validateRead p len off)" if "validateRead p len off \<noteq> None \<or> len = 0"
    using that sz by (auto simp: validateRead_def done_ok_def call_ok_def)
  moreover have "call_ok content cs len off" if "validateRead p len off = None" "len \<noteq> 0"
    using that sz t by (auto simp: validateRead_def call_ok_def split: if_splits)
  moreover have "extends p (wg_Done (p\<lparr>pf_wg := pf_wg p + 1\<rparr>))" "extends p (p\<lparr>pf_wg := pf_wg p + 1, pf_readCount := pf_readCount p + 1\<rparr>)"
    by (simp_all add: extends_def wg_Done_def)
  ultimately show ?thesis
    using step ok early
    by (cases "pf_closed p") (auto simp: beginOperation_def valid Let_def wg_Done_def split: if_splits)
qed

lemma RdEvict_ok:
  assumes ok: "pf_ok content cs p" and t: "goroutine_ok content cs p (RdEvict len off)"
    and step: "(p', t', new) \<in> set (goroutine_step rd now p (RdEvict len off))"
  shows "pf_ok content cs p' \<and> extends p p' \<and> goroutine_ok content cs p' t' \<and> new = []"
proof -
  let ?s = "off div int cs" and ?e = "(off + int len - 1) div int cs"
  let ?p = "p\<lparr>pf_cache := evictBefore ?s (pf_cache p)\<rparr>"
  have cs: "chunk_size p = int cs" "0 < cs" "pf_size p = int (length content)" using ok by (simp_all add: pf_ok_def)
  have call: "0 < len" "0 \<le> off" "off < int (length content)" "off + int len < 2 ^ 63" using t by (simp_all add: call_ok_def)
  have q: "quot off (chunk_size p) = ?s" "quot (i64 (i64 (off + int len) - 1)) (chunk_size p) = ?e" "i64 (off + int len) = off + int len"
    using call cs by (simp_all add: quot_nonneg)
  have eq: "goroutine_step rd now p (RdEvict len off)
      = (if int (length content) < off + int len \<and> ?s = ?e then finish_read ?p len off [] (Some IoEOF)
         else [(?p, RdRequired len off ?s ?e ?s, [])])"
  proof -
    have "content \<noteq> []" using call(2,3) by auto
    then show ?thesis
      unfolding goroutine_step.simps Let_def q(2) unfolding q(1,3) using cs(3) by simp
  qed
  have ok': "pf_ok content cs ?p" by (rule pf_ok_evictBefore [OF ok])
  have ext: "extends p ?p" by (simp add: extends_def)
  show ?thesis
  proof (cases "int (length content) < off + int len \<and> ?s = ?e")
    case True
    then have past: "past_end_in_chunk content cs len off" by (simp add: past_end_in_chunk_def)
    then have "done_ok content cs len off [] (Some IoEOF)" by (simp add: done_ok_def)
    moreover have "(p', t', new) \<in> set (finish_read ?p len off [] (Some IoEOF))"
      using step True unfolding eq by simp
    ultimately show ?thesis using finish_read_ok [OF ok'] extends_trans [OF ext] by blast
  next
    case False
    then have "range_ok content cs len off ?s ?e" using t by (auto simp: range_ok_def past_end_in_chunk_def)
    with step False ok' ext show ?thesis unfolding eq by simp
  qed
qed

lemma RdRequired_ok:
  assumes ok: "pf_ok content cs p" and t: "goroutine_ok content cs p (RdRequired len off s e i)"
    and step: "(p', t', new) \<in> set (goroutine_step rd now p (RdRequired len off s e i))"
  shows "pf_ok content cs p' \<and> extends p p' \<and> goroutine_ok content cs p' t' \<and> (\<forall>u \<in> set new. goroutine_ok content cs p' u)"
proof -
  have cs: "0 < cs" using ok by (simp add: pf_ok_def)
  have range: "range_ok content cs len off s e" "s \<le> i" using t by simp_all
  note b = range_ok_bounds [OF range(1) cs]
  show ?thesis
  proof (cases "i \<le> e")
    case True
    note ix = index_ok_required [OF range(1) cs range(2) True]
    from step True ix ok range show ?thesis
      by (cases "pf_closed p") (auto simp: beginOperation_def split: if_splits)
  next
    case False
    have "0 < length content" using range(1) by (auto simp: range_ok_def call_ok_def)
    from step False ok range b windowEndChunk_le [OF ok this] show ?thesis by simp
  qed
qed

lemma RdAhead_ok:
  assumes ok: "pf_ok content cs p" and t: "goroutine_ok content cs p (RdAhead len off s e w i k)"
    and step: "(p', t', new) \<in> set (goroutine_step rd now p (RdAhead len off s e w i k))"
  shows "pf_ok content cs p' \<and> extends p p' \<and> goroutine_ok content cs p' t' \<and> (\<forall>u \<in> set new. goroutine_ok content cs p' u)"
proof -
  have cs: "0 < cs" "int (length content) < 2 ^ 63" using ok by (simp_all add: pf_ok_def)
  have range: "range_ok content cs len off s e" "s \<le> i" "w \<le> (int (length content) - 1) div int cs" using t by simp_all
  note b = range_ok_bounds [OF range(1) cs(1)]
  show ?thesis
  proof (cases "i \<le> w \<and> k < readAhead_limit p")
    case True
    have "0 \<le> i" "i \<le> (int (length content) - 1) div int cs" using b(1) range(2,3) True by auto
    note ix = index_ok_ahead [OF this cs(2,1)]
    from step True ix ok range show ?thesis
      by (cases "pf_closed p") (auto simp: beginOperation_def split: if_splits)
  next
    case False
    then have "p' = p" "t' = RdCopy len off s e s []" "new = []" using step by auto
    with ok range show ?thesis by (simp add: progress_def)
  qed
qed

lemma RdCopy_ok:
  assumes ok: "pf_ok content cs p" and t: "goroutine_ok content cs p (RdCopy len off s e i acc)"
    and step: "(p', t', new) \<in> set (goroutine_step rd now p (RdCopy len off s e i acc))"
  shows "pf_ok content cs p' \<and> extends p p' \<and> goroutine_ok content cs p' t' \<and> new = []"
proof -
  have cs: "0 < cs" using ok by (simp add: pf_ok_def)
  have range: "range_ok content cs len off s e" "s \<le> i" and acc: "progress content cs len off s i acc" using t by simp_all
  show ?thesis
  proof (cases "i \<le> e \<and> length acc < len")
    case True
    obtain r cc where get: "cache_getChunk now i (pf_cache p) = (r, cc)" by fastforce
    note g = pf_ok_getChunk [OF ok get]
    show ?thesis
    proof (cases r)
      case None
      with step True get g(1,2) range acc index_ok_required(1) [OF range(1) cs range(2)] show ?thesis by auto
    next
      case (Some a)
      with step True get have "(p', t', new) \<in> set (copy_next (p\<lparr>pf_cache := cc\<rparr>) len off s e i acc (cc_heap (pf_cache (p\<lparr>pf_cache := cc\<rparr>)) ! a))"
        by simp
      from copy_next_ok [OF g(1) range _ acc _ g(3) [OF Some] this] True extends_trans [OF g(2)] show ?thesis by blast
    qed
  next
    case False
    then have "e < i \<or> length acc = len \<or> length content \<le> nat off + length acc" using acc by (auto simp: progress_def)
    from finish_read_ok [OF ok done_complete [OF ok range(1) acc range(2) this]] step False show ?thesis by auto
  qed
qed

context reader_at
begin

lemma RdFetch_ok:
  assumes ok: "pf_ok content cs p" and t: "goroutine_ok content cs p (RdFetch len off s e i acc pc)"
    and step: "(p', t', new) \<in> set (goroutine_step rd now p (RdFetch len off s e i acc pc))"
  shows "pf_ok content cs p' \<and> extends p p' \<and> goroutine_ok content cs p' t' \<and> new = []"
proof (cases "\<exists>r. pc = FReturn r")
  case True
  then obtain r where r: "pc = FReturn r" by blast
  show ?thesis
  proof (cases r)
    case (Inl err)
    have "done_ok content cs len off acc (read_result p off acc (Some err))"
      using t r Inl by (simp add: done_ok_def read_result_def progress_def)
    with finish_read_ok [OF ok] step r Inl show ?thesis by simp
  next
    case (Inr a)
    with t r have acc: "range_ok content cs len off s e" "s \<le> i" "i \<le> e" "progress content cs len off s i acc"
      "length acc < len" "result_ok p i (Inr a)" by simp_all
    show ?thesis by (rule copy_next_ok [OF ok acc]) (use step r Inr in simp)
  qed
next
  case False
  from step obtain pc' where pc': "(p', pc') \<in> set (fetch_step rd now i p pc)" "t' = RdFetch len off s e i acc pc'" "new = []"
    unfolding fetching_step(1) [OF False] by auto
  with fetch_step_inv [OF ok _ pc'(1)] t show ?thesis by simp
qed

lemma RqFetch_ok:
  assumes ok: "pf_ok content cs p" and t: "goroutine_ok content cs p (RqFetch i pc)"
    and step: "(p', t', new) \<in> set (goroutine_step rd now p (RqFetch i pc))"
  shows "pf_ok content cs p' \<and> extends p p' \<and> goroutine_ok content cs p' t' \<and> new = []"
proof (cases "\<exists>r. pc = FReturn r")
  case True
  with step ok show ?thesis by auto
next
  case False
  from step obtain pc' where pc': "(p', pc') \<in> set (fetch_step rd now i p pc)" "t' = RqFetch i pc'" "new = []"
    unfolding fetching_step(2) [OF False] by auto
  with fetch_step_inv [OF ok _ pc'(1)] t show ?thesis by simp
qed

lemma RaReading_ok:
  assumes ok: "pf_ok content cs p" and t: "goroutine_ok content cs p (RaReading i)"
    and step: "(p', t', new) \<in> set (goroutine_step rd now p (RaReading i))"
  shows "pf_ok content cs p' \<and> extends p p' \<and> goroutine_ok content cs p' t' \<and> new = []"
proof -
  from step obtain buf n err where read: "(buf, n, err) \<in> set (read_chunk rd p i)"
    and p': "p' = wg_Done (release (if read_ok err then snd (store_chunk now i buf n p) else p))" "t' = Exited" "new = []"
    by auto
  define q where "q = (if read_ok err then snd (store_chunk now i buf n p) else p)"
  have "pf_ok content cs q \<and> extends p q"
  proof (cases "read_ok err")
    case True
    obtain a p1 where st: "store_chunk now i buf n p = (a, p1)" by fastforce
    have "chunk_ok content cs \<lparr>ck_index = i, ck_data = buf, ck_size = n, ck_lastUsed = now\<rparr>"
      using read_chunk_ok [OF read True] t ok by (simp add: pf_ok_def)
    from pf_ok_store(1,2) [OF ok this st] True st show ?thesis by (simp add: q_def)
  next
    case False
    then have "q = p" unfolding q_def by (rule if_not_P)
    with ok show ?thesis by simp
  qed
  moreover have "extends q (wg_Done (release q))" by (rule extends_trans [OF release_frame(2) wg_Done_frame(2)])
  ultimately show ?thesis using p' extends_trans unfolding q_def [symmetric] by auto
qed

lemma goroutine_step_inv:
  assumes ok: "pf_ok content cs p" and t: "goroutine_ok content cs p t"
    and step: "(p', t', new) \<in> set (goroutine_step rd now p t)"
  shows "pf_ok content cs p' \<and> extends p p' \<and> goroutine_ok content cs p' t' \<and> (\<forall>u \<in> set new. goroutine_ok content cs p' u)"
proof (cases t)
  case (RdBegin len off)
  from RdBegin_ok [OF ok t [unfolded this] step [unfolded this]] show ?thesis by simp
next
  case (RdEvict len off)
  from RdEvict_ok [OF ok t [unfolded this] step [unfolded this]] show ?thesis by simp
next
  case (RdRequired len off s e i)
  from RdRequired_ok [OF ok t [unfolded this] step [unfolded this]] show ?thesis by simp
next
  case (RdAhead len off s e w i k)
  from RdAhead_ok [OF ok t [unfolded this] step [unfolded this]] show ?thesis by simp
next
  case (RdCopy len off s e i acc)
  from RdCopy_ok [OF ok t [unfolded this] step [unfolded this]] show ?thesis by simp
next
  case (RdFetch len off s e i acc pc)
  from RdFetch_ok [OF ok t [unfolded this] step [unfolded this]] show ?thesis by simp
next
  case (RqFetch i pc)
  from RqFetch_ok [OF ok t [unfolded this] step [unfolded this]] show ?thesis by simp
next
  case (RaReading i)
  from RaReading_ok [OF ok t [unfolded this] step [unfolded this]] show ?thesis by simp
next
  case ClClear
  with step pf_ok_clear [OF ok] extends_cache [of p "cache_clear (pf_cache p)"] show ?thesis by simp
qed (use step t ok in \<open>auto split: if_splits\<close>)

end

section \<open>Counting: the wait group and the semaphore\<close>

fun registered :: "goroutine \<Rightarrow> nat" where
  \<comment> \<open>goroutines that have called \<open>wg.Add\<close> and not yet \<open>wg.Done\<close>\<close>
  "registered (RdBegin len off) = 0"
| "registered (RdDone len off acc err) = 0"
| "registered ClStart = 0"
| "registered ClWait = 0"
| "registered ClClear = 0"
| "registered (ClDone b) = 0"
| "registered Exited = 0"
| "registered _ = 1"

fun slots :: "goroutine \<Rightarrow> nat" where
  \<comment> \<open>goroutines that hold the semaphore\<close>
  "slots (RdFetch len off s e i acc pc) = holding pc"
| "slots (RqFetch i pc) = holding pc"
| "slots (RaReading i) = 1"
| "slots _ = 0"

definition limit :: "prefetcher \<Rightarrow> nat" where
  "limit p = nat (cf_MaxParallelReads (pf_config p))"

lemma store_chunk_fields:
  "store_chunk now i buf n p = (a, p') \<Longrightarrow> \<exists>cc. p' = p\<lparr>pf_cache := cc\<rparr>"
  "\<exists>cc. snd (store_chunk now i buf n p) = p\<lparr>pf_cache := cc\<rparr>"
  by (auto simp: store_chunk_def new_chunk_def Let_def)

lemma fetch_step_counts:
  assumes "(p', pc') \<in> set (fetch_step rd now i p pc)" "holding pc \<le> pf_semaphore p"
  shows "pf_wg p' = pf_wg p" "pf_closed p' = pf_closed p" "pf_canceled p' = pf_canceled p" "pf_config p' = pf_config p"
    and "pf_semaphore p' + holding pc = pf_semaphore p + holding pc'"
    and "pf_semaphore p \<le> limit p \<Longrightarrow> pf_semaphore p' \<le> limit p"
proof -
  have "pf_wg p' = pf_wg p \<and> pf_closed p' = pf_closed p \<and> pf_canceled p' = pf_canceled p \<and> pf_config p' = pf_config p
      \<and> pf_semaphore p' + holding pc = pf_semaphore p + holding pc'
      \<and> (pf_semaphore p \<le> limit p \<longrightarrow> pf_semaphore p' \<le> limit p)"
  proof (cases pc)
    case (FReading c k)
    with assms consider "(p', pc') = retry_or_fail c k p"
      | buf n a q where "store_chunk now i buf n p = (a, q)" "p' = release q" "pc' = FFinish c (Inr a)"
      by (auto split: if_splits prod.splits)
    then show ?thesis
      by cases (use assms(2) FReading in \<open>auto simp: retry_or_fail_def release_def dest: store_chunk_fields(1) split: if_splits\<close>)
  qed (use assms in \<open>auto simp: Let_def release_def free_slot_def limit_def split: option.splits prod.splits if_splits\<close>)
  then show "pf_wg p' = pf_wg p" "pf_closed p' = pf_closed p" "pf_canceled p' = pf_canceled p" "pf_config p' = pf_config p"
    "pf_semaphore p' + holding pc = pf_semaphore p + holding pc'" "pf_semaphore p \<le> limit p \<Longrightarrow> pf_semaphore p' \<le> limit p"
    by auto
qed

lemma RqRd_fetch_counts:
  assumes step: "(p', t', new) \<in> set (goroutine_step rd now p t)" and t: "t = RqFetch i pc \<or> t = RdFetch len off s e i acc pc"
    and pc: "\<nexists>r. pc = FReturn r" and pre: "slots t \<le> pf_semaphore p"
  shows "pf_wg p' = pf_wg p" "pf_closed p' = pf_closed p" "pf_canceled p' = pf_canceled p" "pf_config p' = pf_config p"
    and "pf_semaphore p' + slots t = pf_semaphore p + slots t'" "pf_semaphore p \<le> limit p \<Longrightarrow> pf_semaphore p' \<le> limit p"
    and "registered t' = 1" "new = []" "t' \<notin> {ClWait, ClClear, ClDone True}"
proof -
  from step t obtain pc' where pc': "(p', pc') \<in> set (fetch_step rd now i p pc)"
    and t': "t' = RqFetch i pc' \<and> t = RqFetch i pc \<or> t' = RdFetch len off s e i acc pc' \<and> t = RdFetch len off s e i acc pc" "new = []"
    by (auto simp: fetching_step [OF pc] simp del: goroutine_step.simps)
  have h: "holding pc \<le> pf_semaphore p" using pre t by auto
  note c = fetch_step_counts [OF pc' h]
  from c t' show "pf_wg p' = pf_wg p" "pf_closed p' = pf_closed p" "pf_canceled p' = pf_canceled p" "pf_config p' = pf_config p"
    "pf_semaphore p' + slots t = pf_semaphore p + slots t'" "pf_semaphore p \<le> limit p \<Longrightarrow> pf_semaphore p' \<le> limit p"
    "registered t' = 1" "new = []" "t' \<notin> {ClWait, ClClear, ClDone True}"
    by auto
qed

lemma goroutine_step_counts:
  assumes step: "(p', t', new) \<in> set (goroutine_step rd now p t)"
    and pre: "registered t \<le> pf_wg p" "slots t \<le> pf_semaphore p"
  shows "pf_wg p' + registered t = pf_wg p + registered t' + sum_list (map registered new)
    \<and> pf_semaphore p' + slots t = pf_semaphore p + slots t' + sum_list (map slots new)
    \<and> (pf_semaphore p \<le> limit p \<longrightarrow> pf_semaphore p' \<le> limit p)
    \<and> pf_config p' = pf_config p
    \<and> (pf_closed p \<longrightarrow> pf_closed p' \<and> sum_list (map registered new) = 0 \<and> (registered t = 0 \<longrightarrow> registered t' = 0))
    \<and> (pf_canceled p = pf_closed p \<longrightarrow> pf_canceled p' = pf_closed p')
    \<and> (\<forall>u \<in> set new. u \<notin> {ClWait, ClClear, ClDone True})"
proof (cases t)
  case (RdFetch len off s e i acc pc)
  show ?thesis
  proof (cases "\<exists>r. pc = FReturn r")
    case True
    then show ?thesis using step pre RdFetch
      by (auto simp: copy_next_def finish_read_def wg_Done_def split: sum.splits option.splits)
  next
    case False
    from RqRd_fetch_counts [OF step _ False pre(2)] RdFetch show ?thesis by simp
  qed
next
  case (RqFetch i pc)
  show ?thesis
  proof (cases "\<exists>r. pc = FReturn r")
    case True
    then show ?thesis using step pre RqFetch by (auto simp: wg_Done_def)
  next
    case False
    from RqRd_fetch_counts [OF step _ False pre(2)] RqFetch show ?thesis by simp
  qed
next
  case (RaReading i)
  with step obtain buf n err where p': "p' = wg_Done (release (if read_ok err then snd (store_chunk now i buf n p) else p))" "t' = Exited" "new = []"
    by auto
  obtain cc where "(if read_ok err then snd (store_chunk now i buf n p) else p) = p\<lparr>pf_cache := cc\<rparr>"
    using store_chunk_fields(2) [of now i buf n p] by (metis (no_types) prefetcher.surjective prefetcher.update_convs(3))
  with p' pre RaReading show ?thesis by (auto simp: wg_Done_def release_def)
next
  case (RdCopy len off s e i acc)
  with step pre show ?thesis
    by (auto simp: copy_next_def finish_read_def wg_Done_def split: if_splits option.splits prod.splits)
qed (use step pre in \<open>auto simp: beginOperation_def wg_Done_def finish_read_def free_slot_def limit_def Let_def split: if_splits\<close>)

end
