(* ===== verification/Prefetcher_System.thy ===== *)
theory Prefetcher_System
  imports Prefetcher_Invariant
begin

text \<open>
  The executions of the prefetcher: the invariants of the preceding theory lifted to every
  reachable state, an executable scheduler for concrete runs, and the properties.
\<close>

section \<open>The invariant of the system\<close>

definition sys_ok :: "bytes \<Rightarrow> nat \<Rightarrow> prefetcher \<times> goroutine list \<Rightarrow> bool" where
  "sys_ok content cs = (\<lambda>(p, ts). pf_ok content cs p \<and> (\<forall>t \<in> set ts. goroutine_ok content cs p t))"

fun close_ok :: "prefetcher \<Rightarrow> goroutine \<Rightarrow> bool" where
  "close_ok p ClWait = pf_closed p"
| "close_ok p ClClear = (pf_closed p \<and> pf_wg p = 0)"
| "close_ok p (ClDone True) =
     (pf_closed p \<and> pf_wg p = 0 \<and> cc_chunkMap (pf_cache p) = [] \<and> cc_intervalTree (pf_cache p) = None)"
| "close_ok p _ = True"

definition sys_counts :: "prefetcher \<times> goroutine list \<Rightarrow> bool" where
  "sys_counts = (\<lambda>(p, ts).
     pf_wg p = sum_list (map registered ts) \<and> pf_semaphore p = sum_list (map slots ts)
     \<and> pf_semaphore p \<le> limit p \<and> pf_canceled p = pf_closed p \<and> (\<forall>t \<in> set ts. close_ok p t))"

lemma member_le_sum: "x \<in> set xs \<Longrightarrow> f x \<le> sum_list (map f xs)" for f :: "'a \<Rightarrow> nat"
  by (induction xs) auto

lemma sum_list_le_upd:
  fixes f :: "goroutine \<Rightarrow> nat"
  assumes "i < length ts" "x + f (ts ! i) = sum_list (map f ts) + f t' + sum_list (map f new)"
  shows "x = sum_list (map f (ts[i := t'] @ new))"
  using sum_list_update_add [OF assms(1), of f t'] assms(2) by simp

lemma unregistered_cache:
  assumes "(p', t', new) \<in> set (goroutine_step rd now p t)" "registered t = 0"
  shows "pf_cache p' = pf_cache p \<or> pf_cache p' = cache_clear (pf_cache p)"
  using assms
  by (cases t) (auto simp: beginOperation_def wg_Done_def Let_def split: if_splits)

lemma close_ok_step:
  assumes "(p', t', new) \<in> set (goroutine_step rd now p t)" "close_ok p t"
  shows "close_ok p' t' \<or> registered t = 1"
  using assms
  by (cases t) (auto simp: beginOperation_def wg_Done_def cache_clear_def Let_def split: if_splits)

lemma registered_next:
  assumes "(p', t', new) \<in> set (goroutine_step rd now p t)" "registered t = 1"
  shows "t' \<notin> {ClWait, ClClear, ClDone True}"
proof (cases "(\<exists>i pc. t = RqFetch i pc \<and> (\<nexists>r. pc = FReturn r)) \<or> (\<exists>len off s e i acc pc. t = RdFetch len off s e i acc pc \<and> (\<nexists>r. pc = FReturn r))")
  case True
  with assms(1) show ?thesis
    by (elim disjE exE conjE) (auto simp: fetching_step simp del: goroutine_step.simps)
next
  case False
  with assms show ?thesis
    by (cases t) (auto simp: copy_next_def finish_read_def beginOperation_def Let_def
        split: if_splits option.splits prod.splits sum.splits)
qed

lemma close_ok_trivial: "t \<notin> {ClWait, ClClear, ClDone True} \<Longrightarrow> close_ok p t"
  by (cases "(p, t)" rule: close_ok.cases) auto

lemma close_ok_other:
  assumes "close_ok p u" "pf_closed p \<longrightarrow> pf_closed p'" "pf_closed p \<and> pf_wg p = 0 \<longrightarrow> pf_wg p' = 0"
    and "pf_closed p \<and> pf_wg p = 0 \<longrightarrow> pf_cache p' = pf_cache p \<or> pf_cache p' = cache_clear (pf_cache p)"
  shows "close_ok p' u"
  using assms by (cases "(p, u)" rule: close_ok.cases) (auto simp: cache_clear_def)

lemma sys_counts_step:
  assumes "sys_step rd s s'" "sys_counts s"
  shows "sys_counts s' \<and> pf_config (fst s') = pf_config (fst s)"
  using assms(1)
proof cases
  case (run i ts p' t' new now p)
  let ?t = "ts ! i"
  have inv: "pf_wg p = sum_list (map registered ts)" "pf_semaphore p = sum_list (map slots ts)" "pf_semaphore p \<le> limit p"
    "pf_canceled p = pf_closed p" "\<forall>t \<in> set ts. close_ok p t"
    using assms(2) run(1) by (auto simp: sys_counts_def)
  have mem: "?t \<in> set ts" using run(3) by simp
  have pre: "registered ?t \<le> pf_wg p" "slots ?t \<le> pf_semaphore p" using inv(1,2) member_le_sum [OF mem] by simp_all
  note c = goroutine_step_counts [OF run(4) pre]
  have wg: "pf_wg p' = sum_list (map registered (ts[i := t'] @ new))"
    using c inv(1) by (intro sum_list_le_upd [OF run(3)]) simp
  have sem: "pf_semaphore p' = sum_list (map slots (ts[i := t'] @ new))"
    using c inv(2) by (intro sum_list_le_upd [OF run(3)]) simp
  have quiet: "registered ?t = 0" if "pf_wg p = 0" using pre(1) that by simp
  have still: "pf_wg p' = 0" if "pf_closed p" "pf_wg p = 0"
    using c quiet [OF that(2)] that by linarith
  have other: "close_ok p' u" if "u \<in> set ts" for u
  proof (rule close_ok_other)
    show "close_ok p u" using inv(5) that by blast
    show "pf_closed p \<longrightarrow> pf_closed p'" using c by blast
    show "pf_closed p \<and> pf_wg p = 0 \<longrightarrow> pf_wg p' = 0" using still by blast
    show "pf_closed p \<and> pf_wg p = 0 \<longrightarrow> pf_cache p' = pf_cache p \<or> pf_cache p' = cache_clear (pf_cache p)"
      using quiet unregistered_cache [OF run(4)] by blast
  qed
  have "close_ok p' t'"
  proof (cases "registered ?t = 1")
    case True
    from registered_next [OF run(4) True] show ?thesis by (rule close_ok_trivial)
  next
    case False
    with close_ok_step [OF run(4)] inv(5) mem show ?thesis by blast
  qed
  with other c have "\<forall>u \<in> set (ts[i := t'] @ new). close_ok p' u"
    using set_update_subset_insert [of ts i t'] by (auto intro: close_ok_trivial)
  with wg sem c inv(3,4) show ?thesis unfolding sys_counts_def run(1,2) by (simp add: limit_def)
qed (use assms(2) in \<open>auto simp: sys_counts_def\<close>)

context reader_at
begin

lemma sys_ok_step:
  assumes "sys_step rd s s'" "sys_ok content cs s"
  shows "sys_ok content cs s'"
  using assms(1)
proof cases
  case (run i ts p' t' new now p)
  have ok: "pf_ok content cs p" "\<forall>t \<in> set ts. goroutine_ok content cs p t" using assms(2) run(1) by (auto simp: sys_ok_def)
  from goroutine_step_inv [OF ok(1) _ run(4)] ok(2) run(3)
  have "pf_ok content cs p'" "extends p p'" "goroutine_ok content cs p' t'" "\<forall>u \<in> set new. goroutine_ok content cs p' u"
    by auto
  moreover have "\<forall>t \<in> set ts. goroutine_ok content cs p' t" using ok(2) goroutine_ok_extends [OF \<open>extends p p'\<close>] by blast
  ultimately show ?thesis unfolding run(2) sys_ok_def
    using set_update_subset_insert [of ts i t'] by auto
qed (use assms(2) in \<open>auto simp: sys_ok_def\<close>)

end

section \<open>Reachable states and concrete runs\<close>

inductive sys_reachable :: "reader \<Rightarrow> prefetcher \<Rightarrow> prefetcher \<times> goroutine list \<Rightarrow> bool" for rd p0 where
  init: "sys_reachable rd p0 (p0, [])"
| step: "sys_reachable rd p0 s \<Longrightarrow> sys_step rd s s' \<Longrightarrow> sys_reachable rd p0 s'"

inductive_cases sys_step_cases: "sys_step rd (p, ts) (p', ts')"

datatype schedule_item = Step nat nat | CallReadAt nat int | CallClose

text \<open>A run under a given schedule: which goroutine steps and which of its outcomes happens.\<close>

fun exec :: "reader \<Rightarrow> schedule_item list \<Rightarrow> prefetcher \<times> goroutine list \<Rightarrow> (prefetcher \<times> goroutine list) option" where
  "exec rd [] s = Some s"
| "exec rd (Step i k # xs) (p, ts) =
     (if i < length ts then
        let outs = goroutine_step rd 0 p (ts ! i)
        in if k < length outs then (case outs ! k of (p', t', new) \<Rightarrow> exec rd xs (p', ts[i := t'] @ new)) else None
      else None)"
| "exec rd (CallReadAt len off # xs) (p, ts) =
     (if off + int len < 2 ^ 63 then exec rd xs (p, ts @ [RdBegin len off]) else None)"
| "exec rd (CallClose # xs) (p, ts) = exec rd xs (p, ts @ [ClStart])"

lemma exec_reachable: "exec rd xs s = Some s' \<Longrightarrow> sys_reachable rd p0 s \<Longrightarrow> sys_reachable rd p0 s'"
proof (induction rd xs s rule: exec.induct)
  case (2 rd i k xs p ts)
  let ?outs = "goroutine_step rd 0 p (ts ! i)"
  from "2.prems"(1) have i: "i < length ts" and k: "k < length ?outs" by (auto simp: Let_def split: if_splits)
  obtain p' t' new where o: "?outs ! k = (p', t', new)" by (cases "?outs ! k") auto
  with k have "(p', t', new) \<in> set ?outs" by (metis nth_mem)
  with i have "sys_step rd (p, ts) (p', ts[i := t'] @ new)" by (rule sys_step.run)
  with "2.prems"(2) have "sys_reachable rd p0 (p', ts[i := t'] @ new)" by (rule sys_reachable.step)
  moreover have "exec rd xs (p', ts[i := t'] @ new) = Some s'" using "2.prems"(1) i k o by simp
  ultimately show ?case using "2.IH" [OF i refl k o [symmetric]] by simp
next
  case (3 rd len off xs p ts)
  then have "sys_step rd (p, ts) (p, ts @ [RdBegin len off])" by (intro sys_step.call_ReadAt) (simp split: if_splits)
  from 3 sys_reachable.step [OF "3.prems"(2) this] show ?case by (simp split: if_splits)
qed (auto intro: sys_reachable.step sys_step.call_Close)

section \<open>The initial state\<close>

lemma normalise_config_ok:
  fixes c :: config
  defines "n \<equiv> normalise_config c"
  shows "0 < cf_ChunkSize n" "cf_ChunkSize n \<le> cf_WindowSize n" "0 < cf_MaxParallelReads n"
    "0 < cf_ReadTimeout n" "0 < cf_RetryInterval n" "0 \<le> cf_MaxRetries n"
  by (auto simp: n_def normalise_config_def DefaultConfig_def Let_def)

lemma New_counts: "New False sz cfgs = Inr p0 \<Longrightarrow> sys_counts (p0, [])"
  by (auto simp: New_def sys_counts_def Let_def)

lemma New_ok:
  assumes "New False (int (length content)) cfgs = Inr p0" "length content < 2 ^ 63"
  shows "sys_ok content (nat (chunk_size p0)) (p0, [])" "sys_counts (p0, [])" "0 < chunk_size p0"
proof -
  obtain c where p0: "pf_config p0 = normalise_config c" "pf_cache p0 = newChunkCache (nat (chunk_size p0))"
    "pf_size p0 = int (length content)" "pf_flights p0 = []" "pf_group p0 = Map.empty" "pf_wg p0 = 0" "pf_semaphore p0 = 0"
    "pf_canceled p0 = pf_closed p0"
    using assms(1) by (auto simp: New_def Let_def)
  note n = normalise_config_ok [of c]
  show "0 < chunk_size p0" "sys_counts (p0, [])" using n p0 by (simp_all add: sys_counts_def)
  have "cc_heap (newChunkCache k) = []" for k by (simp add: newChunkCache_def)
  then show "sys_ok content (nat (chunk_size p0)) (p0, [])"
    unfolding sys_ok_def pf_ok_def using n p0 assms(2) cache_wf_new by simp
qed

lemma sys_reachable_counts:
  assumes "sys_reachable rd p0 s" "sys_counts (p0, [])"
  shows "sys_counts s \<and> pf_config (fst s) = pf_config p0"
  using assms by (induction rule: sys_reachable.induct) (auto dest: sys_counts_step)

context reader_at
begin

lemma sys_reachable_ok:
  assumes "sys_reachable rd p0 s" "sys_ok content cs (p0, [])"
  shows "sys_ok content cs s"
  using assms by (induction rule: sys_reachable.induct) (auto dest: sys_ok_step)

text \<open>What a finished read has returned.\<close>

lemma finished_read:
  assumes "length content < 2 ^ 63" and "New False (int (length content)) cfgs = Inr p0"
    and "sys_reachable rd p0 (p, ts)" and "RdDone len off acc err \<in> set ts"
    and "0 < len" "0 \<le> off" "off < int (length content)" "off + int len < 2 ^ 63"
  shows "acc = take (length acc) (drop (nat off) content)
    \<and> (err = None \<or> err = Some IoEOF \<longrightarrow>
         (if int (length content) < off + int len \<and> off div chunk_size p0 = (off + int len - 1) div chunk_size p0
          then acc = [] \<and> err = Some IoEOF
          else acc = take len (drop (nat off) content)
               \<and> (err = Some IoEOF \<longleftrightarrow> int (length content) \<le> off + int (length acc))))"
proof -
  let ?cs = "nat (chunk_size p0)"
  note new = New_ok [OF assms(2,1)]
  have "sys_ok content ?cs (p, ts)" by (rule sys_reachable_ok [OF assms(3) new(1)])
  with assms(4) have "done_ok content ?cs len off acc err" by (auto simp: sys_ok_def)
  moreover have "call_ok content ?cs len off" using assms(5-8) by (simp add: call_ok_def)
  ultimately show ?thesis using new(3) by (auto simp: done_ok_def past_end_in_chunk_def split: if_splits)
qed

end

section \<open>Properties\<close>

text \<open>
  C3: Whatever interleaving of reads, fetches, read-aheads, evictions, failures, time-outs and
  \<open>Close\<close> produced it, a call of \<open>ReadAt\<close> that returns without an error or with
  \<open>io.EOF\<close> has filled its buffer with exactly the bytes of the content from the offset on, and says
  \<open>io.EOF\<close> just when they reach the end. The one exception is a buffer that reaches past the end
  within a single chunk: there it returns no bytes at all. On any other error the bytes that it
  reports are still a prefix of the right ones.
\<close>

theorem prefetch_read_correct:
  assumes "reader_at content rd" and "length content < 2 ^ 63" and "New False (int (length content)) cfgs = Inr p0"
    and "sys_reachable rd p0 (p, ts)" and "RdDone len off acc err \<in> set ts"
    and "0 < len" "0 \<le> off" "off < int (length content)" "off + int len < 2 ^ 63"
  shows "acc = take (length acc) (drop (nat off) content)
    \<and> (err = None \<or> err = Some IoEOF \<longrightarrow>
         (if int (length content) < off + int len \<and> off div chunk_size p0 = (off + int len - 1) div chunk_size p0
          then acc = [] \<and> err = Some IoEOF
          else acc = take len (drop (nat off) content)
               \<and> (err = Some IoEOF \<longleftrightarrow> int (length content) \<le> off + int (length acc))))"
  using reader_at.finished_read [OF assms(1)] assms(2-) by blast

text \<open>
  C19: In every reachable state, the goroutines that hold the semaphore, and so wait for a read of
  the underlying reader, are at most \<open>MaxParallelReads\<close>, and a fetch is in at most its
  \<open>MaxRetries\<close>-th repetition.
\<close>

theorem prefetch_parallelism_bounded:
  assumes "reader_at content rd" and "length content < 2 ^ 63" and "New False (int (length content)) cfgs = Inr p0"
    and "sys_reachable rd p0 (p, ts)"
  shows "int (sum_list (map slots ts)) \<le> cf_MaxParallelReads (pf_config p0)
    \<and> (\<forall>i c k. RqFetch i (FReading c k) \<in> set ts \<longrightarrow> int k \<le> cf_MaxRetries (pf_config p0))
    \<and> (\<forall>len off s e i acc c k. RdFetch len off s e i acc (FReading c k) \<in> set ts \<longrightarrow> int k \<le> cf_MaxRetries (pf_config p0))"
proof -
  note new = New_ok [OF assms(3,2)]
  have c: "sys_counts (p, ts)" "pf_config p = pf_config p0" using sys_reachable_counts [OF assms(4) new(2)] by simp_all
  have "\<forall>t \<in> set ts. goroutine_ok content (nat (chunk_size p0)) p t"
    using reader_at.sys_reachable_ok [OF assms(1,4) new(1)] by (simp add: sys_ok_def)
  then have "int k \<le> cf_MaxRetries (pf_config p0)"
    if "RqFetch i (FReading c k) \<in> set ts \<or> RdFetch len off s e i acc (FReading c k) \<in> set ts" for i c k len off s e acc
    using that c(2) by fastforce
  moreover have "0 \<le> cf_MaxParallelReads (pf_config p0)"
    using assms(3) normalise_config_ok(3) by (fastforce simp: New_def Let_def intro: less_imp_le)
  then have "int (sum_list (map slots ts)) \<le> cf_MaxParallelReads (pf_config p0)"
    using c le_nat_iff [of "cf_MaxParallelReads (pf_config p0)" "sum_list (map slots ts)"]
    by (simp add: sys_counts_def limit_def)
  ultimately show ?thesis by blast
qed


text \<open>A fetch goes forward: a bound on the steps it has left.\<close>

fun fetch_measure :: "prefetcher \<Rightarrow> fetch_pc \<Rightarrow> nat" where
  "fetch_measure p FEnter = 2 * nat (cf_MaxRetries (pf_config p)) + 7"
| "fetch_measure p (FWait c) = 1"
| "fetch_measure p (FLead c) = 2 * nat (cf_MaxRetries (pf_config p)) + 6"
| "fetch_measure p (FAcquire c) = 2 * nat (cf_MaxRetries (pf_config p)) + 5"
| "fetch_measure p (FReading c k) = 2 * (nat (cf_MaxRetries (pf_config p)) - k) + 3"
| "fetch_measure p (FBackoff c k) = 2 * (nat (cf_MaxRetries (pf_config p)) - k) + 4"
| "fetch_measure p (FFinish c r) = 2"
| "fetch_measure p (FReturn r) = 0"

lemma retry_or_fail_measure:
  "retry_or_fail c k p = (p', pc') \<Longrightarrow> fetch_measure p' pc' < fetch_measure p (FReading c k)"
  by (auto simp: retry_or_fail_def release_def split: if_splits)

lemma fetch_step_measure:
  assumes "(p', pc') \<in> set (fetch_step rd now i p pc)"
  shows "fetch_measure p' pc' < fetch_measure p pc"
proof (cases pc)
  case (FReading c k)
  with assms consider "retry_or_fail c k p = (p', pc')" | a where "pc' = FFinish c (Inr a)"
    by (auto split: if_splits prod.splits)
  then show ?thesis by cases (use FReading retry_or_fail_measure in auto)
qed (use assms in \<open>auto simp: Let_def release_def split: option.splits prod.splits if_splits\<close>)


text \<open>
  C11: \<open>New\<close> makes any configuration usable: chunk size, parallelism, time-out and retry interval
  are positive, the number of retries is not negative, and the window holds at least one chunk. Only a
  nil reader is refused.
\<close>

theorem New_normalises:
  "case New reader_nil sz cfgs of
     Inl e \<Rightarrow> reader_nil
   | Inr p \<Rightarrow> \<not> reader_nil \<and> 0 < chunk_size p \<and> chunk_size p \<le> cf_WindowSize (pf_config p) \<and> 0 < cf_MaxParallelReads (pf_config p)
       \<and> 0 < cf_ReadTimeout (pf_config p) \<and> 0 < cf_RetryInterval (pf_config p) \<and> 0 \<le> cf_MaxRetries (pf_config p)
       \<and> pf_size p = sz"
  by (auto simp: New_def Let_def normalise_config_ok)

section \<open>Concrete runs\<close>

text \<open>A reader over a byte string, in the manner of \<open>bytes.Reader.ReadAt\<close>.\<close>

definition slice_ReadAt :: "bytes \<Rightarrow> reader" where
  "slice_ReadAt content off len =
     (let d = take len (drop (nat off) content)
      in [(d @ replicate (len - length d) (CHR 0x00), length d, if length d < len then Some IoEOF else None)])"

lemma slice_reader_at: "reader_at content (slice_ReadAt content)"
  by unfold_locales (auto simp: slice_ReadAt_def Let_def split: if_splits)

definition demo_config :: config where
  "demo_config = \<lparr>cf_WindowSize = 4, cf_ChunkSize = 2, cf_MaxParallelReads = 1, cf_ReadTimeout = 1,
     cf_RetryInterval = 1, cf_MaxRetries = 0\<rparr>"

definition demo_prefetcher :: prefetcher where
  "demo_prefetcher = projr (New False 5 [demo_config])"

text \<open>A read of three bytes at offset one: one chunk comes from a fetch ahead of the copy, one from the copy's own fetch.\<close>

definition demo_fetching :: "schedule_item list" where
  "demo_fetching = [CallReadAt 3 1, Step 0 0, Step 0 0, Step 0 0, Step 0 0, Step 0 0, Step 0 0,
     Step 1 0, Step 1 0, Step 1 0, Step 1 0]"

definition demo_schedule :: "schedule_item list" where
  "demo_schedule = demo_fetching @ [Step 1 1, Step 1 0, Step 1 0,
     Step 0 0, Step 0 0, Step 0 0, Step 0 0, Step 0 0, Step 0 1, Step 0 0, Step 0 0, Step 0 0,
     CallClose, Step 3 0, Step 2 0, Step 3 0, Step 3 0]"

lemma demo_New: "New False 5 [demo_config] = Inr demo_prefetcher"
  by (simp add: demo_prefetcher_def New_def Let_def)

lemma demo_chunk_size: "chunk_size demo_prefetcher = 2" "cf_MaxParallelReads (pf_config demo_prefetcher) = 1"
    "cf_MaxRetries (pf_config demo_prefetcher) = 0"
  by (simp_all add: demo_prefetcher_def New_def normalise_config_def demo_config_def Let_def)

definition demo_run :: "schedule_item list \<Rightarrow> (prefetcher \<times> goroutine list) option" where
  "demo_run xs = exec (slice_ReadAt ''abcde'') xs (demo_prefetcher, [])"

lemma demo_run_threads:
  "map_option snd (demo_run demo_schedule) = Some [RdDone 3 1 ''bcd'' None, Exited, Exited, ClDone True]"
  by code_simp

lemma demo_run_fetching:
  "map_option (\<lambda>(p, ts). (ts ! 1, length ts)) (demo_run demo_fetching) = Some (RqFetch 0 (FReading 0 0), 3)"
  by code_simp

lemma demo_run_reachable:
  assumes "demo_run xs = Some s"
  shows "sys_reachable (slice_ReadAt ''abcde'') demo_prefetcher s"
  using exec_reachable [OF assms [unfolded demo_run_def] sys_reachable.init] .

theorem prefetch_read_witness:
  "\<exists>p ts. sys_reachable (slice_ReadAt ''abcde'') demo_prefetcher (p, ts) \<and> RdDone 3 1 ''bcd'' None \<in> set ts
     \<and> ''bcd'' = take 3 (drop 1 ''abcde'')"
proof -
  obtain p where r: "demo_run demo_schedule = Some (p, [RdDone 3 1 ''bcd'' None, Exited, Exited, ClDone True])"
    using demo_run_threads by (cases "demo_run demo_schedule") auto
  note reach = demo_run_reachable [OF r]
  have n: "New False (int (length ''abcde'')) [demo_config] = Inr demo_prefetcher" using demo_New by simp
  have "''bcd'' = take 3 (drop (nat 1) ''abcde'')"
    using prefetch_read_correct [OF slice_reader_at _ n reach, of 3 1 "''bcd''" None] by (simp add: demo_chunk_size)
  then show ?thesis by (intro exI conjI) (rule reach, simp_all)
qed

theorem prefetch_parallelism_witness:
  "\<exists>p ts. sys_reachable (slice_ReadAt ''abcde'') demo_prefetcher (p, ts) \<and> RqFetch 0 (FReading 0 0) \<in> set ts
     \<and> int (sum_list (map slots ts)) \<le> 1"
proof -
  obtain p ts where r: "demo_run demo_fetching = Some (p, ts)" "ts ! 1 = RqFetch 0 (FReading 0 0)" "length ts = 3"
    using demo_run_fetching by (cases "demo_run demo_fetching") auto
  have n: "New False (int (length ''abcde'')) [demo_config] = Inr demo_prefetcher" using demo_New by simp
  from prefetch_parallelism_bounded [OF slice_reader_at _ n demo_run_reachable [OF r(1)]]
  have "int (sum_list (map slots ts)) \<le> 1" by (simp add: demo_chunk_size)
  with demo_run_reachable [OF r(1)] r(2,3) show ?thesis by (metis nth_mem one_less_numeral_iff semiring_norm(77))
qed



end
