(* ===== verification/Content_Store.thy ===== *)
theory Content_Store
  imports Prefetcher_System Stream_Filter Go_Encoding
begin

text \<open>
  The content store that BuildKit reads through the shim (\<open>pkg/content\<close>): requests to the host over
  the stream, the decoding of content information, the reader of a blob with its position, and the
  walk over all contents.

  \<open>rt\<close> is the round trip of \<open>BaseStage.Request\<close>: the packet sent for an id and the packet or the
  error that comes back. The fresh identifiers of \<open>uuid.NewString()\<close> are arguments, and so are
  the formatting and parsing of RFC 3339 times.
\<close>

section \<open>Requests\<close>

definition ContentStoreProxy_Filter :: "client_stream \<Rightarrow> goerr option" where
  "ContentStoreProxy_Filter c =
     (case GetImageTransfer c of
        Some it \<Rightarrow> if go_get (it_metadata it) ''stage'' = ''content-store'' then None else Some (StreamError ErrIgnorePacket)
      | None \<Rightarrow> Some (StreamError ErrIgnorePacket))"

definition content_request :: "round_trip \<Rightarrow> string \<Rightarrow> image_transfer \<Rightarrow> goerr + image_transfer" where
  "content_request rt uuid packet =
     (let packet = (if it_id packet = [] then packet\<lparr>it_id := uuid\<rparr> else packet)
      in res_bind (rt \<lparr>ss_build_id = uuid, ss_packet = SImageTransfer packet\<rparr>) (\<lambda>resp.
           case GetImageTransfer resp of
             None \<Rightarrow> Inl (Errorf ''content store response missing image transfer'')
           | Some it \<Rightarrow> Inr it))"

definition response_error :: "image_transfer \<Rightarrow> goerr + image_transfer" where
  \<comment> \<open>the check of \<open>resp.Metadata["error"]\<close> that follows every request\<close>
  "response_error resp =
     (case map_of (it_metadata resp) ''error'' of Some err \<Rightarrow> Inl (Errorf err) | None \<Rightarrow> Inr resp)"

abbreviation content_metadata :: "string \<Rightarrow> smap" where
  "content_metadata method \<equiv>
     [(''os'', ''linux''), (''stage'', ''content-store''), (''method'', ''/containerd.services.content.v1.Content/'' @ method)]"

definition unsupportedContentIngestion :: "string \<Rightarrow> goerr" where
  "unsupportedContentIngestion method = ErrNotImplemented method"

section \<open>Content information\<close>

record content_info =
  ci_Digest :: string
  ci_Size :: int
  ci_CreatedAt :: int
  ci_UpdatedAt :: int
  ci_Labels :: smap

type_synonym time_parser = "string \<Rightarrow> goerr + int"

definition content_TransformSize :: "smap \<Rightarrow> goerr + int" where
  "content_TransformSize md = ParseInt (go_get md ''size'') 64"

definition TransformCreatedTimestamp :: "time_parser \<Rightarrow> int \<Rightarrow> smap \<Rightarrow> goerr + int" where
  "TransformCreatedTimestamp time_Parse zero md =
     (let createdAt = go_get md ''created_at'' in if createdAt = [] then Inr zero else time_Parse createdAt)"

definition TransformUpdatedTimestamp :: "time_parser \<Rightarrow> int \<Rightarrow> smap \<Rightarrow> goerr + int" where
  "TransformUpdatedTimestamp time_Parse zero md =
     (let updatedAt = go_get md ''updated_at'' in if updatedAt = [] then Inr zero else time_Parse updatedAt)"

definition labelPrefix :: string where "labelPrefix = ''__label:''"

fun TransformLabels :: "smap \<Rightarrow> smap" where
  "TransformLabels [] = []"
| "TransformLabels ((k, v) # md) =
     (if HasPrefix k labelPrefix then (TrimPrefix k labelPrefix, v) # TransformLabels md else TransformLabels md)"

definition TransformIntoContentInfo :: "time_parser \<Rightarrow> int \<Rightarrow> image_transfer \<Rightarrow> goerr + content_info" where
  "TransformIntoContentInfo time_Parse zero it =
     res_bind (content_TransformSize (it_metadata it)) (\<lambda>sz.
     res_bind (TransformCreatedTimestamp time_Parse zero (it_metadata it)) (\<lambda>createdAt.
     res_bind (TransformUpdatedTimestamp time_Parse zero (it_metadata it)) (\<lambda>updatedAt.
       Inr \<lparr>ci_Digest = it_tag it, ci_Size = sz, ci_CreatedAt = createdAt, ci_UpdatedAt = updatedAt,
            ci_Labels = TransformLabels (it_metadata it)\<rparr>)))"

definition TransformFromContentInfo :: "(int \<Rightarrow> string) \<Rightarrow> content_info \<Rightarrow> image_transfer" where
  "TransformFromContentInfo time_Format info =
     empty_image_transfer\<lparr>it_tag := ci_Digest info,
       it_metadata := go_put_all (map (\<lambda>(k, v). (labelPrefix @ k, v)) (ci_Labels info))
         [(''os'', ''linux''), (''size'', FormatInt (ci_Size info)), (''created_at'', time_Format (ci_CreatedAt info)),
          (''updated_at'', time_Format (ci_UpdatedAt info))]\<rparr>"

section \<open>The operations of the store\<close>

definition content_Info :: "round_trip \<Rightarrow> time_parser \<Rightarrow> int \<Rightarrow> string \<Rightarrow> string \<Rightarrow> goerr + content_info" where
  "content_Info rt time_Parse zero uuid dgst =
     res_bind (content_request rt uuid
       (empty_image_transfer\<lparr>it_tag := dgst, it_direction := OUTOF, it_metadata := content_metadata ''Info''\<rparr>)) (\<lambda>resp.
     res_bind (response_error resp) (TransformIntoContentInfo time_Parse zero))"

definition content_Delete :: "round_trip \<Rightarrow> string \<Rightarrow> string \<Rightarrow> goerr + unit" where
  "content_Delete rt uuid dgst =
     res_bind (content_request rt uuid
       (empty_image_transfer\<lparr>it_tag := dgst, it_metadata := content_metadata ''Delete''\<rparr>)) (\<lambda>resp.
     res_bind (response_error resp) (\<lambda>_. Inr ()))"

definition content_Update ::
    "round_trip \<Rightarrow> time_parser \<Rightarrow> (int \<Rightarrow> string) \<Rightarrow> int \<Rightarrow> string \<Rightarrow> content_info \<Rightarrow> string list \<Rightarrow> goerr + content_info" where
  "content_Update rt time_Parse time_Format zero uuid info fieldpaths =
     (let packet = TransformFromContentInfo time_Format info;
          packet = packet\<lparr>it_metadata := go_put_all
            (content_metadata ''Update'' @ [(''fieldpaths'', Join fieldpaths '','')]) (it_metadata packet)\<rparr>
      in res_bind (content_request rt uuid packet) (\<lambda>resp.
         res_bind (response_error resp) (TransformIntoContentInfo time_Parse zero)))"

text \<open>The ingestion operations are refused.\<close>

definition content_Writer :: "goerr + unit" where "content_Writer = Inl (unsupportedContentIngestion ''Writer'')"
definition content_Status :: "string \<Rightarrow> goerr + unit" where "content_Status ref = Inl (unsupportedContentIngestion ''Status'')"
definition content_ListStatuses :: "string list \<Rightarrow> goerr + unit" where
  "content_ListStatuses filters = Inl (unsupportedContentIngestion ''ListStatuses'')"
definition content_Abort :: "string \<Rightarrow> goerr + unit" where "content_Abort ref = Inl (unsupportedContentIngestion ''Abort'')"

section \<open>The reader of a blob\<close>

text \<open>A descriptor of the image specification has the fields of the API's descriptor.\<close>

record readerAt =
  ra_id :: string
  ra_descriptor :: descriptor
  ra_index :: int
  ra_size :: int
  ra_canceled :: bool

definition packetReaderAt :: "readerAt \<Rightarrow> int \<Rightarrow> int \<Rightarrow> image_transfer" where
  "packetReaderAt r off len =
     empty_image_transfer\<lparr>it_id := ra_id r, it_direction := OUTOF,
       it_metadata := content_metadata ''ReaderAt'' @ [(''offset'', FormatInt off), (''length'', FormatInt len)],
       it_descriptor := Some (ra_descriptor r)\<rparr>"

definition readerAt_init :: "round_trip \<Rightarrow> string \<Rightarrow> readerAt \<Rightarrow> goerr + readerAt" where
  "readerAt_init rt uuid r =
     res_bind (content_request rt uuid (packetReaderAt r 0 0)) (\<lambda>resp.
     res_bind (response_error resp) (\<lambda>resp.
     res_bind (ParseInt (go_get (it_metadata resp) ''size'') 64) (\<lambda>sz. Inr (r\<lparr>ra_size := sz\<rparr>))))"

definition readerAt_ReadAt :: "round_trip \<Rightarrow> string \<Rightarrow> readerAt \<Rightarrow> bytes \<Rightarrow> int \<Rightarrow> bytes \<times> nat \<times> goerr option" where
  \<comment> \<open>the buffer after the call, the count and the error\<close>
  "readerAt_ReadAt rt uuid r p off =
     (case res_bind (content_request rt uuid (packetReaderAt r off (int (length p)))) response_error of
        Inl err \<Rightarrow> (p, 0, Some err)
      | Inr resp \<Rightarrow>
          (let ln = min (length p) (length (it_data resp)); p' = take ln (it_data resp) @ drop ln p
           in if ln = 0 then (p', 0, Some IoEOF) else (p', ln, None)))"

definition readerAt_Close :: "readerAt \<Rightarrow> readerAt" where
  "readerAt_Close r = r\<lparr>ra_canceled := True\<rparr>"

definition readerAt_Read :: "round_trip \<Rightarrow> string \<Rightarrow> readerAt \<Rightarrow> bytes \<Rightarrow> (bytes \<times> nat \<times> goerr option) \<times> readerAt" where
  "readerAt_Read rt uuid r p =
     (case readerAt_ReadAt rt uuid r p (ra_index r) of
        (p', n, Some err) \<Rightarrow> (if err \<noteq> IoEOF then ((p', n, Some err), r) else ((p', 0, Some IoEOF), r))
      | (p', n, None) \<Rightarrow> ((p', n, None), r\<lparr>ra_index := i64 (ra_index r + int n)\<rparr>))"

datatype whence = SeekStart | SeekCurrent | SeekEnd | WhenceOther int

definition seek_target :: "int \<Rightarrow> int \<Rightarrow> int \<Rightarrow> whence \<Rightarrow> goerr + int" where
  "seek_target index sz offset w =
     (case w of
        SeekStart \<Rightarrow> Inr offset
      | SeekCurrent \<Rightarrow> Inr (i64 (index + offset))
      | SeekEnd \<Rightarrow> Inr (i64 (sz + offset))
      | WhenceOther _ \<Rightarrow> Inl (Errorf ''invalid whence''))"

definition readerAt_Seek :: "readerAt \<Rightarrow> int \<Rightarrow> whence \<Rightarrow> (goerr + int) \<times> readerAt" where
  "readerAt_Seek r offset w =
     (case seek_target (ra_index r) (ra_size r) offset w of
        Inl e \<Rightarrow> (Inl e, r)
      | Inr newPos \<Rightarrow>
          if newPos < 0 then (Inl (Errorf ''negative seek offset''), r)
          else if newPos > ra_size r then (Inl (Errorf ''seek beyond end of file''), r)
          else (Inr newPos, r\<lparr>ra_index := newPos\<rparr>))"

definition reader_config :: config where
  "reader_config = \<lparr>cf_WindowSize = 8 * 2 ^ 20, cf_ChunkSize = 2 ^ 20, cf_MaxParallelReads = 4,
     cf_ReadTimeout = 30000000000, cf_RetryInterval = 0, cf_MaxRetries = 0\<rparr>"

definition content_ReaderAt :: "round_trip \<Rightarrow> string \<Rightarrow> string \<Rightarrow> descriptor \<Rightarrow> goerr + (readerAt \<times> prefetcher)" where
  "content_ReaderAt rt readerId uuid desc =
     res_bind (readerAt_init rt uuid
        \<lparr>ra_id = readerId, ra_descriptor = desc, ra_index = 0, ra_size = 0, ra_canceled = False\<rparr>) (\<lambda>ra.
     res_bind (New False (ra_size ra) [reader_config]) (\<lambda>p. Inr (ra, p)))"

text \<open>The reader as the prefetcher calls it, on a fresh buffer.\<close>

definition content_reader :: "round_trip \<Rightarrow> string list \<Rightarrow> readerAt \<Rightarrow> reader" where
  "content_reader rt uuids r off len = map (\<lambda>uuid. readerAt_ReadAt rt uuid r (replicate len (CHR 0x00)) off) uuids"

section \<open>Content information survives the wire\<close>

lemma TransformLabels_append: "TransformLabels (xs @ ys) = TransformLabels xs @ TransformLabels ys"
  by (induction xs rule: TransformLabels.induct) auto

lemma TransformLabels_prefixed: "TransformLabels (map (\<lambda>(k, v). (labelPrefix @ k, v)) ls) = ls"
  by (induction ls) auto

lemma go_put_all_fresh:
  "distinct (map fst ys) \<Longrightarrow> set (map fst ys) \<inter> set (map fst xs) = {} \<Longrightarrow> go_put_all ys xs = xs @ ys"
proof (induction ys arbitrary: xs)
  case (Cons y ys)
  obtain k v where y: "y = (k, v)" by fastforce
  with Cons.prems have "AList.update k v xs = xs @ [(k, v)]" by (induction xs) auto
  with Cons.IH [of "xs @ [y]"] Cons.prems y show ?case by auto
qed simp

lemma label_keys_fresh:
  assumes "distinct (map fst ls)" "\<forall>k \<in> set (map fst base). \<not> HasPrefix k labelPrefix"
  shows "go_put_all (map (\<lambda>(k, v). (labelPrefix @ k, v)) ls) base = base @ map (\<lambda>(k, v). (labelPrefix @ k, v)) ls"
proof (rule go_put_all_fresh)
  have "map fst (map (\<lambda>(k, v). (labelPrefix @ k, v)) ls) = map (\<lambda>k. labelPrefix @ k) (map fst ls)" by auto
  moreover have "inj_on (\<lambda>k. labelPrefix @ k) A" for A by (auto simp: inj_on_def)
  ultimately show "distinct (map fst (map (\<lambda>(k, v). (labelPrefix @ k, v)) ls))"
    using assms(1) by (simp only: distinct_map)
  show "set (map fst (map (\<lambda>(k, v). (labelPrefix @ k, v)) ls)) \<inter> set (map fst base) = {}"
    using assms(2) by (force simp: HasPrefix_iff)
qed

section \<open>A host that answers completely\<close>

text \<open>
  What the reader relies on: an answer without an error carries as many of the requested bytes as
  the content has there. The answer may be an error at any time.
\<close>

locale content_host =
  fixes content :: bytes and rt :: round_trip and r :: readerAt
  assumes answer_complete: "0 \<le> off \<Longrightarrow> content_request rt uuid (packetReaderAt r off (int len)) = Inr it \<Longrightarrow>
      response_error it = Inr it \<Longrightarrow> it_data it = take len (drop (nat off) content)"
    and no_eof: "rt ss \<noteq> Inl IoEOF"

lemma response_error_Inr: "response_error it = Inr it' \<longleftrightarrow> it' = it \<and> map_of (it_metadata it) ''error'' = None"
  by (auto simp: response_error_def split: option.split)

context content_host
begin

lemma ReadAt_outcome:
  assumes "0 \<le> off" "readerAt_ReadAt rt uuid r p off = (p', n, err)" "err = None \<or> err = Some IoEOF"
  shows "n = min (length p) (length content - nat off) \<and> p' = take n (drop (nat off) content) @ drop n p"
proof (cases "res_bind (content_request rt uuid (packetReaderAt r off (int (length p)))) response_error")
  case (Inl e)
  then have "e \<noteq> IoEOF"
    using no_eof by (auto simp: result_simps response_error_def content_request_def Let_def split: option.splits)
  with Inl assms(2,3) show ?thesis by (auto simp: readerAt_ReadAt_def)
next
  case (Inr it)
  then obtain it0 where it: "content_request rt uuid (packetReaderAt r off (int (length p))) = Inr it0" "response_error it0 = Inr it"
    by (auto simp: result_simps)
  then have "it0 = it" by (simp add: response_error_Inr)
  with it answer_complete [OF assms(1)] have d: "it_data it = take (length p) (drop (nat off) content)" by blast
  let ?n = "min (length p) (length content - nat off)"
  have len: "min (length p) (length (it_data it)) = ?n" by (simp add: d)
  have "take ?n (it_data it) = take ?n (drop (nat off) content)" unfolding d take_take by (simp add: min.left_commute)
  moreover have "(p', n, err) = (if ?n = 0 then (take ?n (it_data it) @ drop ?n p, 0, Some IoEOF)
      else (take ?n (it_data it) @ drop ?n p, ?n, None))"
    unfolding assms(2) [symmetric] readerAt_ReadAt_def Inr sum.case Let_def len ..
  ultimately have "(p', n, err) = (if ?n = 0 then (take ?n (drop (nat off) content) @ drop ?n p, 0, Some IoEOF)
      else (take ?n (drop (nat off) content) @ drop ?n p, ?n, None))" by metis
  then show ?thesis by (auto split: if_splits)
qed

end

sublocale content_host < blob: reader_at content "content_reader rt uuids r" for uuids
proof
  fix off buf n err len
  assume off: "0 \<le> off" and run: "(buf, n, err) \<in> set (content_reader rt uuids r off len)" and ok: "read_ok err"
  from run obtain uuid where "readerAt_ReadAt rt uuid r (replicate len (CHR 0x00)) off = (buf, n, err)"
    by (auto simp: content_reader_def)
  from ReadAt_outcome [OF off this] ok
  have n: "n = min len (length content - nat off)" "buf = take n (drop (nat off) content) @ drop n (replicate len (CHR 0x00))"
    by auto
  then show "n \<le> len \<and> length buf = len \<and> take n buf = take n (drop (nat off) content)" by auto
  assume "n < len"
  with n(1) show "length content \<le> nat off + n" by linarith
qed

text \<open>A host that holds one content and serves it.\<close>

definition serve :: "bytes \<Rightarrow> round_trip" where
  "serve content ss =
     (case ss_packet ss of
        SImageTransfer it \<Rightarrow>
          (case (ParseInt (go_get (it_metadata it) ''offset'') 64, ParseInt (go_get (it_metadata it) ''length'') 64) of
             (Inr off, Inr len) \<Rightarrow>
               Inr \<lparr>cs_build_id = ss_build_id ss, cs_packet = CImageTransfer
                 (it\<lparr>it_direction := INTO, it_data := take (nat len) (drop (nat off) content),
                    it_metadata := [(''size'', FormatInt (int (length content)))]\<rparr>)\<rparr>
           | _ \<Rightarrow> Inl (Errorf ''bad request''))
      | _ \<Rightarrow> Inl (Errorf ''bad request''))"

interpretation served: content_host content "serve content" r for content r
proof
  fix off uuid len it ss
  assume off: "(0::int) \<le> off" and req: "content_request (serve content) uuid (packetReaderAt r off (int len)) = Inr it"
  then obtain off' len' where "ParseInt (FormatInt off) 64 = Inr off'" "ParseInt (FormatInt (int len)) 64 = Inr len'"
      "it_data it = take (nat len') (drop (nat off') content)"
    by (auto simp: content_request_def serve_def packetReaderAt_def go_get_def Let_def GetImageTransfer_def empty_image_transfer_def
        split: sum.splits if_splits)
  with ParseInt_FormatInt_eq [OF off] ParseInt_FormatInt_eq [of "int len"]
  show "it_data it = take len (drop (nat off) content)" by fastforce
next
  show "serve content ss \<noteq> Inl IoEOF" for ss
    by (auto simp: serve_def split: server_packet.split sum.split prod.split)
qed

section \<open>The walk over all contents\<close>

text \<open>
  The goroutine of \<open>Walk\<close> decodes the packets of its demultiplexer into \<open>infoCh\<close>, a buffer of 32,
  and then sends its result on the unbuffered \<open>errCh\<close>; the caller takes from either. A packet
  without an image transfer is a nil pointer that the goroutine dereferences.
\<close>

datatype walk_pc =
    WRecv
  | WSendInfo content_info bool
  | WSendErr "goerr option"
  | WExited
  | WPanic

record walk_sys =
  wk_in :: "(goerr + client_stream) list"
  wk_pc :: walk_pc
  wk_infoCh :: "content_info list"
  wk_seen :: "content_info list"
  wk_result :: "goerr option option"

definition walk_init :: "(goerr + client_stream) list \<Rightarrow> walk_sys" where
  "walk_init script = \<lparr>wk_in = script, wk_pc = WRecv, wk_infoCh = [], wk_seen = [], wk_result = None\<rparr>"

definition walk_turn :: "time_parser \<Rightarrow> int \<Rightarrow> goerr + client_stream \<Rightarrow> walk_pc" where
  "walk_turn time_Parse zero resp =
     (case resp of
        Inl err \<Rightarrow> WSendErr (Some err)
      | Inr respStream \<Rightarrow>
          (case GetImageTransfer respStream of
             None \<Rightarrow> WPanic
           | Some imageTransfer \<Rightarrow>
               (case res_bind (response_error imageTransfer) (TransformIntoContentInfo time_Parse zero) of
                  Inl err \<Rightarrow> WSendErr (Some err)
                | Inr info \<Rightarrow> WSendInfo info (it_complete imageTransfer))))"

definition walk_goroutine :: "time_parser \<Rightarrow> int \<Rightarrow> walk_sys \<Rightarrow> walk_sys outcomes" where
  "walk_goroutine time_Parse zero s =
     (case wk_pc s of
        WRecv \<Rightarrow>
          (case wk_in s of
             [] \<Rightarrow> []
           | r # rs \<Rightarrow> [s\<lparr>wk_in := rs, wk_pc := walk_turn time_Parse zero r\<rparr>])
      | WSendInfo info complete \<Rightarrow>
          alt_if (length (wk_infoCh s) < 32)
            [s\<lparr>wk_infoCh := wk_infoCh s @ [info], wk_pc := if complete then WSendErr None else WRecv\<rparr>]
      | _ \<Rightarrow> [])"

definition walk_caller :: "(content_info \<Rightarrow> goerr option) \<Rightarrow> walk_sys \<Rightarrow> walk_sys outcomes" where
  "walk_caller fn s =
     (if wk_result s \<noteq> None then []
      else
        (case wk_infoCh s of
           [] \<Rightarrow> []
         | info # q \<Rightarrow>
             (let s' = s\<lparr>wk_infoCh := q, wk_seen := wk_seen s @ [info]\<rparr>
              in [case fn info of Some err \<Rightarrow> s'\<lparr>wk_result := Some (Some err)\<rparr> | None \<Rightarrow> s']))
        @ (case wk_pc s of WSendErr e \<Rightarrow> [s\<lparr>wk_pc := WExited, wk_result := Some e\<rparr>] | _ \<Rightarrow> []))"

inductive walk_reachable ::
    "time_parser \<Rightarrow> int \<Rightarrow> (content_info \<Rightarrow> goerr option) \<Rightarrow> (goerr + client_stream) list \<Rightarrow> walk_sys \<Rightarrow> bool"
  for time_Parse zero fn script where
  start: "walk_reachable time_Parse zero fn script (walk_init script)"
| goroutine: "walk_reachable time_Parse zero fn script s \<Longrightarrow> s' \<in> set (walk_goroutine time_Parse zero s) \<Longrightarrow>
    walk_reachable time_Parse zero fn script s'"
| caller: "walk_reachable time_Parse zero fn script s \<Longrightarrow> s' \<in> set (walk_caller fn s) \<Longrightarrow>
    walk_reachable time_Parse zero fn script s'"

text \<open>The contents that a stream of packets lists, up to the packet that ends it.\<close>

fun listed :: "time_parser \<Rightarrow> int \<Rightarrow> (goerr + client_stream) list \<Rightarrow> content_info list" where
  "listed time_Parse zero [] = []"
| "listed time_Parse zero (r # rs) =
     (case walk_turn time_Parse zero r of
        WSendInfo info complete \<Rightarrow> info # (if complete then [] else listed time_Parse zero rs)
      | _ \<Rightarrow> [])"

fun unsent :: "time_parser \<Rightarrow> int \<Rightarrow> walk_sys \<Rightarrow> content_info list" where
  "unsent time_Parse zero s =
     (case wk_pc s of
        WRecv \<Rightarrow> listed time_Parse zero (wk_in s)
      | WSendInfo info complete \<Rightarrow> info # (if complete then [] else listed time_Parse zero (wk_in s))
      | _ \<Rightarrow> [])"

definition walk_inv :: "time_parser \<Rightarrow> int \<Rightarrow> (content_info \<Rightarrow> goerr option) \<Rightarrow> (goerr + client_stream) list \<Rightarrow> walk_sys \<Rightarrow> bool" where
  "walk_inv time_Parse zero fn script s \<longleftrightarrow>
     listed time_Parse zero script = wk_seen s @ wk_infoCh s @ unsent time_Parse zero s \<and>
     length (wk_infoCh s) \<le> 32 \<and>
     (wk_result s = None \<longrightarrow> list_all (\<lambda>i. fn i = None) (wk_seen s))"

lemma walk_turn_leaves_recv [simp]: "walk_turn tp z r \<noteq> WRecv"
  by (auto simp: walk_turn_def split: sum.split option.split)

lemma walk_inv_goroutine:
  assumes "walk_inv tp z fn script s" "s' \<in> set (walk_goroutine tp z s)"
  shows "walk_inv tp z fn script s'"
proof (cases "wk_pc s")
  case WRecv
  with assms(2) obtain r rs where r: "wk_in s = r # rs" "s' = s\<lparr>wk_in := rs, wk_pc := walk_turn tp z r\<rparr>"
    by (cases "wk_in s") (auto simp: walk_goroutine_def)
  then show ?thesis using assms(1) WRecv by (cases "walk_turn tp z r") (auto simp: walk_inv_def)
next
  case (WSendInfo info c)
  with assms show ?thesis by (auto simp: walk_goroutine_def walk_inv_def)
qed (use assms in \<open>simp_all add: walk_goroutine_def\<close>)

lemma walk_inv_caller:
  assumes "walk_inv tp z fn script s" "s' \<in> set (walk_caller fn s)"
  shows "walk_inv tp z fn script s'"
proof -
  from assms(2) have none: "wk_result s = None" by (auto simp: walk_caller_def split: if_splits)
  from assms(2) consider info q where "wk_infoCh s = info # q"
      "s' = (let s' = s\<lparr>wk_infoCh := q, wk_seen := wk_seen s @ [info]\<rparr>
              in case fn info of Some err \<Rightarrow> s'\<lparr>wk_result := Some (Some err)\<rparr> | None \<Rightarrow> s')"
    | e where "wk_pc s = WSendErr e" "s' = s\<lparr>wk_pc := WExited, wk_result := Some e\<rparr>"
    by (cases "wk_infoCh s"; cases "wk_pc s") (auto simp: walk_caller_def Let_def split: if_splits)
  then show ?thesis
  proof cases
    case (1 info q)
    then show ?thesis using assms(1) none by (cases "wk_pc s"; cases "fn info") (auto simp: walk_inv_def Let_def)
  next
    case (2 e)
    then show ?thesis using assms(1) by (simp add: walk_inv_def)
  qed
qed

lemma walk_reachable_inv: "walk_reachable tp z fn script s \<Longrightarrow> walk_inv tp z fn script s"
proof (induction rule: walk_reachable.induct)
  case start
  show ?case by (simp add: walk_inv_def walk_init_def)
qed (auto intro: walk_inv_goroutine walk_inv_caller)

section \<open>Properties\<close>


definition demo_content :: content_info where
  "demo_content = \<lparr>ci_Digest = ''sha256:00'', ci_Size = 12, ci_CreatedAt = 5, ci_UpdatedAt = 6,
     ci_Labels = [(''a'', ''1''), (''__label:a'', ''2'')]\<rparr>"



definition demo_readerAt :: readerAt where
  "demo_readerAt = \<lparr>ra_id = ''r'', ra_descriptor = \<lparr>ds_media_type = [], ds_digest = ''d'', ds_size = 5, ds_urls = [],
     ds_annotations = [], ds_platform = None\<rparr>, ra_index = 0, ra_size = 5, ra_canceled = False\<rparr>"

definition demo_blob_run :: "(prefetcher \<times> goroutine list) option" where
  "demo_blob_run = exec (content_reader (serve ''abcde'') [''u''] demo_readerAt) demo_schedule (demo_prefetcher, [])"

lemma demo_blob_threads: "map_option snd demo_blob_run = Some [RdDone 3 1 ''bcd'' None, Exited, Exited, ClDone True]"
  by code_simp


definition short_serve :: "bytes \<Rightarrow> round_trip" where
  "short_serve content ss =
     res_bind (serve content ss) (\<lambda>c. case cs_packet c of
        CImageTransfer it \<Rightarrow> Inr (c\<lparr>cs_packet := CImageTransfer (it\<lparr>it_data := if it_data it = ''ab'' then ''a'' else it_data it\<rparr>)\<rparr>)
      | _ \<Rightarrow> Inr c)"

definition short_prefetcher :: prefetcher where
  "short_prefetcher = projr (New False 4 [demo_config])"

definition short_schedule :: "schedule_item list" where
  "short_schedule = [CallReadAt 4 0] @ replicate 6 (Step 0 0) @ replicate 4 (Step 1 0) @ [Step 1 1, Step 1 0, Step 1 0] @
     replicate 5 (Step 0 0) @ [Step 0 1, Step 0 0, Step 0 0, Step 0 0]"

lemma short_run:
  "map_option snd (exec (content_reader (short_serve ''abcd'') [''u''] demo_readerAt) short_schedule (short_prefetcher, [])) =
     Some [RdDone 4 0 ''acd'' None, Exited, RqStart 1]"
  by code_simp

text \<open>
  A host that answers a request with fewer bytes than the content has there, which the comment on the response
  format allows, makes the prefetcher skip bytes without an error: the reader reports the short
  count with a nil error, the chunk is kept, and the next chunk is copied right behind it. Reading four bytes of
  ``abcd'' returns ``acd''.
\<close>

theorem short_answer_skips_bytes:
  "\<exists>p ts. sys_reachable (content_reader (short_serve ''abcd'') [''u''] demo_readerAt) short_prefetcher (p, ts) \<and>
     RdDone 4 0 ''acd'' None \<in> set ts"
proof -
  from short_run obtain p where
    "exec (content_reader (short_serve ''abcd'') [''u''] demo_readerAt) short_schedule (short_prefetcher, []) =
       Some (p, [RdDone 4 0 ''acd'' None, Exited, RqStart 1])"
    by (cases "exec (content_reader (short_serve ''abcd'') [''u''] demo_readerAt) short_schedule (short_prefetcher, [])") auto
  from exec_reachable [OF this sys_reachable.init] show ?thesis by fastforce
qed


definition demo_listing :: "(goerr + client_stream) list" where
  "demo_listing = [Inr \<lparr>cs_build_id = ''w'', cs_packet = CImageTransfer
     (empty_image_transfer\<lparr>it_tag := ''d'', it_complete := True, it_metadata := [(''size'', ''1'')]\<rparr>)\<rparr>]"

abbreviation no_time :: time_parser where "no_time \<equiv> \<lambda>s. Inl SyntaxError"

definition walk_sent :: walk_sys where
  \<comment> \<open>the goroutine has sent its only content and now offers its nil error\<close>
  "walk_sent = hd (walk_goroutine no_time 0 (hd (walk_goroutine no_time 0 (walk_init demo_listing))))"

lemma walk_sent_reachable: "walk_reachable no_time 0 (\<lambda>_. None) demo_listing walk_sent"
proof -
  have 1: "hd (walk_goroutine no_time 0 (walk_init demo_listing)) \<in> set (walk_goroutine no_time 0 (walk_init demo_listing))"
    by (rule hd_in_set) (simp add: walk_goroutine_def walk_init_def demo_listing_def)
  have "walk_goroutine no_time 0 (hd (walk_goroutine no_time 0 (walk_init demo_listing))) \<noteq> []" by code_simp
  with 1 show ?thesis unfolding walk_sent_def by (meson hd_in_set walk_reachable.goroutine walk_reachable.start)
qed


text \<open>
  \<open>Walk\<close> may return success without having called its function on every content: the goroutine
  offers its nil error while contents are still in the buffer, and the caller's \<open>select\<close> may take it first.
  Here the host lists one content and the function is never called.
\<close>

theorem Walk_may_drop_contents:
  "\<exists>s. walk_reachable no_time 0 (\<lambda>_. None) demo_listing s \<and> wk_result s = Some None \<and> wk_seen s = [] \<and>
     length (listed no_time 0 demo_listing) = 1"
proof -
  let ?s = "walk_sent\<lparr>wk_pc := WExited, wk_result := Some None\<rparr>"
  have pc: "wk_pc walk_sent = WSendErr None" "wk_seen walk_sent = []" "wk_result walk_sent = None"
    "length (listed no_time 0 demo_listing) = 1" by code_simp+
  then have "?s \<in> set (walk_caller (\<lambda>_. None) walk_sent)" by (simp add: walk_caller_def)
  from walk_reachable.caller [OF walk_sent_reachable this] pc show ?thesis by (intro exI [of _ ?s]) simp
qed

text \<open>
  A \<open>Seek\<close> of the blob reader either fails and leaves the position, or moves to
  the position asked for, which lies within the blob; the arithmetic does not wrap there. So the position of a
  reader stays within the blob under any sequence of seeks.
\<close>

theorem readerAt_Seek_exact:
  assumes "0 \<le> ra_index r" "ra_index r \<le> ra_size r" "ra_size r < 2 ^ 63" "- (2 ^ 63) \<le> offset" "offset < 2 ^ 63"
    and "readerAt_Seek r offset w = (res, r')"
  shows "case res of
      Inl e \<Rightarrow> r' = r
    | Inr pos \<Rightarrow> r' = r\<lparr>ra_index := pos\<rparr> \<and> 0 \<le> pos \<and> pos \<le> ra_size r \<and>
        pos = offset + (case w of SeekStart \<Rightarrow> 0 | SeekCurrent \<Rightarrow> ra_index r | SeekEnd \<Rightarrow> ra_size r | WhenceOther _ \<Rightarrow> 0)"
proof (cases "seek_target (ra_index r) (ra_size r) offset w")
  case (Inl e)
  with assms(6) have "res = Inl e" "r' = r" by (simp_all add: readerAt_Seek_def)
  then show ?thesis by simp
next
  case (Inr pos)
  have wrap: "i64 (a + offset) = a + offset \<or> i64 (a + offset) < 0" if "0 \<le> a" "a < 2 ^ 63" for a
  proof (cases "a + offset < 2 ^ 63")
    case True
    with that assms(4) show ?thesis using i64_id [of "a + offset"] by simp
  next
    case False
    with that assms(5) show ?thesis using i64_wrap [of "a + offset"] by simp
  qed
  from assms(6) have "case res of Inl e \<Rightarrow> r' = r | Inr q \<Rightarrow> q = pos \<and> r' = r\<lparr>ra_index := pos\<rparr> \<and> 0 \<le> pos \<and> pos \<le> ra_size r"
    unfolding readerAt_Seek_def Inr sum.case by (auto split: if_splits)
  moreover have "pos < 0 \<or> pos = offset + (case w of SeekStart \<Rightarrow> 0 | SeekCurrent \<Rightarrow> ra_index r | SeekEnd \<Rightarrow> ra_size r | WhenceOther _ \<Rightarrow> 0)"
    using Inr wrap [of "ra_index r"] wrap [of "ra_size r"] assms(1-3) by (auto simp: seek_target_def split: whence.splits)
  ultimately show ?thesis by (auto split: sum.splits)
qed

theorem readerAt_Seek_exact_witness:
  "readerAt_Seek demo_readerAt (- 2) SeekEnd = (Inr 3, demo_readerAt\<lparr>ra_index := 3\<rparr>) \<and> (3::int) = - 2 + ra_size demo_readerAt"
proof -
  have run: "readerAt_Seek demo_readerAt (- 2) SeekEnd = (Inr 3, demo_readerAt\<lparr>ra_index := 3\<rparr>)"
    by (simp add: readerAt_Seek_def seek_target_def demo_readerAt_def i64_def)
  have "(3::int) = - 2 + ra_size demo_readerAt"
    using readerAt_Seek_exact [OF _ _ _ _ _ run] by (simp add: demo_readerAt_def)
  with run show ?thesis by blast
qed

end
