(* ===== verification/Go_Paths.thy ===== *)
theory Go_Paths
  imports Go_Strings
begin

text \<open>
  The lexical path functions of Go's path/filepath on Unix (\<open>Clean\<close>, \<open>Join\<close>, \<open>Dir\<close>,
  \<open>IsLocal\<close>, \<open>Rel\<close>) and their normal forms: a cleaned path is a list of proper
  components, possibly after leading \<open>..\<close> components when it is relative.
\<close>

section \<open>Components and normal forms\<close>

abbreviation slash :: char where "slash \<equiv> CHR ''/''"

definition proper :: "string \<Rightarrow> bool" where
  "proper c = (c \<noteq> [] \<and> c \<noteq> ''.'' \<and> c \<noteq> ''..'' \<and> slash \<notin> set c)"

definition path_parts :: "string \<Rightarrow> string list" where
  \<comment> \<open>The non-empty components of a path.\<close>
  "path_parts p = filter (\<lambda>c. c \<noteq> []) (Split p slash)"

definition abs_path :: "string list \<Rightarrow> string" where
  "abs_path cs = slash # Join cs [slash]"

definition IsAbs :: "string \<Rightarrow> bool" where
  "IsAbs p = (p \<noteq> [] \<and> hd p = slash)"

section \<open>The functions\<close>

fun clean_loop :: "bool \<Rightarrow> string list \<Rightarrow> string list \<Rightarrow> string list" where
  "clean_loop rooted acc [] = rev acc"
| "clean_loop rooted acc (c # cs) =
     (if c = [] \<or> c = ''.'' then clean_loop rooted acc cs
      else if c = ''..'' then
        (case acc of
           [] \<Rightarrow> clean_loop rooted (if rooted then [] else [''..'']) cs
         | a # as \<Rightarrow> if a = ''..'' then clean_loop rooted (''..'' # acc) cs else clean_loop rooted as cs)
      else clean_loop rooted (c # acc) cs)"

definition Clean :: "string \<Rightarrow> string" where
  "Clean p =
     (if p = [] then ''.''
      else let out = clean_loop (IsAbs p) [] (Split p slash)
           in if IsAbs p then abs_path out else if out = [] then ''.'' else Join out [slash])"

definition path_Join :: "string list \<Rightarrow> string" where
  \<comment> \<open>\<open>filepath.Join(elem...)\<close>\<close>
  "path_Join es = (let ne = dropWhile (\<lambda>e. e = []) es in if ne = [] then [] else Clean (Join ne [slash]))"

definition path_Dir :: "string \<Rightarrow> string" where
  \<comment> \<open>\<open>filepath.Dir(path)\<close>: everything up to the last slash, cleaned.\<close>
  "path_Dir p = Clean (rev (dropWhile (\<lambda>c. c \<noteq> slash) (rev p)))"

definition IsLocal :: "string \<Rightarrow> bool" where
  "IsLocal p =
     (if IsAbs p \<or> p = [] then False
      else let hasDots = (''.'' \<in> set (Split p slash) \<or> ''..'' \<in> set (Split p slash));
               q = (if hasDots then Clean p else p)
           in \<not> (q = ''..'' \<or> HasPrefix q ''../''))"

fun strip_common :: "string list \<Rightarrow> string list \<Rightarrow> string list \<times> string list" where
  "strip_common (b # bs) (t # ts) = (if b = t then strip_common bs ts else (b # bs, t # ts))"
| "strip_common bs ts = (bs, ts)"

definition path_Rel :: "string \<Rightarrow> string \<Rightarrow> goerr + string" where
  \<comment> \<open>\<open>filepath.Rel(basepath, targpath)\<close>\<close>
  "path_Rel basepath targpath =
     (let base = Clean basepath; targ = Clean targpath
      in if targ = base then Inr ''.''
         else let b = (if base = ''.'' then [] else base)
              in if IsAbs b \<noteq> IsAbs targ then Inl (Errorf ''Rel'')
                 else let (br, tr) = strip_common (path_parts b) (path_parts targ)
                      in if br \<noteq> [] \<and> tr \<noteq> [] \<and> hd br = ''..'' then Inl (Errorf ''Rel'')
                         else Inr (Join (replicate (length br) ''..'' @ tr) [slash]))"

section \<open>Normal forms of cleaned paths\<close>

lemma proper_simps [simp]: "\<not> proper []" "\<not> proper ''.''" "\<not> proper ''..''"
  by (simp_all add: proper_def)

lemma properD: "proper c \<Longrightarrow> slash \<notin> set c" "proper c \<Longrightarrow> c \<noteq> []"
  by (auto simp: proper_def)

lemma clean_loop_proper:
  "list_all proper cs \<Longrightarrow> clean_loop r acc (cs @ ds) = clean_loop r (rev cs @ acc) ds"
  by (induction cs arbitrary: acc) (auto simp: proper_def)

lemma clean_loop_dots:
  "clean_loop False (replicate k ''..'') (replicate n ''..'' @ ds)
   = clean_loop False (replicate (k + n) ''..'') ds"
proof (induction n arbitrary: k)
  case 0
  then show ?case by simp
next
  case (Suc n)
  have "clean_loop False (replicate k ''..'') (''..'' # replicate n ''..'' @ ds)
        = clean_loop False (replicate (Suc k) ''..'') (replicate n ''..'' @ ds)"
    by (cases k) auto
  with Suc.IH [of "Suc k"] show ?case by simp
qed

text \<open>The shape of what the loop keeps: leading \<open>..\<close> components, then proper ones.\<close>

definition clean_shape :: "bool \<Rightarrow> string list \<Rightarrow> bool" where
  "clean_shape rooted cs \<longleftrightarrow>
     (\<exists>k ps. cs = replicate k ''..'' @ ps \<and> list_all proper ps \<and> (rooted \<longrightarrow> k = 0))"

lemma clean_shape_snoc:
  assumes "clean_shape r cs" "proper c" shows "clean_shape r (cs @ [c])"
proof -
  from assms(1) obtain k ps where "cs = replicate k ''..'' @ ps" "list_all proper ps" "r \<longrightarrow> k = 0"
    by (auto simp: clean_shape_def)
  with assms(2) show ?thesis
    unfolding clean_shape_def by (intro exI [of _ k] exI [of _ "ps @ [c]"]) auto
qed

lemma clean_shape_butlast:
  assumes "clean_shape r (cs @ [c])" "c \<noteq> ''..''" shows "clean_shape r cs"
proof -
  from assms(1) obtain k ps where s: "cs @ [c] = replicate k ''..'' @ ps" "list_all proper ps" "r \<longrightarrow> k = 0"
    by (auto simp: clean_shape_def)
  have "ps \<noteq> []"
  proof
    assume "ps = []"
    with s(1) have "c \<in> set (replicate k ''..'')" by (metis append_Nil2 in_set_conv_decomp)
    with assms(2) show False by simp
  qed
  then obtain qs q where "ps = qs @ [q]" by (metis append_butlast_last_id)
  with s show ?thesis unfolding clean_shape_def by (intro exI [of _ k] exI [of _ qs]) auto
qed

lemma clean_shape_dots:
  assumes "clean_shape r (cs @ [''..''])" shows "clean_shape r (cs @ [''..'', ''..''])"
proof -
  from assms obtain k ps where s: "cs @ [''..''] = replicate k ''..'' @ ps" "list_all proper ps" "r \<longrightarrow> k = 0"
    by (auto simp: clean_shape_def)
  have "ps = []"
  proof (rule ccontr)
    assume "ps \<noteq> []"
    with s(1) have "last ps = ''..''" by (metis last_appendR last_snoc)
    with s(2) \<open>ps \<noteq> []\<close> show False by (metis last_in_set list.pred_set proper_simps(3))
  qed
  with s(1) have eq: "cs @ [''..''] = replicate k ''..''" by simp
  then have "k \<noteq> 0" by (cases k) auto
  have "cs @ [''..'', ''..''] = (cs @ [''..'']) @ [''..'']" by simp
  also have "\<dots> = replicate (Suc k) ''..''" unfolding eq by (simp add: replicate_append_same)
  finally have "cs @ [''..'', ''..''] = replicate (Suc k) ''..'' @ []" by simp
  with s(3) \<open>k \<noteq> 0\<close> show ?thesis
    unfolding clean_shape_def by (intro exI [of _ "Suc k"] exI [of _ "[]"]) simp
qed

lemma clean_loop_shape:
  assumes "clean_shape r (rev acc)" "\<forall>c \<in> set cs. slash \<notin> set c"
  shows "clean_shape r (clean_loop r acc cs)"
  using assms
proof (induction r acc cs rule: clean_loop.induct)
  case (1 r acc)
  then show ?case by simp
next
  case (2 r acc c cs)
  show ?case
  proof (cases "c = [] \<or> c = ''.''")
    case True
    with 2 show ?thesis by auto
  next
    case nd: False
    show ?thesis
    proof (cases "c = ''..''")
      case True
      show ?thesis
      proof (cases acc)
        case Nil
        have "clean_shape r (rev (if r then [] else [''..'']))"
          unfolding clean_shape_def
          by (cases r) (auto intro: exI [of _ "0::nat"] exI [of _ "1::nat"])
        then have "clean_shape r (clean_loop r (if r then [] else [''..'']) cs)"
          by (rule 2(2) [OF nd True Nil]) (use "2.prems"(2) in auto)
        with Nil True nd show ?thesis by simp
      next
        case (Cons a as)
        show ?thesis
        proof (cases "a = ''..''")
          case True
          with "2.prems"(1) Cons have "clean_shape r (rev (''..'' # acc))" using clean_shape_dots by simp
          with 2(3) [OF nd \<open>c = ''..''\<close> Cons True] "2.prems"(2) Cons True \<open>c = ''..''\<close> nd show ?thesis by simp
        next
          case False
          with "2.prems"(1) Cons have "clean_shape r (rev as)" using clean_shape_butlast by auto
          with 2(4) [OF nd \<open>c = ''..''\<close> Cons False] "2.prems"(2) Cons False \<open>c = ''..''\<close> nd show ?thesis by simp
        qed
      qed
    next
      case False
      with nd 2 have "proper c" by (auto simp: proper_def)
      with 2 nd False show ?thesis using clean_shape_snoc by simp
    qed
  qed
qed

lemma clean_shape_Nil [simp]: "clean_shape r []"
  unfolding clean_shape_def by (intro exI [of _ "0::nat"] exI [of _ "[]"]) simp

lemma clean_loop_fixed:
  assumes "clean_shape False cs" shows "clean_loop False [] cs = cs"
proof -
  from assms obtain k ps where s: "cs = replicate k ''..'' @ ps" "list_all proper ps"
    by (auto simp: clean_shape_def)
  have "clean_loop False [] cs = clean_loop False (replicate k ''..'') ps"
    using clean_loop_dots [of 0 k ps] s(1) by simp
  also have "\<dots> = rev (rev ps @ replicate k ''..'')"
    using clean_loop_proper [OF s(2), of False "replicate k ''..''" "[]"] by simp
  finally show ?thesis using s(1) by simp
qed

section \<open>Cleaned local paths\<close>

lemma Join_hd: "cs \<noteq> [] \<Longrightarrow> hd cs \<noteq> [] \<Longrightarrow> hd (Join cs sep) = hd (hd cs)"
  by (cases cs; cases "tl cs") auto

lemma Join_nonempty: "cs \<noteq> [] \<Longrightarrow> hd cs \<noteq> [] \<Longrightarrow> Join cs sep \<noteq> []"
  by (cases cs; cases "tl cs") auto

lemma Split_Join_proper: "cs \<noteq> [] \<Longrightarrow> list_all proper cs \<Longrightarrow> Split (Join cs [slash]) slash = cs"
  by (rule Split_Join) (auto simp: list_all_iff dest: properD)

lemma proper_hd: "proper c \<Longrightarrow> hd c \<noteq> slash"
  by (metis hd_in_set properD)

lemma Join_proper_nonempty: "cs \<noteq> [] \<Longrightarrow> list_all proper cs \<Longrightarrow> Join cs sep \<noteq> []"
  by (metis Join_nonempty hd_in_set list.pred_set properD(2))

lemma not_IsAbs_Join: "cs \<noteq> [] \<Longrightarrow> list_all proper cs \<Longrightarrow> \<not> IsAbs (Join cs [slash])"
  by (cases cs) (auto simp: IsAbs_def Join_hd properD proper_hd)

lemma path_parts_Join: "list_all proper cs \<Longrightarrow> path_parts (Join cs [slash]) = cs"
proof (cases "cs = []")
  case True
  then show ?thesis by (simp add: path_parts_def)
next
  case False
  assume "list_all proper cs"
  with False show ?thesis
    by (auto simp: path_parts_def Split_Join_proper list_all_iff intro!: filter_True dest: properD)
qed

lemma path_parts_abs_path: "list_all proper cs \<Longrightarrow> path_parts (abs_path cs) = cs"
  using path_parts_Join [of cs] by (simp add: path_parts_def abs_path_def)

lemma IsAbs_abs_path [simp]: "IsAbs (abs_path cs)"
  by (simp add: IsAbs_def abs_path_def)

lemma Split_abs_path: "cs \<noteq> [] \<Longrightarrow> list_all proper cs \<Longrightarrow> Split (abs_path cs) slash = [] # cs"
  by (simp add: abs_path_def Split_Join_proper)

lemma Clean_abs_path: "list_all proper cs \<Longrightarrow> Clean (abs_path cs) = abs_path cs"
proof (cases "cs = []")
  case True
  then show ?thesis by (simp add: Clean_def abs_path_def IsAbs_def)
next
  case False
  assume "list_all proper cs"
  with False have "clean_loop True [] (Split (abs_path cs) slash) = cs"
    using clean_loop_proper [of cs True "[]" "[]"] by (simp add: Split_abs_path)
  then show ?thesis by (simp add: Clean_def abs_path_def IsAbs_def)
qed

text \<open>
  A name that is local after cleaning, and not the directory itself, is a non-empty list of
  proper components: no empty component, no \<open>.\<close>, no \<open>..\<close>, and it is not absolute.
\<close>

lemma Clean_local_cases:
  assumes "IsLocal (Clean name)" "Clean name \<noteq> ''.''"
  obtains cs where "cs \<noteq> []" "list_all proper cs" "Clean name = Join cs [slash]"
proof -
  let ?out = "clean_loop (IsAbs name) [] (Split name slash)"
  have ne: "name \<noteq> []" using assms by (auto simp: Clean_def)
  have rel: "\<not> IsAbs name"
    using assms(1) by (auto simp: IsLocal_def Clean_def ne Let_def)
  have out: "?out \<noteq> []" "Clean name = Join ?out [slash]"
    using assms(2) ne rel by (auto simp: Clean_def Let_def split: if_splits)
  have "clean_shape False ?out"
    using clean_loop_shape [of False "[]" "Split name slash"] rel Split_no_sep by auto
  then obtain k ps where s: "?out = replicate k ''..'' @ ps" "list_all proper ps"
    by (auto simp: clean_shape_def)
  have "k = 0"
  proof (rule ccontr)
    assume k: "k \<noteq> 0"
    then have hd: "?out = ''..'' # replicate (k - 1) ''..'' @ ps"
      using s(1) by (cases k) auto
    have sp: "Split (Clean name) slash = ?out"
      unfolding out(2)
    proof (rule Split_Join)
      show "?out \<noteq> []" by (rule out(1))
      show "\<forall>s \<in> set ?out. slash \<notin> set s"
        using s by (auto simp: list_all_iff dest: properD)
    qed
    have "clean_loop False [] ?out = ?out"
      by (rule clean_loop_fixed [OF \<open>clean_shape False ?out\<close>])
    moreover have na: "\<not> IsAbs (Clean name)"
      unfolding out(2) using hd by (simp add: IsAbs_def Join_hd)
    moreover have "Clean name \<noteq> []" using out(2) hd by (simp add: Join_nonempty)
    ultimately have cc: "Clean (Clean name) = Clean name"
      using out sp na by (subst Clean_def) (simp del: Join.simps)
    have "Clean name = ''..'' \<or> HasPrefix (Clean name) ''../''"
      unfolding out(2) hd by (cases "replicate (k - 1) ''..'' @ ps") (auto simp: HasPrefix_def)
    then show False using assms(1) cc na by (auto simp: IsLocal_def Let_def split: if_splits)
  qed
  with s out that show thesis by simp
qed

text \<open>Joining an absolute directory and a local name appends the components.\<close>

lemma path_Join_abs:
  assumes "list_all proper ds" "cs \<noteq> []" "list_all proper cs"
  shows "path_Join [abs_path ds, Join cs [slash]] = abs_path (ds @ cs)"
proof -
  have ne: "Join cs [slash] \<noteq> []"
    using assms by (intro Join_proper_nonempty)
  have j: "Join [abs_path ds, Join cs [slash]] [slash] = abs_path ds @ slash # Join cs [slash]"
    by simp
  have "Split (abs_path ds @ slash # Join cs [slash]) slash = Split (abs_path ds) slash @ cs"
  proof (cases "ds = []")
    case True
    then show ?thesis using assms by (simp add: abs_path_def Split_Join_proper)
  next
    case False
    have "abs_path ds @ slash # Join cs [slash] = Join (([] # ds) @ cs) [slash]"
      using False assms(2) by (induction ds rule: induct_list012) (auto simp: abs_path_def Join_Cons)
    moreover have "Split (Join (([] # ds) @ cs) [slash]) slash = ([] # ds) @ cs"
      using assms by (intro Split_Join) (auto simp: list_all_iff dest: properD)
    ultimately show ?thesis using False assms(1) by (simp add: Split_abs_path)
  qed
  moreover have "clean_loop True [] (Split (abs_path ds) slash @ cs) = ds @ cs"
  proof (cases "ds = []")
    case True
    then show ?thesis
      using assms clean_loop_proper [of cs True "[]" "[]"] by (simp add: abs_path_def)
  next
    case False
    with assms show ?thesis
      using clean_loop_proper [of "ds @ cs" True "[]" "[]"] by (simp add: Split_abs_path)
  qed
  moreover have "IsAbs (abs_path ds @ slash # Join cs [slash])" by (simp add: abs_path_def IsAbs_def)
  ultimately show ?thesis
    unfolding path_Join_def j using ne by (simp add: abs_path_def Clean_def)
qed

lemma strip_common_append: "strip_common ds (ds @ cs) = ([], cs)"
  by (induction ds) (cases cs, auto)

lemma path_Rel_abs:
  assumes "list_all proper ds" "cs \<noteq> []" "list_all proper cs"
  shows "path_Rel (abs_path ds) (abs_path (ds @ cs)) = Inr (Join cs [slash])"
proof -
  have p: "list_all proper (ds @ cs)" using assms by simp
  have "abs_path (ds @ cs) \<noteq> abs_path ds"
    using assms by (metis append_self_conv p path_parts_abs_path)
  moreover have "abs_path ds \<noteq> ''.''" by (simp add: abs_path_def)
  ultimately show ?thesis
    by (simp add: path_Rel_def Clean_abs_path [OF p] Clean_abs_path [OF assms(1)]
        path_parts_abs_path [OF p] path_parts_abs_path [OF assms(1)] strip_common_append)
qed

lemma IsLocal_Join_proper:
  assumes "cs \<noteq> []" "list_all proper cs" shows "IsLocal (Join cs [slash])"
proof -
  have "Join cs [slash] \<noteq> []" using assms by (intro Join_proper_nonempty)
  moreover have "''.'' \<notin> set cs" "''..'' \<notin> set cs" using assms(2) by (auto simp: list_all_iff)
  moreover have "Join cs [slash] \<noteq> ''..''"
  proof
    assume "Join cs [slash] = ''..''"
    then have "Split ''..'' slash = cs" using Split_Join_proper [OF assms] by simp
    with \<open>''..'' \<notin> set cs\<close> show False by auto
  qed
  moreover have "\<not> HasPrefix (Join cs [slash]) ''../''"
  proof
    assume "HasPrefix (Join cs [slash]) ''../''"
    then obtain t where "Join cs [slash] = ''..'' @ slash # t" by (auto simp: HasPrefix_iff)
    then have "cs = ''..'' # Split t slash"
      using Split_Join_proper [OF assms] Split_append_sep [of slash "''..''" t] by simp
    with \<open>''..'' \<notin> set cs\<close> show False by auto
  qed
  ultimately show ?thesis
    using assms by (simp add: IsLocal_def not_IsAbs_Join Split_Join_proper)
qed

lemma path_Dir_Join:
  assumes "cs \<noteq> []" "list_all proper cs"
  shows "path_Dir (Join cs [slash]) = (if length cs = 1 then ''.'' else Join (butlast cs) [slash])"
proof -
  obtain bs b where cs: "cs = bs @ [b]" using assms(1) by (metis append_butlast_last_id)
  then have b: "slash \<notin> set b" "list_all proper bs" using assms(2) by (auto dest: properD)
  show ?thesis
  proof (cases "bs = []")
    case True
    have "dropWhile (\<lambda>c. c \<noteq> slash) (rev b) = []" using b(1) by (simp add: dropWhile_eq_Nil_conv) metis
    with True cs show ?thesis by (simp add: path_Dir_def Clean_def)
  next
    case False
    have j: "Join cs [slash] = Join bs [slash] @ slash # b"
      unfolding cs using False by (induction bs rule: induct_list012) (auto simp: Join_Cons)
    have "dropWhile (\<lambda>c. c \<noteq> slash) (rev b @ slash # rev (Join bs [slash])) = slash # rev (Join bs [slash])"
      using b(1) by (subst dropWhile_append2) auto
    then have d: "path_Dir (Join cs [slash]) = Clean (Join bs [slash] @ [slash])"
      by (simp add: path_Dir_def j)
    have "Join bs [slash] @ [slash] = Join (bs @ [[]]) [slash]"
      using False by (induction bs rule: induct_list012) (auto simp: Join_Cons)
    moreover have "Split (Join (bs @ [[]]) [slash]) slash = bs @ [[]]"
      using b(2) by (intro Split_Join) (auto simp: list_all_iff dest: properD)
    ultimately have "Split (Join bs [slash] @ [slash]) slash = bs @ [[]]" by simp
    moreover have "clean_loop False [] (bs @ [[]]) = bs"
      using clean_loop_proper [OF b(2), of False "[]" "[[]]"] by simp
    moreover have "\<not> IsAbs (Join bs [slash] @ [slash])"
      using not_IsAbs_Join [OF False b(2)] Join_proper_nonempty [OF False b(2)]
      by (simp add: IsAbs_def)
    ultimately have "Clean (Join bs [slash] @ [slash]) = Join bs [slash]"
      using False by (simp add: Clean_def)
    with d cs False show ?thesis by simp
  qed
qed

end
