(* ===== verification/File_System.thy ===== *)
theory File_System
  imports Go_Paths "HOL-Library.List_Lexorder" "HOL-Library.Char_ord"
begin

text \<open>
  The part of the operating system's file interface that the shim uses: regular files, directories
  and symbolic links in one tree, path resolution that follows symbolic links in the middle of a
  path, and the calls of package \<open>os\<close> on it. A file operation is a function of the file system
  that returns an error or a value together with the file system it leaves behind, also when it
  fails.

  A path is the list of its components from the root. The tree is an association list; the root is
  always a directory. Hard links share a file that the shim never writes again, so they are copies.
\<close>

section \<open>The tree\<close>

type_synonym path = "string list"

datatype node =
    Dir
  | Reg nat bytes
  | Sym string

type_synonym fs = "(path \<times> node) list"

definition fs_get :: "fs \<Rightarrow> path \<Rightarrow> node option" where
  "fs_get fs p = (if p = [] then Some Dir else map_of fs p)"

definition fs_put :: "path \<Rightarrow> node \<Rightarrow> fs \<Rightarrow> fs" where
  "fs_put p n fs = AList.update p n fs"

definition fs_prune :: "path \<Rightarrow> fs \<Rightarrow> fs" where
  "fs_prune p fs = filter (\<lambda>(q, _). \<not> prefix p q) fs"

definition fs_move :: "path \<Rightarrow> path \<Rightarrow> fs \<Rightarrow> fs" where
  "fs_move p q fs =
     map (\<lambda>(r, n). (if prefix p r then q @ drop (length p) r else r, n)) (fs_prune q fs)"

definition children :: "fs \<Rightarrow> path \<Rightarrow> string list" where
  "children fs p =
     sort (remdups (map (\<lambda>(q, _). last q) (filter (\<lambda>(q, _). q \<noteq> [] \<and> butlast q = p) fs)))"

section \<open>Operations with a file system\<close>

type_synonym 'a io = "fs \<Rightarrow> (goerr + 'a) \<times> fs"

definition io_return :: "'a \<Rightarrow> 'a io" where
  "io_return x fs = (Inr x, fs)"

definition io_fail :: "goerr \<Rightarrow> 'a io" where
  "io_fail e fs = (Inl e, fs)"

definition io_bind :: "'a io \<Rightarrow> ('a \<Rightarrow> 'b io) \<Rightarrow> 'b io" where
  "io_bind m f fs = (case m fs of (Inl e, fs') \<Rightarrow> (Inl e, fs') | (Inr x, fs') \<Rightarrow> f x fs')"

definition io_then :: "unit io \<Rightarrow> 'b io \<Rightarrow> 'b io" where
  "io_then m k = io_bind m (\<lambda>_. k)"

definition io_try :: "'a io \<Rightarrow> (goerr + 'a) io" where
  \<comment> \<open>a call whose error the code inspects\<close>
  "io_try m fs = (case m fs of (r, fs') \<Rightarrow> (Inr r, fs'))"

definition io_lift :: "goerr + 'a \<Rightarrow> 'a io" where
  "io_lift r fs = (r, fs)"

fun io_each :: "('a \<Rightarrow> unit io) \<Rightarrow> 'a list \<Rightarrow> unit io" where
  "io_each f [] = io_return ()"
| "io_each f (x # xs) = io_then (f x) (io_each f xs)"

section \<open>Path resolution\<close>

text \<open>
  \<open>walk follow b fs cur cs\<close> resolves the components \<open>cs\<close> from the directory \<open>cur\<close>; at
  most \<open>b\<close> symbolic links are followed, the last component only if \<open>follow\<close> is set.
\<close>

function (sequential) walk :: "bool \<Rightarrow> nat \<Rightarrow> fs \<Rightarrow> path \<Rightarrow> string list \<Rightarrow> goerr + path" where
  "walk follow b fs cur [] = Inr cur"
| "walk follow b fs cur (c # cs) =
     (if c = ''.'' then walk follow b fs cur cs
      else if c = ''..'' then walk follow b fs (butlast cur) cs
      else
        (case fs_get fs (cur @ [c]) of
           None \<Rightarrow> if cs = [] then Inr (cur @ [c]) else Inl NotExist
         | Some (Reg _ _) \<Rightarrow> if cs = [] then Inr (cur @ [c]) else Inl NotDirectory
         | Some Dir \<Rightarrow> walk follow b fs (cur @ [c]) cs
         | Some (Sym t) \<Rightarrow>
             if cs = [] \<and> \<not> follow then Inr (cur @ [c])
             else
               (case b of
                  0 \<Rightarrow> Inl TooManyLinks
                | Suc b' \<Rightarrow> walk follow b' fs (if IsAbs t then [] else cur) (path_parts t @ cs))))"
  by pat_completeness auto
termination
  by (relation "inv_image (less_than <*lex*> less_than) (\<lambda>(follow, b, fs, cur, cs). (b, length cs))") auto

text \<open>Linux follows at most 40 links in one resolution.\<close>

definition resolve :: "bool \<Rightarrow> string \<Rightarrow> fs \<Rightarrow> goerr + path" where
  "resolve follow s fs = walk follow 40 fs [] (path_parts s)"

section \<open>The calls\<close>

definition sys_Lstat :: "string \<Rightarrow> node io" where
  "sys_Lstat s fs =
     (res_bind (resolve False s fs) (\<lambda>p. case fs_get fs p of None \<Rightarrow> Inl NotExist | Some n \<Rightarrow> Inr n), fs)"

definition sys_create :: "node \<Rightarrow> string \<Rightarrow> unit io" where
  \<comment> \<open>the common part of \<open>mkdir\<close>, \<open>symlink\<close>, \<open>link\<close> and \<open>open\<close> with \<open>O_CREATE|O_EXCL\<close>\<close>
  "sys_create n s fs =
     (case resolve False s fs of
        Inl e \<Rightarrow> (Inl e, fs)
      | Inr p \<Rightarrow> if fs_get fs p \<noteq> None then (Inl Exists, fs) else (Inr (), fs_put p n fs))"

abbreviation sys_Mkdir :: "string \<Rightarrow> unit io" where
  "sys_Mkdir \<equiv> sys_create Dir"

abbreviation sys_Symlink :: "string \<Rightarrow> string \<Rightarrow> unit io" where
  "sys_Symlink target \<equiv> sys_create (Sym target)"

definition sys_Link :: "string \<Rightarrow> string \<Rightarrow> unit io" where
  "sys_Link old new = io_bind (sys_Lstat old) (\<lambda>n. if n = Dir then io_fail (Errorf ''operation not permitted'') else sys_create n new)"

definition sys_Readlink :: "string \<Rightarrow> string io" where
  "sys_Readlink s = io_bind (sys_Lstat s) (\<lambda>n. case n of Sym t \<Rightarrow> io_return t | _ \<Rightarrow> io_fail (Errorf ''invalid argument''))"

definition sys_ReadFile :: "string \<Rightarrow> bytes io" where
  "sys_ReadFile s fs =
     (res_bind (resolve True s fs) (\<lambda>p. case fs_get fs p of
          None \<Rightarrow> Inl NotExist
        | Some (Reg _ d) \<Rightarrow> Inr d
        | Some _ \<Rightarrow> Inl (Errorf ''is a directory'')), fs)"

definition sys_WriteFile :: "string \<Rightarrow> bytes \<Rightarrow> nat \<Rightarrow> unit io" where
  "sys_WriteFile s d perm fs =
     (case resolve True s fs of
        Inl e \<Rightarrow> (Inl e, fs)
      | Inr p \<Rightarrow>
          (case fs_get fs p of
             None \<Rightarrow> (Inr (), fs_put p (Reg perm d) fs)
           | Some (Reg m _) \<Rightarrow> (Inr (), fs_put p (Reg m d) fs)
           | Some _ \<Rightarrow> (Inl (Errorf ''is a directory''), fs)))"

definition sys_append :: "string \<Rightarrow> bytes \<Rightarrow> unit io" where
  \<comment> \<open>a write to a file opened with \<open>O_APPEND|O_WRONLY\<close>\<close>
  "sys_append s d fs =
     (case resolve True s fs of
        Inl e \<Rightarrow> (Inl e, fs)
      | Inr p \<Rightarrow>
          (case fs_get fs p of
             None \<Rightarrow> (Inl NotExist, fs)
           | Some (Reg m d') \<Rightarrow> (Inr (), fs_put p (Reg m (d' @ d)) fs)
           | Some _ \<Rightarrow> (Inl (Errorf ''is a directory''), fs)))"

definition sys_RemoveAll :: "string \<Rightarrow> unit io" where
  "sys_RemoveAll s fs =
     (case resolve False s fs of
        Inl NotExist \<Rightarrow> (Inr (), fs)
      | Inl e \<Rightarrow> (Inl e, fs)
      | Inr p \<Rightarrow> (Inr (), fs_prune p fs))"

definition sys_Remove :: "string \<Rightarrow> unit io" where
  "sys_Remove s fs =
     (case resolve False s fs of
        Inl e \<Rightarrow> (Inl e, fs)
      | Inr p \<Rightarrow>
          if fs_get fs p = None then (Inl NotExist, fs)
          else if children fs p \<noteq> [] then (Inl Exists, fs)
          else (Inr (), fs_prune p fs))"

definition sys_Rename :: "string \<Rightarrow> string \<Rightarrow> unit io" where
  "sys_Rename old new fs =
     (case (resolve False old fs, resolve False new fs) of
        (Inl e, _) \<Rightarrow> (Inl e, fs)
      | (_, Inl e) \<Rightarrow> (Inl e, fs)
      | (Inr p, Inr q) \<Rightarrow>
          (case fs_get fs p of
             None \<Rightarrow> (Inl NotExist, fs)
           | Some n \<Rightarrow>
               if p = q then (Inr (), fs)
               else if prefix p q then (Inl (Errorf ''invalid argument''), fs)
               else
                 (case fs_get fs q of
                    None \<Rightarrow> (Inr (), fs_move p q fs)
                  | Some Dir \<Rightarrow> if n = Dir \<and> children fs q = [] then (Inr (), fs_move p q fs) else (Inl Exists, fs)
                  | Some _ \<Rightarrow> if n = Dir then (Inl NotDirectory, fs) else (Inr (), fs_move p q fs))))"

text \<open>\<open>os.MkdirAll\<close>: every missing directory on the way; links to directories are followed.\<close>

fun mkdir_all :: "string list \<Rightarrow> string list \<Rightarrow> unit io" where
  "mkdir_all cur [] = io_return ()"
| "mkdir_all cur (c # cs) =
     io_bind (io_try (\<lambda>fs. (res_bind (resolve True (abs_path (cur @ [c])) fs)
                (\<lambda>p. case fs_get fs p of None \<Rightarrow> Inl NotExist | Some n \<Rightarrow> Inr n), fs)))
       (\<lambda>r. case r of
              Inr Dir \<Rightarrow> mkdir_all (cur @ [c]) cs
            | Inr _ \<Rightarrow> io_fail NotDirectory
            | Inl NotExist \<Rightarrow> io_then (sys_Mkdir (abs_path (cur @ [c]))) (mkdir_all (cur @ [c]) cs)
            | Inl e \<Rightarrow> io_fail e)"

definition sys_MkdirAll :: "string \<Rightarrow> unit io" where
  "sys_MkdirAll s = mkdir_all [] (path_parts s)"

text \<open>
  \<open>os.MkdirTemp\<close> and \<open>os.CreateTemp\<close>: names are tried, from a random source, until one is new.
\<close>

fun sys_temp :: "node \<Rightarrow> string list \<Rightarrow> string io" where
  "sys_temp n [] = io_fail Exists"
| "sys_temp n (s # names) =
     io_bind (io_try (sys_create n s))
       (\<lambda>r. case r of Inr _ \<Rightarrow> io_return s | Inl Exists \<Rightarrow> sys_temp n names | Inl e \<Rightarrow> io_fail e)"

section \<open>Lookup after update\<close>

lemma fs_get_root [simp]: "fs_get fs [] = Some Dir"
  by (simp add: fs_get_def)

lemma fs_get_put: "p \<noteq> [] \<Longrightarrow> fs_get (fs_put p n fs) q = (if q = p then Some n else fs_get fs q)"
  by (auto simp: fs_get_def fs_put_def)

lemma map_of_filter_keys: "map_of (filter (\<lambda>(k, _). P k) m) k = (if P k then map_of m k else None)"
  by (induction m) auto

lemma fs_get_prune: "p \<noteq> [] \<Longrightarrow> fs_get (fs_prune p fs) q = (if prefix p q then None else fs_get fs q)"
  by (auto simp: fs_get_def fs_prune_def map_of_filter_keys)

lemma map_of_rekey:
  assumes "\<forall>k \<in> fst ` set m. g k = j \<longleftrightarrow> k = i"
  shows "map_of (map (\<lambda>(k, v). (g k, v)) m) j = map_of m i"
  using assms by (induction m) auto

lemma map_of_rekey_None:
  assumes "\<forall>k \<in> fst ` set m. g k \<noteq> j"
  shows "map_of (map (\<lambda>(k, v). (g k, v)) m) j = None"
  using assms by (induction m) auto

lemma fs_get_move:
  assumes "p \<noteq> []" "q \<noteq> []" "p \<parallel> q"
  shows "fs_get (fs_move p q fs) r =
    (if prefix q r then fs_get fs (p @ drop (length q) r) else if prefix p r then None else fs_get fs r)"
proof -
  let ?m = "fs_prune q fs" and ?g = "\<lambda>r. if prefix p r then q @ drop (length p) r else r"
  have keys: "\<not> prefix q k" if "k \<in> fst ` set ?m" for k using that by (auto simp: fs_prune_def)
  have out: "\<not> prefix q (p @ s)" for s using assms(3) prefix_same_cases [of p "p @ s" q] by auto
  have prune: "map_of ?m k = (if prefix q k then None else map_of fs k)" for k
    by (simp add: fs_prune_def map_of_filter_keys)
  have move: "fs_move p q fs = map (\<lambda>(k, v). (?g k, v)) ?m" by (simp add: fs_move_def)
  show ?thesis
  proof (cases "prefix q r")
    case True
    then obtain s where r: "r = q @ s" by (auto simp: prefix_def)
    have "?g k = r \<longleftrightarrow> k = p @ s" if "k \<in> fst ` set ?m" for k
      using keys [OF that] r by (auto simp: prefix_def)
    then have "map_of (fs_move p q fs) r = map_of ?m (p @ s)" unfolding move by (intro map_of_rekey ballI)
    with assms(1,2) r out show ?thesis by (simp add: fs_get_def prune)
  next
    case False
    show ?thesis
    proof (cases "prefix p r")
      case True
      have "?g k \<noteq> r" if "k \<in> fst ` set ?m" for k using False True by (auto split: if_splits)
      then have "map_of (fs_move p q fs) r = None" unfolding move by (intro map_of_rekey_None ballI)
      with assms(1) True False show ?thesis by (auto simp: fs_get_def)
    next
      case no: False
      have "?g k = r \<longleftrightarrow> k = r" if "k \<in> fst ` set ?m" for k using False no by auto
      then have "map_of (fs_move p q fs) r = map_of ?m r" unfolding move by (intro map_of_rekey ballI)
      with False no show ?thesis by (simp add: fs_get_def prune)
    qed
  qed
qed

section \<open>Resolution of paths without links\<close>

definition dirs_to :: "path \<Rightarrow> fs \<Rightarrow> bool" where
  "dirs_to ds fs \<longleftrightarrow> (\<forall>k \<le> length ds. fs_get fs (take k ds) = Some Dir)"

lemma dirs_to_Nil [simp]: "dirs_to [] fs"
  by (simp add: dirs_to_def)

lemma dirs_to_snoc: "dirs_to (ds @ [c]) fs \<longleftrightarrow> dirs_to ds fs \<and> fs_get fs (ds @ [c]) = Some Dir"
  by (auto simp: dirs_to_def le_Suc_eq)

lemma dirs_to_prefix: "dirs_to (ds @ es) fs \<Longrightarrow> dirs_to ds fs"
  by (induction es rule: rev_induct) (auto simp: dirs_to_snoc simp flip: append_assoc)

lemma dirs_to_self: "dirs_to ds fs \<Longrightarrow> fs_get fs ds = Some Dir"
  by (auto simp: dirs_to_def dest: spec [of _ "length ds"])

lemma walk_dirs:
  assumes "list_all proper cs" "dirs_to (cur @ cs) fs"
  shows "walk follow b fs cur (cs @ rest) = walk follow b fs (cur @ cs) rest"
  using assms
proof (induction cs arbitrary: cur)
  case (Cons c cs)
  then have c: "c \<noteq> ''.''" "c \<noteq> ''..''" by (auto simp: proper_def)
  from Cons.prems(2) have "dirs_to ((cur @ [c]) @ cs) fs" by simp
  then have "fs_get fs (cur @ [c]) = Some Dir" by (rule dirs_to_self [OF dirs_to_prefix])
  with c Cons.IH [of "cur @ [c]"] Cons.prems show ?case by simp
qed simp

lemma resolve_dirs:
  assumes "list_all proper (ds @ [c])" "dirs_to ds fs"
    and "follow \<longrightarrow> (\<forall>t. fs_get fs (ds @ [c]) \<noteq> Some (Sym t))"
  shows "resolve follow (abs_path (ds @ [c])) fs = Inr (ds @ [c])"
proof -
  have c: "c \<noteq> ''.''" "c \<noteq> ''..''" using assms(1) by (auto simp: proper_def)
  have "path_parts (abs_path (ds @ [c])) = ds @ [c]" using assms(1) by (rule path_parts_abs_path)
  then have "resolve follow (abs_path (ds @ [c])) fs = walk follow 40 fs ds [c]"
    using walk_dirs [of ds "[]" fs follow 40 "[c]"] assms(1,2) by (simp add: resolve_def)
  also have "\<dots> = Inr (ds @ [c])" using c assms(3) by (auto split: option.split node.split)
  finally show ?thesis .
qed

section \<open>Hoare triples\<close>

definition hoare :: "(fs \<Rightarrow> bool) \<Rightarrow> 'a io \<Rightarrow> (goerr + 'a \<Rightarrow> fs \<Rightarrow> bool) \<Rightarrow> bool" where
  "hoare P m Q \<longleftrightarrow> (\<forall>fs r fs'. P fs \<longrightarrow> m fs = (r, fs') \<longrightarrow> Q r fs')"

definition on_ok :: "(fs \<Rightarrow> bool) \<Rightarrow> ('a \<Rightarrow> fs \<Rightarrow> bool) \<Rightarrow> goerr + 'a \<Rightarrow> fs \<Rightarrow> bool" where
  \<comment> \<open>a postcondition by outcome: after an error, after a value\<close>
  "on_ok E R r fs = (case r of Inl _ \<Rightarrow> E fs | Inr x \<Rightarrow> R x fs)"

lemma on_ok_simps [simp]: "on_ok E R (Inl e) fs = E fs" "on_ok E R (Inr x) fs = R x fs"
  by (simp_all add: on_ok_def)

lemma hoareD: "hoare P m Q \<Longrightarrow> P fs \<Longrightarrow> m fs = (r, fs') \<Longrightarrow> Q r fs'"
  by (simp add: hoare_def)

lemma hoare_return: "(\<And>fs. P fs \<Longrightarrow> Q (Inr x) fs) \<Longrightarrow> hoare P (io_return x) Q"
  by (simp add: hoare_def io_return_def)

lemma hoare_fail: "(\<And>fs. P fs \<Longrightarrow> Q (Inl e) fs) \<Longrightarrow> hoare P (io_fail e) Q"
  by (simp add: hoare_def io_fail_def)

lemma hoare_lift: "(\<And>fs. P fs \<Longrightarrow> Q r fs) \<Longrightarrow> hoare P (io_lift r) Q"
  by (simp add: hoare_def io_lift_def)

lemma hoare_conseq: "hoare P m Q \<Longrightarrow> (\<And>fs. P' fs \<Longrightarrow> P fs) \<Longrightarrow> (\<And>r fs. Q r fs \<Longrightarrow> Q' r fs) \<Longrightarrow> hoare P' m Q'"
  unfolding hoare_def by blast

lemma hoare_pre: "hoare P m Q \<Longrightarrow> (\<And>fs. P' fs \<Longrightarrow> P fs) \<Longrightarrow> hoare P' m Q"
  unfolding hoare_def by blast

lemma hoare_bind:
  assumes "hoare P m (on_ok E R)" "\<And>x. hoare (R x) (f x) (on_ok E Q)"
  shows "hoare P (io_bind m f) (on_ok E Q)"
  unfolding hoare_def
proof (intro allI impI)
  fix fs r fs' assume P: "P fs" and run: "io_bind m f fs = (r, fs')"
  obtain r1 fs1 where m: "m fs = (r1, fs1)" by fastforce
  from hoareD [OF assms(1) P m] have q: "on_ok E R r1 fs1" .
  show "on_ok E Q r fs'"
  proof (cases r1)
    case (Inl e)
    with run m q show ?thesis by (auto simp: io_bind_def)
  next
    case (Inr x)
    with run m q hoareD [OF assms(2)] show ?thesis by (auto simp: io_bind_def)
  qed
qed

lemma hoare_then: "hoare P m (on_ok E (\<lambda>_. R)) \<Longrightarrow> hoare R k (on_ok E Q) \<Longrightarrow> hoare P (io_then m k) (on_ok E Q)"
  unfolding io_then_def by (rule hoare_bind)

lemma hoare_try: "hoare P m (\<lambda>r. R r) \<Longrightarrow> hoare P (io_try m) (on_ok E R)"
  by (auto simp: hoare_def io_try_def split: prod.splits)

lemma hoare_each:
  assumes "\<And>x. x \<in> set xs \<Longrightarrow> hoare P (f x) (on_ok E (\<lambda>_. P))"
  shows "hoare P (io_each f xs) (on_ok E (\<lambda>_. P))"
  using assms by (induction xs) (auto intro: hoare_return hoare_then)

lemma hoare_Lstat: "hoare P (sys_Lstat s) (\<lambda>r fs. P fs \<and> fst (sys_Lstat s fs) = r)"
  by (auto simp: hoare_def sys_Lstat_def)

section \<open>The calls on paths without links\<close>

lemma sys_Lstat_dirs:
  assumes "list_all proper (q @ [c])" "dirs_to q fs"
  shows "sys_Lstat (abs_path (q @ [c])) fs = (case fs_get fs (q @ [c]) of None \<Rightarrow> Inl NotExist | Some n \<Rightarrow> Inr n, fs)"
  using resolve_dirs [OF assms] by (simp add: sys_Lstat_def)

lemma sys_create_dirs:
  assumes "list_all proper (q @ [c])" "dirs_to q fs"
  shows "sys_create n (abs_path (q @ [c])) fs =
    (if fs_get fs (q @ [c]) \<noteq> None then (Inl Exists, fs) else (Inr (), fs_put (q @ [c]) n fs))"
  using resolve_dirs [OF assms] by (simp add: sys_create_def)

lemma sys_RemoveAll_dirs:
  assumes "list_all proper (q @ [c])" "dirs_to q fs"
  shows "sys_RemoveAll (abs_path (q @ [c])) fs = (Inr (), fs_prune (q @ [c]) fs)"
  using resolve_dirs [OF assms] by (simp add: sys_RemoveAll_def)

lemma dirs_to_put: "dirs_to ds fs \<Longrightarrow> fs_get fs p = None \<Longrightarrow> p \<noteq> [] \<Longrightarrow> dirs_to ds (fs_put p n fs)"
  unfolding dirs_to_def by (metis fs_get_put option.distinct(1))

lemma dirs_to_same: "dirs_to ds fs \<Longrightarrow> (\<And>k. fs_get fs' (take k ds) = fs_get fs (take k ds)) \<Longrightarrow> dirs_to ds fs'"
  by (simp add: dirs_to_def)

lemma dirs_to_prune: "dirs_to ds fs \<Longrightarrow> \<not> prefix p ds \<Longrightarrow> p \<noteq> [] \<Longrightarrow> dirs_to ds (fs_prune p fs)"
  unfolding dirs_to_def by (metis fs_get_prune prefix_order.trans take_is_prefix)

lemma mkdir_all_dirs: "list_all proper (cur @ cs) \<Longrightarrow> dirs_to (cur @ cs) fs \<Longrightarrow> mkdir_all cur cs fs = (Inr (), fs)"
proof (induction cs arbitrary: cur)
  case Nil
  then show ?case by (simp add: io_return_def)
next
  case (Cons c cs)
  have d: "dirs_to (cur @ [c]) fs" using Cons.prems(2) dirs_to_prefix [of "cur @ [c]" cs] by simp
  then have "dirs_to cur fs" "fs_get fs (cur @ [c]) = Some Dir" by (simp_all add: dirs_to_snoc)
  moreover from this have "resolve True (abs_path (cur @ [c])) fs = Inr (cur @ [c])"
    using Cons.prems(1) by (intro resolve_dirs) auto
  ultimately show ?case
    using Cons.IH [of "cur @ [c]"] Cons.prems by (simp add: io_bind_def io_try_def)
qed

lemma sys_MkdirAll_dirs:
  assumes "list_all proper ds" "dirs_to ds fs"
  shows "sys_MkdirAll (abs_path ds) fs = (Inr (), fs)"
  using mkdir_all_dirs [of "[]" ds fs] assms path_parts_abs_path [OF assms(1)] by (simp add: sys_MkdirAll_def)

text \<open>Every node has a directory above it.\<close>

definition fs_tree :: "fs \<Rightarrow> bool" where
  "fs_tree fs \<longleftrightarrow> (\<forall>p c. fs_get fs (p @ [c]) \<noteq> None \<longrightarrow> fs_get fs p = Some Dir)"

lemma fs_tree_below:
  assumes "fs_tree fs" "fs_get fs p = None"
  shows "fs_get fs (p @ q) = None"
proof (induction q rule: rev_induct)
  case (snoc c q)
  with assms(1) have "fs_get fs ((p @ q) @ [c]) = None" unfolding fs_tree_def by (metis option.distinct(1))
  then show ?case by simp
qed (simp add: assms(2))

lemma fs_tree_put:
  assumes "fs_tree fs" "fs_get fs q = Some Dir" "fs_get fs (q @ [c]) = None"
  shows "fs_tree (fs_put (q @ [c]) n fs)"
  unfolding fs_tree_def
proof (intro allI impI)
  fix p d assume h: "fs_get (fs_put (q @ [c]) n fs) (p @ [d]) \<noteq> None"
  show "fs_get (fs_put (q @ [c]) n fs) p = Some Dir"
  proof (cases "p @ [d] = q @ [c]")
    case True
    with assms(2,3) show ?thesis by (auto simp: fs_get_put)
  next
    case False
    with h have "fs_get fs (p @ [d]) \<noteq> None" unfolding fs_get_put [of "q @ [c]", simplified] by (simp split: if_splits)
    with assms(1) have "fs_get fs p = Some Dir" unfolding fs_tree_def by blast
    with assms(3) show ?thesis by (auto simp: fs_get_put)
  qed
qed

lemma fs_tree_prune:
  assumes "fs_tree fs" "p \<noteq> []"
  shows "fs_tree (fs_prune p fs)"
  using assms unfolding fs_tree_def by (auto simp: fs_get_prune split: if_splits)

end
