(* ===== verification/File_Info.thy ===== *)
theory File_Info
  imports Api_Messages Go_Encoding "HOL-Library.Word" "HOL-Library.List_Lexorder" "HOL-Library.Char_ord"
    "HOL-Library.Multiset"
begin

text \<open>
  File information (\<open>pkg/fileutils/file_info.go\<close>): the record the shim hands to BuildKit, its
  conversion to a \<open>types.Stat\<close>, the ordering of \<open>FileInfos\<close>, and the decoding of the host's
  metadata. Modes and owners are 32-bit words as in the code. Times are nanoseconds since the epoch;
  parsing an RFC 3339 time is a parameter.
\<close>

unbundle bit_operations_syntax

type_synonym file_mode = "32 word"

abbreviation ModeDir :: file_mode where "ModeDir \<equiv> push_bit 31 1"
abbreviation ModeSymlink :: file_mode where "ModeSymlink \<equiv> push_bit 27 1"

definition ModeType :: file_mode where
  \<comment> \<open>directory, symlink, named pipe, socket, device, character device, irregular\<close>
  "ModeType = push_bit 31 1 OR push_bit 27 1 OR push_bit 25 1 OR push_bit 24 1 OR push_bit 26 1 OR push_bit 21 1 OR push_bit 19 1"

record file_info =
  fi_NameVal :: string
  fi_SizeVal :: int
  fi_ModeVal :: file_mode
  fi_ModTimeVal :: int
  fi_IsDirVal :: bool
  fi_Uid :: "32 word"
  fi_Gid :: "32 word"
  fi_LinkName :: string

text \<open>\<open>types.Stat\<close>, the fields that \<open>Sys\<close> sets.\<close>

record stat =
  st_Path :: string
  st_Mode :: "32 word"
  st_Uid :: "32 word"
  st_Gid :: "32 word"
  st_ModTime :: int
  st_Linkname :: string

definition FileInfo_Sys :: "file_info \<Rightarrow> stat" where
  "FileInfo_Sys f = \<lparr>st_Path = fi_NameVal f, st_Mode = fi_ModeVal f, st_Uid = fi_Uid f, st_Gid = fi_Gid f,
     st_ModTime = fi_ModTimeVal f, st_Linkname = fi_LinkName f\<rparr>"

section \<open>The sort interface\<close>

definition FileInfos_Less :: "file_info list \<Rightarrow> nat \<Rightarrow> nat \<Rightarrow> bool" where
  "FileInfos_Less f i j = (fi_NameVal (f ! i) < fi_NameVal (f ! j))"

definition FileInfos_Swap :: "file_info list \<Rightarrow> nat \<Rightarrow> nat \<Rightarrow> file_info list" where
  "FileInfos_Swap f i j = (let intermediate = f ! i; f' = f[i := f ! j] in f'[j := intermediate])"

section \<open>Decoding the host's metadata\<close>

definition TransformSize :: "smap \<Rightarrow> goerr + int" where
  "TransformSize md = (case map_of md ''size'' of Some s \<Rightarrow> ParseInt s 64 | None \<Rightarrow> Inr 0)"

definition parse_u32 :: "smap \<Rightarrow> string \<Rightarrow> goerr + 32 word" where
  "parse_u32 md key =
     (let s = go_get md key
      in if s = [] then Inr 0 else res_bind (ParseUint s 32) (\<lambda>val. Inr (of_nat val)))"

definition TransformFileMode :: "smap \<Rightarrow> goerr + file_mode" where
  "TransformFileMode md = parse_u32 md ''mode''"

definition TransformModTime :: "(string \<Rightarrow> goerr + int) \<Rightarrow> int \<Rightarrow> smap \<Rightarrow> goerr + int" where
  "TransformModTime time_Parse zero md =
     (let modifiedAt = go_get md ''modified_at''
      in if modifiedAt = [] then Inr zero else time_Parse modifiedAt)"

definition TransformUID :: "smap \<Rightarrow> goerr + 32 word" where
  "TransformUID md = parse_u32 md ''uid''"

definition TransformGID :: "smap \<Rightarrow> goerr + 32 word" where
  "TransformGID md = parse_u32 md ''gid''"

definition TransformLinkName :: "smap \<Rightarrow> string" where
  "TransformLinkName md = (case map_of md ''target'' of None \<Rightarrow> [] | Some l \<Rightarrow> l)"

text \<open>A missing \<open>Source\<close> is a nil pointer that the code dereferences: a panic, here an error of its own.\<close>

definition nil_dereference :: goerr where
  "nil_dereference = Errorf ''invalid memory address or nil pointer dereference''"

definition TransformIntoFileInfo :: "(string \<Rightarrow> goerr + int) \<Rightarrow> int \<Rightarrow> build_transfer \<Rightarrow> goerr + file_info" where
  "TransformIntoFileInfo time_Parse zero it =
     res_bind (TransformSize (bt_metadata it)) (\<lambda>Size.
     res_bind (TransformFileMode (bt_metadata it)) (\<lambda>Mode.
     res_bind (TransformModTime time_Parse zero (bt_metadata it)) (\<lambda>ModTime.
     res_bind (TransformUID (bt_metadata it)) (\<lambda>Uid.
     res_bind (TransformGID (bt_metadata it)) (\<lambda>Gid.
     case bt_source it of
       None \<Rightarrow> Inl nil_dereference
     | Some name \<Rightarrow>
         Inr \<lparr>fi_NameVal = name, fi_SizeVal = Size, fi_ModeVal = Mode, fi_ModTimeVal = ModTime,
              fi_IsDirVal = bt_is_directory it, fi_Uid = Uid, fi_Gid = Gid,
              fi_LinkName = TransformLinkName (bt_metadata it)\<rparr>)))))"

section \<open>Properties\<close>

lemma FileInfos_Swap_mset: "i < length f \<Longrightarrow> j < length f \<Longrightarrow> mset (FileInfos_Swap f i j) = mset f"
  by (simp add: FileInfos_Swap_def Let_def mset_swap)

lemma FileInfos_Less_order:
  "\<not> FileInfos_Less f i i"
  "FileInfos_Less f i j \<Longrightarrow> FileInfos_Less f j k \<Longrightarrow> FileInfos_Less f i k"
  by (auto simp: FileInfos_Less_def)

text \<open>
  The metadata of the documented response (the comment on \<open>Walk\<close> in \<open>pkg/fssync/walk.go\<close>): decimal
  size, mode and owners, the time as text.
\<close>

definition info_metadata :: "(int \<Rightarrow> string) \<Rightarrow> file_info \<Rightarrow> smap" where
  "info_metadata time_Format fi =
     [(''os'', ''linux''), (''stage'', ''fssync''), (''size'', FormatInt (fi_SizeVal fi)),
      (''mode'', nat_digits (unat (fi_ModeVal fi))), (''modified_at'', time_Format (fi_ModTimeVal fi)),
      (''uid'', nat_digits (unat (fi_Uid fi))), (''gid'', nat_digits (unat (fi_Gid fi))),
      (''target'', fi_LinkName fi)]"

lemma parse_u32_digits:
  assumes "map_of md key = Some (nat_digits (unat w))"
  shows "parse_u32 md key = Inr (w :: 32 word)"
proof -
  have "unat w < 2 ^ LENGTH(32)" by (rule unsigned_less)
  then have "unat w < 2 ^ 32" by simp
  then have "ParseUint (nat_digits (unat w)) 32 = Inr (unat w)" by (simp add: ParseUint_def parse_nat_digits)
  with assms show ?thesis by (simp add: parse_u32_def go_get_def)
qed


definition demo_info :: file_info where
  "demo_info = \<lparr>fi_NameVal = ''a/b'', fi_SizeVal = 5, fi_ModeVal = 420, fi_ModTimeVal = 7, fi_IsDirVal = False,
     fi_Uid = 1000, fi_Gid = 4294967295, fi_LinkName = []\<rparr>"

definition demo_response :: build_transfer where
  "demo_response = empty_build_transfer\<lparr>bt_source := Some ''a/b'', bt_metadata := info_metadata FormatInt demo_info\<rparr>"


text \<open>
  C12: Malformed metadata is refused. A size that is not a decimal 64-bit number, or a mode or owner
  that is present and not a decimal 32-bit number, makes \<open>TransformIntoFileInfo\<close> return an error;
  none is truncated into a value.
\<close>

theorem TransformIntoFileInfo_rejects:
  assumes "(\<exists>s e. map_of (bt_metadata it) ''size'' = Some s \<and> ParseInt s 64 = Inl e)
    \<or> (\<exists>key \<in> {''mode'', ''uid'', ''gid''}. \<exists>s e. map_of (bt_metadata it) key = Some s \<and> s \<noteq> [] \<and> ParseUint s 32 = Inl e)"
  shows "\<exists>e. TransformIntoFileInfo time_Parse zero it = Inl e"
proof (rule ccontr)
  assume "\<not> ?thesis"
  then obtain fi where "TransformIntoFileInfo time_Parse zero it = Inr fi" by (metis sumE)
  then obtain sz m u g where "TransformSize (bt_metadata it) = Inr sz" "parse_u32 (bt_metadata it) ''mode'' = Inr m"
    "parse_u32 (bt_metadata it) ''uid'' = Inr u" "parse_u32 (bt_metadata it) ''gid'' = Inr g"
    by (auto simp: TransformIntoFileInfo_def TransformFileMode_def TransformUID_def TransformGID_def result_simps)
  with assms show False by (auto simp: TransformSize_def parse_u32_def go_get_def Let_def)
qed

theorem TransformIntoFileInfo_rejects_witness:
  "\<exists>e. TransformIntoFileInfo (\<lambda>s. ParseInt s 64) 0 (demo_response\<lparr>bt_metadata := [(''uid'', ''4294967296'')]\<rparr>) = Inl e"
proof (rule TransformIntoFileInfo_rejects)
  have "ParseUint ''4294967296'' 32 = Inl RangeError" by (simp add: ParseUint_def digit_value_def)
  then show "(\<exists>s e. map_of (bt_metadata (demo_response\<lparr>bt_metadata := [(''uid'', ''4294967296'')]\<rparr>)) ''size'' = Some s \<and> ParseInt s 64 = Inl e)
    \<or> (\<exists>key \<in> {''mode'', ''uid'', ''gid''}. \<exists>s e. map_of (bt_metadata (demo_response\<lparr>bt_metadata := [(''uid'', ''4294967296'')]\<rparr>)) key = Some s
         \<and> s \<noteq> [] \<and> ParseUint s 32 = Inl e)"
    by simp
qed

end
