(* ===== verification/Tar_Cache.thy ===== *)
theory Tar_Cache
  imports File_System File_Info
begin

text \<open>
  The content-addressed context cache (\<open>pkg/fileutils/tarxfer.go\<close>): validation of digests, the
  completion marker, extraction of a tar archive below a directory, and the publication of an
  extracted tree under its digest.

  The tar reader and the hash are parameters: \<open>untar\<close> gives the entries that successive
  \<open>tr.Next()\<close> calls return for the bytes of a file, and how the sequence ends (None is
  \<open>io.EOF\<close>); \<open>sha256\<close> is the digest. \<open>ctx k\<close> is \<open>ctx.Err()\<close> at the \<open>k\<close>-th turn of the
  extraction loop.
\<close>

abbreviation DockerfileStaging :: string where "DockerfileStaging \<equiv> ''.com.apple.container''"
abbreviation cacheCompletionMarker :: string where "cacheCompletionMarker \<equiv> ''.container-builder-shim-complete''"
abbreviation cacheCompletionValue :: bytes where "cacheCompletionValue \<equiv> ''complete'' @ [CHR 0x0A]"

section \<open>Digests\<close>

definition validateContextDigest :: "string \<Rightarrow> goerr + unit" where
  "validateContextDigest checksum =
     (if length checksum \<noteq> 64 \<or> ToLower checksum \<noteq> checksum then Inl ErrInvalidContextDigest
      else
        (case hex_DecodeString checksum of
           Inl e \<Rightarrow> Inl ErrInvalidContextDigest
         | Inr decoded \<Rightarrow> if length decoded \<noteq> 32 then Inl ErrInvalidContextDigest else Inr ()))"

definition validateChecksum :: "string \<Rightarrow> goerr + unit" where
  "validateChecksum checksum = validateContextDigest checksum"

section \<open>The completion marker\<close>

definition checkCache :: "string \<Rightarrow> bool io" where
  "checkCache cachePath =
     io_bind (io_try (sys_Lstat cachePath)) (\<lambda>r. case r of
         Inl NotExist \<Rightarrow> io_return False
       | Inl err \<Rightarrow> io_fail err
       | Inr fi \<Rightarrow>
           if fi \<noteq> Dir then io_fail (Errorf ''cache path is not a directory'')
           else
             let markerPath = path_Join [cachePath, cacheCompletionMarker]
             in io_bind (io_try (sys_Lstat markerPath)) (\<lambda>r. case r of
                    Inl NotExist \<Rightarrow> io_return False
                  | Inl err \<Rightarrow> io_fail err
                  | Inr (Reg _ _) \<Rightarrow>
                      io_bind (sys_ReadFile markerPath) (\<lambda>marker. io_return (marker = cacheCompletionValue))
                  | Inr _ \<Rightarrow> io_fail (Errorf ''cache completion marker is not a regular file'')))"

definition CachedContextPresent :: "string \<Rightarrow> string \<Rightarrow> bool io" where
  "CachedContextPresent cacheBase checksum =
     io_then (io_lift (validateContextDigest checksum)) (checkCache (path_Join [cacheBase, checksum]))"

section \<open>Extraction\<close>

datatype typeflag = TypeDir | TypeReg | TypeSymlink | TypeLink | TypeOther char

text \<open>A tar entry with the bytes that \<open>io.Copy\<close> reads from it and the error that may end them.\<close>

record tar_entry =
  te_Name :: string
  te_Typeflag :: typeflag
  te_Linkname :: string
  te_Mode :: int
  te_body :: bytes
  te_err :: "goerr option"

definition tarTarget :: "string \<Rightarrow> string \<Rightarrow> goerr + string" where
  "tarTarget dest name =
     (let clean = Clean name
      in if clean = ''.'' \<or> \<not> IsLocal clean then Inl (Errorf ''invalid tar path'')
         else if clean = DockerfileStaging \<or> HasPrefix clean (DockerfileStaging @ [slash]) \<or> clean = cacheCompletionMarker
         then Inl (Errorf ''cannot use reserved path'')
         else Inr (path_Join [dest, clean]))"

fun ensure_parents :: "string \<Rightarrow> string list \<Rightarrow> unit io" where
  "ensure_parents current [] = io_return ()"
| "ensure_parents current (component # rest) =
     (if component = ''.'' then ensure_parents current rest
      else
        let current = path_Join [current, component]
        in io_bind (io_try (sys_Lstat current)) (\<lambda>r. case r of
               Inl NotExist \<Rightarrow> io_then (sys_Mkdir current) (ensure_parents current rest)
             | Inl err \<Rightarrow> io_fail err
             | Inr info \<Rightarrow>
                 if info \<noteq> Dir then io_fail (Errorf ''tar path crosses a non-directory'')
                 else ensure_parents current rest))"

definition ensurePathParent :: "string \<Rightarrow> string \<Rightarrow> unit io" where
  "ensurePathParent root target =
     (case path_Rel root target of
        Inl err \<Rightarrow> io_fail (Errorf ''invalid tar target'')
      | Inr relative \<Rightarrow>
          if \<not> IsLocal relative then io_fail (Errorf ''invalid tar target'')
          else ensure_parents root (Split (path_Dir relative) slash))"

definition ensureDirectory :: "string \<Rightarrow> string \<Rightarrow> unit io" where
  "ensureDirectory root target =
     io_then (ensurePathParent root target)
       (io_bind (io_try (sys_Lstat target)) (\<lambda>r. case r of
            Inl NotExist \<Rightarrow> sys_Mkdir target
          | Inl err \<Rightarrow> io_fail err
          | Inr info \<Rightarrow>
              if info \<noteq> Dir then io_fail (Errorf ''tar directory conflicts with existing path'')
              else io_return ()))"

definition ensureNewPath :: "string \<Rightarrow> string \<Rightarrow> unit io" where
  "ensureNewPath root target =
     io_then (ensurePathParent root target)
       (io_bind (io_try (sys_Lstat target)) (\<lambda>r. case r of
            Inr _ \<Rightarrow> io_fail (Errorf ''tar path already exists'')
          | Inl NotExist \<Rightarrow> io_return ()
          | Inl err \<Rightarrow> io_fail err))"

definition unpack_entry :: "string \<Rightarrow> tar_entry \<Rightarrow> unit io" where
  "unpack_entry dest hdr =
     io_bind (io_lift (tarTarget dest (te_Name hdr))) (\<lambda>target.
     case te_Typeflag hdr of
       TypeDir \<Rightarrow> ensureDirectory dest target
     | TypeReg \<Rightarrow>
         io_then (ensureNewPath dest target)
           (io_then (sys_create (Reg (nat (te_Mode hdr mod 512)) (te_body hdr)) target)
             (case te_err hdr of Some e \<Rightarrow> io_fail e | None \<Rightarrow> io_return ()))
     | TypeSymlink \<Rightarrow> io_then (ensureNewPath dest target) (sys_Symlink (te_Linkname hdr) target)
     | TypeLink \<Rightarrow>
         io_bind (io_lift (tarTarget dest (te_Linkname hdr))) (\<lambda>linkTarget.
         io_then (ensurePathParent dest linkTarget)
           (io_bind (sys_Lstat linkTarget) (\<lambda>info.
              case info of
                Reg _ _ \<Rightarrow> io_then (ensureNewPath dest target) (sys_Link linkTarget target)
              | _ \<Rightarrow> io_fail (Errorf ''hard link target is not a regular file''))))
     | TypeOther _ \<Rightarrow> io_fail (Errorf ''unsupported tar entry type''))"

fun unpack_loop :: "(nat \<Rightarrow> goerr option) \<Rightarrow> string \<Rightarrow> nat \<Rightarrow> tar_entry list \<Rightarrow> goerr option \<Rightarrow> unit io" where
  "unpack_loop ctx dest k [] fin =
     (case ctx k of
        Some e \<Rightarrow> io_fail e
      | None \<Rightarrow> (case fin of None \<Rightarrow> io_return () | Some e \<Rightarrow> io_fail e))"
| "unpack_loop ctx dest k (hdr # hdrs) fin =
     (case ctx k of
        Some e \<Rightarrow> io_fail e
      | None \<Rightarrow> io_then (unpack_entry dest hdr) (unpack_loop ctx dest (Suc k) hdrs fin))"

type_synonym untar_fn = "bytes \<Rightarrow> tar_entry list \<times> goerr option"

definition unpackTar :: "untar_fn \<Rightarrow> (nat \<Rightarrow> goerr option) \<Rightarrow> string \<Rightarrow> string \<Rightarrow> unit io" where
  "unpackTar untar ctx tarFile dest =
     io_then (sys_MkdirAll dest)
       (io_bind (sys_ReadFile tarFile) (\<lambda>raw. case untar raw of (hdrs, fin) \<Rightarrow> unpack_loop ctx dest 0 hdrs fin))"

section \<open>Publication\<close>

definition joinPath :: "string \<Rightarrow> string \<Rightarrow> string" where
  \<comment> \<open>how \<open>os.MkdirTemp\<close> joins the directory and the name\<close>
  "joinPath dir name = (if dir \<noteq> [] \<and> last dir = slash then dir @ name else dir @ [slash] @ name)"

definition writeTar :: "string list \<Rightarrow> string \<Rightarrow> bytes \<Rightarrow> string io" where
  \<comment> \<open>\<open>rnd\<close> are the random names that \<open>os.CreateTemp\<close> tries\<close>
  "writeTar rnd base dat =
     sys_temp (Reg 384 dat) (map (\<lambda>r. joinPath base (''.context-'' @ r @ ''.tar'')) rnd)"

definition verifyTarHash :: "(bytes \<Rightarrow> bytes) \<Rightarrow> string \<Rightarrow> string \<Rightarrow> unit io" where
  "verifyTarHash sha256 path checksum =
     io_bind (sys_ReadFile path) (\<lambda>d.
       let actual = hex_EncodeToString (sha256 d)
       in if actual \<noteq> checksum then io_fail (Errorf ''tar checksum mismatch'') else io_return ())"

definition io_on_error :: "'a io \<Rightarrow> unit io \<Rightarrow> 'a io" where
  \<comment> \<open>\<open>defer func() { if !published { cleanup } }()\<close>\<close>
  "io_on_error m cleanup fs =
     (case m fs of (Inl e, fs') \<Rightarrow> (Inl e, snd (cleanup fs')) | (Inr x, fs') \<Rightarrow> (Inr x, fs'))"

definition io_defer :: "'a io \<Rightarrow> unit io \<Rightarrow> 'a io" where
  "io_defer m cleanup fs = (case m fs of (r, fs') \<Rightarrow> (r, snd (cleanup fs')))"

definition open_lock :: "string \<Rightarrow> unit io" where
  \<comment> \<open>the lock file that \<open>flock\<close> opens with \<open>O_CREATE\<close>\<close>
  "open_lock lockPath =
     io_bind (io_try (sys_create (Reg 384 []) lockPath)) (\<lambda>r. case r of
         Inr _ \<Rightarrow> io_return () | Inl Exists \<Rightarrow> io_return () | Inl e \<Rightarrow> io_fail e)"

definition check_lock_path :: "string \<Rightarrow> unit io" where
  "check_lock_path lockPath =
     io_bind (io_try (sys_Lstat lockPath)) (\<lambda>r. case r of
         Inr (Sym _) \<Rightarrow> io_fail (Errorf ''cache lock path is a symlink'')
       | Inr _ \<Rightarrow> io_return ()
       | Inl err \<Rightarrow> if err = NotExist then io_return () else io_fail err)"

definition build_entry :: "untar_fn \<Rightarrow> (nat \<Rightarrow> goerr option) \<Rightarrow> string \<Rightarrow> string \<Rightarrow> string \<Rightarrow> unit io" where
  \<comment> \<open>extraction into the temporary directory, the marker, and the rename\<close>
  "build_entry untar ctx tarFile cacheDir tempDir =
     io_then (unpackTar untar ctx tarFile tempDir)
       (io_then (sys_WriteFile (path_Join [tempDir, cacheCompletionMarker]) cacheCompletionValue 384)
         (sys_Rename tempDir cacheDir))"

definition publish_locked :: "untar_fn \<Rightarrow> (nat \<Rightarrow> goerr option) \<Rightarrow> string list \<Rightarrow> string \<Rightarrow> string \<Rightarrow> string \<Rightarrow> unit io" where
  "publish_locked untar ctx rnd tarFile cacheDir cacheBase =
     io_bind (checkCache cacheDir) (\<lambda>cached.
       if cached then io_return ()
       else
         io_then (sys_RemoveAll cacheDir)
           (io_bind (sys_temp Dir (map (\<lambda>r. joinPath cacheBase (''.context-'' @ r)) rnd)) (\<lambda>tempDir.
              io_on_error (build_entry untar ctx tarFile cacheDir tempDir) (sys_RemoveAll tempDir))))"

text \<open>\<open>locked\<close> is the result of \<open>TryLockContext\<close>, \<open>rnd\<close> are the names that \<open>os.MkdirTemp\<close> tries.\<close>

definition publishTar ::
    "untar_fn \<Rightarrow> (nat \<Rightarrow> goerr option) \<Rightarrow> goerr + bool \<Rightarrow> string list \<Rightarrow> string \<Rightarrow> string \<Rightarrow> string \<Rightarrow> unit io" where
  "publishTar untar ctx locked rnd tarFile cacheDir cacheBase =
     (let lockPath = cacheDir @ ''.lock''
      in io_then (check_lock_path lockPath)
           (io_then (open_lock lockPath)
             (io_bind (io_lift locked) (\<lambda>got.
                if \<not> got then io_fail (Errorf ''failed to acquire cache lock'')
                else publish_locked untar ctx rnd tarFile cacheDir cacheBase))))"

section \<open>Digests are plain file names\<close>

lemma lower_char_upper: "of_char x \<in> {65..90::nat} \<Longrightarrow> lower_char x \<noteq> x"
proof
  assume up: "of_char x \<in> {65..90::nat}" and "lower_char x = x"
  then have "of_char (char_of (of_char x + 32 :: nat) :: char) = (of_char x :: nat)" by (simp add: lower_char_def)
  with up show False by (simp add: of_char_of)
qed

lemma hex_digit_iff: "hex_value x \<noteq> None \<and> lower_char x = x \<longleftrightarrow> x \<in> set ''0123456789abcdef''"
proof
  assume h: "hex_value x \<noteq> None \<and> lower_char x = x"
  then have "of_char x \<in> {48..57::nat} \<union> {97..102}"
    using lower_char_upper [of x] by (auto simp: hex_value_def Let_def split: if_splits)
  then have "of_char x \<in> set (map of_char ''0123456789abcdef'' :: nat list)" by simp presburger
  then obtain y where "y \<in> set ''0123456789abcdef''" "of_char x = (of_char y :: nat)"
    unfolding set_map by (rule imageE)
  then show "x \<in> set ''0123456789abcdef''" by (simp only: of_char_eq_iff)
qed (auto simp: hex_value_def lower_char_def Let_def)

lemma valid_digest_iff:
  "validateContextDigest d = Inr () \<longleftrightarrow> length d = 64 \<and> set d \<subseteq> set ''0123456789abcdef''"
proof -
  have lower: "ToLower d = d \<longleftrightarrow> list_all (\<lambda>x. lower_char x = x) d"
    by (induction d) (auto simp: ToLower_def)
  have len: "length bs = 32" if "hex_DecodeString d = Inr bs" "length d = 64" for bs
    using hex_DecodeString_length [OF that(1)] that(2) by simp
  have "validateContextDigest d = Inr () \<longleftrightarrow> length d = 64 \<and> ToLower d = d \<and> (\<exists>bs. hex_DecodeString d = Inr bs)"
    using len by (auto simp: validateContextDigest_def split: sum.splits)
  also have "\<dots> \<longleftrightarrow> length d = 64 \<and> (\<forall>x \<in> set d. hex_value x \<noteq> None \<and> lower_char x = x)"
    unfolding lower hex_DecodeString_ok_iff by (auto simp: list_all_iff)
  also have "\<dots> \<longleftrightarrow> length d = 64 \<and> set d \<subseteq> set ''0123456789abcdef''"
    unfolding hex_digit_iff by blast
  finally show ?thesis .
qed

lemma valid_digest_proper:
  assumes "validateContextDigest d = Inr ()"
  shows "proper d" "proper (d @ ''.lock'')" "hd d \<noteq> CHR ''.''"
proof -
  from assms have d: "length d = 64" "set d \<subseteq> set ''0123456789abcdef''" by (simp_all add: valid_digest_iff)
  then have ne: "d \<noteq> []" by auto
  with d(2) have hd: "hd d \<in> set ''0123456789abcdef''" by (meson hd_in_set subsetD)
  have sl: "slash \<notin> set d" using d(2) by auto
  show "hd d \<noteq> CHR ''.''" using hd by auto
  with ne sl show "proper d" "proper (d @ ''.lock'')" by (auto simp: proper_def Cons_eq_append_conv append_eq_Cons_conv)
qed

section \<open>Confinement\<close>

text \<open>
  \<open>confined ds fs0 fs\<close>: \<open>fs\<close> differs from \<open>fs0\<close> only below the directory \<open>ds\<close>, not in the
  staging directory there, and the marker of \<open>ds\<close> is absent or a directory.
\<close>

definition confined :: "path \<Rightarrow> fs \<Rightarrow> fs \<Rightarrow> bool" where
  "confined ds fs0 fs \<longleftrightarrow>
     dirs_to ds fs \<and>
     (\<forall>p. \<not> strict_prefix ds p \<or> prefix (ds @ [DockerfileStaging]) p \<longrightarrow> fs_get fs p = fs_get fs0 p) \<and>
     fs_get fs (ds @ [cacheCompletionMarker]) \<in> {None, Some Dir}"

lemma confined_put:
  assumes "confined ds fs0 fs" "fs_get fs (ds @ cs) = None" "cs \<noteq> []" "hd cs \<noteq> DockerfileStaging"
    and "cs = [cacheCompletionMarker] \<Longrightarrow> n = Dir"
  shows "confined ds fs0 (fs_put (ds @ cs) n fs)"
proof -
  have "p \<noteq> ds @ cs" if "\<not> strict_prefix ds p \<or> prefix (ds @ [DockerfileStaging]) p" for p
    using that assms(3,4) by (cases cs) (auto simp: strict_prefix_def)
  moreover have "dirs_to ds (fs_put (ds @ cs) n fs)" using assms(1-3) by (auto simp: confined_def intro: dirs_to_put)
  ultimately show ?thesis using assms by (auto simp: confined_def fs_get_put)
qed

lemma hoare_create:
  assumes "list_all proper (ds @ es @ [c])" "hd (es @ [c]) \<noteq> DockerfileStaging"
    and "es = [] \<Longrightarrow> c = cacheCompletionMarker \<Longrightarrow> n = Dir"
  shows "hoare (\<lambda>fs. confined ds fs0 fs \<and> dirs_to (ds @ es) fs) (sys_create n (abs_path (ds @ es @ [c])))
    (on_ok (confined ds fs0) (\<lambda>_ fs. confined ds fs0 fs \<and> (n = Dir \<longrightarrow> dirs_to (ds @ es @ [c]) fs)))"
  unfolding hoare_def
proof (intro allI impI)
  fix fs r fs'
  assume P: "confined ds fs0 fs \<and> dirs_to (ds @ es) fs" and run: "sys_create n (abs_path (ds @ es @ [c])) fs = (r, fs')"
  have "list_all proper ((ds @ es) @ [c])" "dirs_to (ds @ es) fs" using assms(1) P by simp_all
  note create = sys_create_dirs [OF this, of n, simplified]
  show "on_ok (confined ds fs0) (\<lambda>_ fs. confined ds fs0 fs \<and> (n = Dir \<longrightarrow> dirs_to (ds @ es @ [c]) fs)) r fs'"
  proof (cases "fs_get fs (ds @ es @ [c]) = None")
    case True
    with create run have r: "r = Inr ()" "fs' = fs_put (ds @ es @ [c]) n fs" by simp_all
    moreover have "confined ds fs0 fs'"
      using P True assms(2,3) confined_put [of ds fs0 fs "es @ [c]" n] r by simp
    moreover have "dirs_to ((ds @ es) @ [c]) fs'" if "n = Dir"
      unfolding dirs_to_snoc using P True that r by (simp add: dirs_to_put fs_get_put)
    ultimately show ?thesis by simp
  next
    case False
    with create run P show ?thesis by auto
  qed
qed

lemma hoare_Lstat_dirs:
  assumes "list_all proper (q @ [c])" "\<And>fs. P fs \<Longrightarrow> dirs_to q fs"
  shows "hoare P (sys_Lstat (abs_path (q @ [c])))
    (\<lambda>r fs. P fs \<and> r = (case fs_get fs (q @ [c]) of None \<Rightarrow> Inl NotExist | Some n \<Rightarrow> Inr n))"
  using sys_Lstat_dirs [OF assms(1) assms(2)] by (auto simp: hoare_def)

text \<open>A conditional call keeps what its two branches keep.\<close>

lemma hoare_stat_then:
  assumes "list_all proper (q @ [c])" "\<And>fs. P fs \<Longrightarrow> dirs_to q fs"
    and "hoare (\<lambda>fs. P fs \<and> fs_get fs (q @ [c]) = None) (f (Inl NotExist)) Q"
    and "\<And>n. hoare (\<lambda>fs. P fs \<and> fs_get fs (q @ [c]) = Some n) (f (Inr n)) Q"
  shows "hoare P (io_bind (io_try (sys_Lstat (abs_path (q @ [c])))) f) Q"
  unfolding hoare_def
proof (intro allI impI)
  fix fs r fs' assume P: "P fs" and run: "io_bind (io_try (sys_Lstat (abs_path (q @ [c])))) f fs = (r, fs')"
  show "Q r fs'"
  proof (cases "fs_get fs (q @ [c])")
    case None
    with run sys_Lstat_dirs [OF assms(1) assms(2) [OF P]] have "f (Inl NotExist) fs = (r, fs')"
      by (simp add: io_bind_def io_try_def)
    with hoareD [OF assms(3)] P None show ?thesis by simp
  next
    case (Some n)
    with run sys_Lstat_dirs [OF assms(1) assms(2) [OF P]] have "f (Inr n) fs = (r, fs')"
      by (simp add: io_bind_def io_try_def)
    with hoareD [OF assms(4)] P Some show ?thesis by simp
  qed
qed

lemma path_Join_snoc: "list_all proper (q @ [c]) \<Longrightarrow> path_Join [abs_path q, c] = abs_path (q @ [c])"
  using path_Join_abs [of q "[c]"] by simp

lemma hoare_ensure_parents:
  assumes "list_all proper (ds @ es @ cs)" "es @ cs \<noteq> [] \<Longrightarrow> hd (es @ cs) \<noteq> DockerfileStaging"
  shows "hoare (\<lambda>fs. confined ds fs0 fs \<and> dirs_to (ds @ es) fs) (ensure_parents (abs_path (ds @ es)) cs)
    (on_ok (confined ds fs0) (\<lambda>_ fs. confined ds fs0 fs \<and> dirs_to (ds @ es @ cs) fs))"
  using assms
proof (induction cs arbitrary: es)
  case Nil
  then show ?case by (auto intro: hoare_return)
next
  case (Cons c cs)
  have q: "list_all proper ((ds @ es) @ [c])" using Cons.prems(1) by simp
  then have c: "c \<noteq> ''.''" by auto
  let ?P = "\<lambda>fs. confined ds fs0 fs \<and> dirs_to (ds @ es) fs"
  have IH: "hoare (\<lambda>fs. confined ds fs0 fs \<and> dirs_to (ds @ es @ [c]) fs) (ensure_parents (abs_path (ds @ es @ [c])) cs)
    (on_ok (confined ds fs0) (\<lambda>_ fs. confined ds fs0 fs \<and> dirs_to (ds @ es @ c # cs) fs))"
    using Cons.IH [of "es @ [c]"] Cons.prems by simp
  have mk: "hoare ?P (sys_Mkdir (abs_path (ds @ es @ [c])))
    (on_ok (confined ds fs0) (\<lambda>_ fs. confined ds fs0 fs \<and> dirs_to (ds @ es @ [c]) fs))"
    using hoare_create [of ds es c Dir fs0] Cons.prems by (cases es) auto
  show ?case
    unfolding ensure_parents.simps Let_def path_Join_snoc [OF q] if_not_P [OF c]
  proof (rule hoare_stat_then [OF q], goal_cases)
    case (2)
    from hoare_then [OF mk IH] show ?case by (simp, rule hoare_pre) simp
  next
    case (3 n)
    show ?case
    proof (cases "n = Dir")
      case True
      have "hoare (\<lambda>fs. ?P fs \<and> fs_get fs ((ds @ es) @ [c]) = Some n) (ensure_parents (abs_path (ds @ es @ [c])) cs)
        (on_ok (confined ds fs0) (\<lambda>_ fs. confined ds fs0 fs \<and> dirs_to (ds @ es @ c # cs) fs))"
        using dirs_to_snoc [of "ds @ es" c] True by (intro hoare_pre [OF IH]) simp
      with True show ?thesis by simp
    next
      case False
      then show ?thesis by (auto intro: hoare_fail)
    qed
  qed simp
qed

lemma hoare_ensurePathParent:
  assumes "list_all proper (ds @ cs)" "cs \<noteq> []" "hd cs \<noteq> DockerfileStaging"
  shows "hoare (confined ds fs0) (ensurePathParent (abs_path ds) (abs_path (ds @ cs)))
    (on_ok (confined ds fs0) (\<lambda>_ fs. confined ds fs0 fs \<and> dirs_to (ds @ butlast cs) fs))"
proof -
  have p: "list_all proper ds" "list_all proper cs" using assms(1) by simp_all
  have rel: "path_Rel (abs_path ds) (abs_path (ds @ cs)) = Inr (Join cs [slash])" "IsLocal (Join cs [slash])"
    using path_Rel_abs IsLocal_Join_proper p assms(2) by blast+
  let ?Q = "on_ok (confined ds fs0) (\<lambda>_ fs. confined ds fs0 fs \<and> dirs_to (ds @ butlast cs) fs)"
  have "hoare (confined ds fs0) (ensure_parents (abs_path ds) (Split (path_Dir (Join cs [slash])) slash)) ?Q"
  proof (cases "length cs = 1")
    case True
    then have "butlast cs = []" by (cases cs) auto
    with True path_Dir_Join [OF assms(2) p(2)] show ?thesis
      by (auto intro!: hoare_return simp: confined_def)
  next
    case False
    then have ne: "butlast cs \<noteq> []" using assms(2) by (cases cs) auto
    have bl: "list_all proper (butlast cs)" using p(2) by (auto simp: list_all_iff dest: in_set_butlastD)
    have "Split (path_Dir (Join cs [slash])) slash = butlast cs"
      using path_Dir_Join [OF assms(2) p(2)] False Split_Join_proper [OF ne bl] by simp
    moreover have "hd (butlast cs) = hd cs" using ne by (cases cs) auto
    moreover have "dirs_to ds fs" if "confined ds fs0 fs" for fs using that by (simp add: confined_def)
    ultimately show ?thesis
      using hoare_pre [OF hoare_ensure_parents [of ds "[]" "butlast cs" fs0], of "confined ds fs0"] p(1) bl assms(3)
      by simp
  qed
  with rel show ?thesis by (simp add: ensurePathParent_def)
qed

text \<open>The extraction target of an entry: below the destination, clear of the reserved names.\<close>

definition safe_target :: "path \<Rightarrow> path \<Rightarrow> bool" where
  "safe_target ds cs \<longleftrightarrow>
     list_all proper (ds @ cs) \<and> cs \<noteq> [] \<and> hd cs \<noteq> DockerfileStaging \<and> cs \<noteq> [cacheCompletionMarker]"

lemma tarTarget_safe:
  assumes "tarTarget (abs_path ds) name = Inr t" "list_all proper ds"
  obtains cs where "safe_target ds cs" "t = abs_path (ds @ cs)"
proof -
  from assms(1) have c: "Clean name \<noteq> ''.''" "IsLocal (Clean name)" "Clean name \<noteq> DockerfileStaging"
      "\<not> HasPrefix (Clean name) (DockerfileStaging @ [slash])" "Clean name \<noteq> cacheCompletionMarker"
      "t = path_Join [abs_path ds, Clean name]"
    by (auto simp: tarTarget_def Let_def split: if_splits)
  from Clean_local_cases [OF c(2,1)] obtain cs where cs: "cs \<noteq> []" "list_all proper cs" "Clean name = Join cs [slash]" .
  have "hd cs \<noteq> DockerfileStaging"
  proof
    assume h: "hd cs = DockerfileStaging"
    show False
    proof (cases "tl cs = []")
      case True
      with h cs(1) have "cs = [DockerfileStaging]" by (cases cs) auto
      with cs(3) c(3) show False by simp
    next
      case False
      from h cs(1) have "cs = DockerfileStaging # tl cs" by (metis list.collapse)
      then have "Join cs [slash] = DockerfileStaging @ [slash] @ Join (tl cs) [slash]"
        using Join_Cons [OF False] by metis
      with c(4) cs(3) show False unfolding HasPrefix_iff by (metis append.assoc)
    qed
  qed
  moreover have "cs \<noteq> [cacheCompletionMarker]" using c(5) cs(3) by auto
  ultimately have "safe_target ds cs" using cs assms(2) by (simp add: safe_target_def)
  moreover have "t = abs_path (ds @ cs)" using c(6) cs path_Join_abs [OF assms(2) cs(1,2)] by simp
  ultimately show thesis by (rule that)
qed

lemma safe_target_snoc:
  assumes "safe_target ds cs"
  shows "list_all proper ((ds @ butlast cs) @ [last cs])" "abs_path (ds @ cs) = abs_path ((ds @ butlast cs) @ [last cs])"
  using assms by (simp_all add: safe_target_def)

lemma hoare_create_safe:
  assumes "safe_target ds cs"
  shows "hoare (\<lambda>fs. confined ds fs0 fs \<and> dirs_to (ds @ butlast cs) fs) (sys_create n (abs_path (ds @ cs)))
    (on_ok (confined ds fs0) (\<lambda>_. confined ds fs0))"
proof -
  have cs: "butlast cs @ [last cs] = cs" using assms by (simp add: safe_target_def)
  have "hoare (\<lambda>fs. confined ds fs0 fs \<and> dirs_to (ds @ butlast cs) fs) (sys_create n (abs_path (ds @ butlast cs @ [last cs])))
    (on_ok (confined ds fs0) (\<lambda>_ fs. confined ds fs0 fs \<and> (n = Dir \<longrightarrow> dirs_to (ds @ butlast cs @ [last cs]) fs)))"
    using assms cs by (intro hoare_create) (auto simp: safe_target_def)
  then show ?thesis unfolding cs by (rule hoare_conseq) (auto simp: on_ok_def split: sum.splits)
qed

lemma hoare_ensureNewPath:
  assumes "safe_target ds cs"
  shows "hoare (confined ds fs0) (ensureNewPath (abs_path ds) (abs_path (ds @ cs)))
    (on_ok (confined ds fs0) (\<lambda>_ fs. confined ds fs0 fs \<and> dirs_to (ds @ butlast cs) fs))"
  unfolding ensureNewPath_def
proof (rule hoare_then)
  show "hoare (confined ds fs0) (ensurePathParent (abs_path ds) (abs_path (ds @ cs)))
    (on_ok (confined ds fs0) (\<lambda>_ fs. confined ds fs0 fs \<and> dirs_to (ds @ butlast cs) fs))"
    using assms by (intro hoare_ensurePathParent) (auto simp: safe_target_def)
  show "hoare (\<lambda>fs. confined ds fs0 fs \<and> dirs_to (ds @ butlast cs) fs)
     (io_bind (io_try (sys_Lstat (abs_path (ds @ cs)))) (\<lambda>r. case r of
            Inr _ \<Rightarrow> io_fail (Errorf ''tar path already exists'')
          | Inl NotExist \<Rightarrow> io_return ()
          | Inl err \<Rightarrow> io_fail err))
     (on_ok (confined ds fs0) (\<lambda>_ fs. confined ds fs0 fs \<and> dirs_to (ds @ butlast cs) fs))"
    unfolding safe_target_snoc(2) [OF assms]
    by (rule hoare_stat_then [OF safe_target_snoc(1) [OF assms]]) (auto intro: hoare_return hoare_fail)
qed

lemma hoare_ensureDirectory:
  assumes "safe_target ds cs"
  shows "hoare (confined ds fs0) (ensureDirectory (abs_path ds) (abs_path (ds @ cs)))
    (on_ok (confined ds fs0) (\<lambda>_. confined ds fs0))"
  unfolding ensureDirectory_def
proof (rule hoare_then)
  show "hoare (confined ds fs0) (ensurePathParent (abs_path ds) (abs_path (ds @ cs)))
    (on_ok (confined ds fs0) (\<lambda>_ fs. confined ds fs0 fs \<and> dirs_to (ds @ butlast cs) fs))"
    using assms by (intro hoare_ensurePathParent) (auto simp: safe_target_def)
  show "hoare (\<lambda>fs. confined ds fs0 fs \<and> dirs_to (ds @ butlast cs) fs)
     (io_bind (io_try (sys_Lstat (abs_path (ds @ cs)))) (\<lambda>r. case r of
            Inl NotExist \<Rightarrow> sys_Mkdir (abs_path (ds @ cs))
          | Inl err \<Rightarrow> io_fail err
          | Inr info \<Rightarrow>
              if info \<noteq> Dir then io_fail (Errorf ''tar directory conflicts with existing path'')
              else io_return ()))
     (on_ok (confined ds fs0) (\<lambda>_. confined ds fs0))"
    unfolding safe_target_snoc(2) [OF assms]
  proof (rule hoare_stat_then [OF safe_target_snoc(1) [OF assms]], goal_cases)
    case 2
    show ?case
      unfolding safe_target_snoc(2) [OF assms, symmetric] sum.case goerr.case
      by (rule hoare_pre [OF hoare_create_safe [OF assms]]) simp
  qed (auto intro: hoare_return hoare_fail)
qed

lemma hoare_Link:
  assumes "safe_target ds cs"
  shows "hoare (\<lambda>fs. confined ds fs0 fs \<and> dirs_to (ds @ butlast cs) fs) (sys_Link old (abs_path (ds @ cs)))
    (on_ok (confined ds fs0) (\<lambda>_. confined ds fs0))"
  unfolding sys_Link_def
proof (rule hoare_bind [where R = "\<lambda>_ fs. confined ds fs0 fs \<and> dirs_to (ds @ butlast cs) fs"], goal_cases)
  case 1
  show ?case by (rule hoare_conseq [OF hoare_Lstat]) (simp_all add: on_ok_def split: sum.split)
next
  case (2 n)
  show ?case using hoare_create_safe [OF assms] by (cases "n = Dir") (auto intro: hoare_fail)
qed

lemma hoare_keep_Lstat: "hoare P (sys_Lstat s) (on_ok P (\<lambda>_. P))"
  by (auto simp: hoare_def sys_Lstat_def on_ok_def split: sum.split)

lemma hoare_keep_ReadFile: "hoare P (sys_ReadFile s) (on_ok P (\<lambda>_. P))"
  by (auto simp: hoare_def sys_ReadFile_def on_ok_def split: sum.split)

text \<open>The lifted result of a pure function is available to what follows.\<close>

lemma hoare_lift_bind:
  assumes "\<And>fs. P fs \<Longrightarrow> E fs" "\<And>x. r = Inr x \<Longrightarrow> hoare P (f x) (on_ok E Q)"
  shows "hoare P (io_bind (io_lift r) f) (on_ok E Q)"
  using assms by (cases r) (auto simp: hoare_def io_bind_def io_lift_def)

lemma hoare_unpack_entry:
  assumes "list_all proper ds"
  shows "hoare (confined ds fs0) (unpack_entry (abs_path ds) hdr) (on_ok (confined ds fs0) (\<lambda>_. confined ds fs0))"
  unfolding unpack_entry_def
proof (rule hoare_lift_bind, assumption, goal_cases)
  case (1 t)
  then obtain cs where cs: "safe_target ds cs" and t: "t = abs_path (ds @ cs)" using assms by (rule tarTarget_safe)
  note new = hoare_then [OF hoare_ensureNewPath [OF cs]]
  let ?Q = "on_ok (confined ds fs0) (\<lambda>_::unit. confined ds fs0)"
  have link: "hoare (confined ds fs0)
     (io_bind (io_lift (tarTarget (abs_path ds) (te_Linkname hdr))) (\<lambda>lt.
         io_then (ensurePathParent (abs_path ds) lt)
           (io_bind (sys_Lstat lt) (\<lambda>info.
              case info of
                Reg _ _ \<Rightarrow> io_then (ensureNewPath (abs_path ds) t) (sys_Link lt t)
              | _ \<Rightarrow> io_fail (Errorf ''hard link target is not a regular file''))))) ?Q"
  proof (rule hoare_lift_bind, assumption, goal_cases)
    case (1 lt)
    then obtain ls where ls: "safe_target ds ls" and lt: "lt = abs_path (ds @ ls)" using assms by (rule tarTarget_safe)
    have "hoare (confined ds fs0) (ensurePathParent (abs_path ds) lt) (on_ok (confined ds fs0) (\<lambda>_. confined ds fs0))"
      unfolding lt using ls
      by (intro hoare_conseq [OF hoare_ensurePathParent]) (auto simp: safe_target_def on_ok_def split: sum.splits)
    moreover have "hoare (confined ds fs0) (case info of
                Reg _ _ \<Rightarrow> io_then (ensureNewPath (abs_path ds) t) (sys_Link lt t)
              | _ \<Rightarrow> io_fail (Errorf ''hard link target is not a regular file'')) ?Q" for info
      unfolding t using new [OF hoare_Link [OF cs]] by (cases info) (auto intro: hoare_fail)
    ultimately show ?case
      by (intro hoare_then [OF _ hoare_bind [OF hoare_keep_Lstat]])
  qed
  have reg: "hoare (confined ds fs0) (io_then (ensureNewPath (abs_path ds) t) (io_then (sys_create n t)
      (case te_err hdr of Some e \<Rightarrow> io_fail e | None \<Rightarrow> io_return ()))) ?Q" for n
    unfolding t by (rule new [OF hoare_then [OF hoare_create_safe [OF cs]]]) (auto intro: hoare_fail hoare_return split: option.split)
  show ?case
  proof (cases "te_Typeflag hdr")
    case TypeSymlink
    then show ?thesis unfolding t by simp (rule new [OF hoare_create_safe [OF cs]])
  qed (use t hoare_ensureDirectory [OF cs] reg link in \<open>auto intro: hoare_fail\<close>)
qed

lemma hoare_unpack_loop:
  assumes "list_all proper ds"
  shows "hoare (confined ds fs0) (unpack_loop ctx (abs_path ds) k hdrs fin) (on_ok (confined ds fs0) (\<lambda>_. confined ds fs0))"
proof (induction hdrs arbitrary: k)
  case Nil
  show ?case by (auto intro: hoare_fail hoare_return split: option.split)
next
  case (Cons hdr hdrs)
  with hoare_unpack_entry [OF assms] show ?case by (auto intro: hoare_fail hoare_then split: option.split)
qed

lemma hoare_unpackTar:
  assumes "list_all proper ds"
  shows "hoare (confined ds fs0) (unpackTar untar ctx tarFile (abs_path ds)) (on_ok (confined ds fs0) (\<lambda>_. confined ds fs0))"
proof -
  have "hoare (confined ds fs0) (sys_MkdirAll (abs_path ds)) (on_ok (confined ds fs0) (\<lambda>_. confined ds fs0))"
    using sys_MkdirAll_dirs [OF assms] by (auto simp: hoare_def confined_def)
  moreover have "hoare (confined ds fs0) (case untar raw of (hdrs, fin) \<Rightarrow> unpack_loop ctx (abs_path ds) 0 hdrs fin)
      (on_ok (confined ds fs0) (\<lambda>_. confined ds fs0))" for raw
    using hoare_unpack_loop [OF assms] by (cases "untar raw") simp
  ultimately show ?thesis
    unfolding unpackTar_def by (intro hoare_then [OF _ hoare_bind [OF hoare_keep_ReadFile]])
qed

section \<open>Publication\<close>

lemma abs_path_snoc: "bs \<noteq> [] \<Longrightarrow> abs_path (bs @ [c]) = abs_path bs @ slash # c"
  unfolding abs_path_def by (induction bs rule: induct_list012) auto

lemma last_abs_path:
  assumes "bs \<noteq> []" "list_all proper bs"
  shows "last (abs_path bs) \<noteq> slash"
proof -
  obtain as b where bs: "bs = as @ [b]" using assms(1) by (metis append_butlast_last_id)
  with assms(2) have b: "b \<noteq> []" "slash \<notin> set b" by (auto simp: proper_def)
  have "last (abs_path bs) = last b"
  proof (cases "as = []")
    case False
    with b(1) bs show ?thesis by (simp add: abs_path_snoc)
  qed (use b bs in \<open>simp add: abs_path_def\<close>)
  with b show ?thesis by (metis last_in_set)
qed

lemma joinPath_abs: "bs \<noteq> [] \<Longrightarrow> list_all proper bs \<Longrightarrow> joinPath (abs_path bs) c = abs_path (bs @ [c])"
  using last_abs_path [of bs] by (simp add: joinPath_def abs_path_snoc)

lemma sys_temp_cases:
  assumes "sys_temp n (map (\<lambda>c. abs_path (q @ [c])) cs) fs = (r, fs')" "dirs_to q fs"
    and "\<forall>c \<in> set cs. list_all proper (q @ [c])"
  obtains e where "r = Inl e" "fs' = fs"
  | c where "c \<in> set cs" "fs_get fs (q @ [c]) = None" "r = Inr (abs_path (q @ [c]))" "fs' = fs_put (q @ [c]) n fs"
  using assms
proof (induction cs arbitrary: thesis)
  case (Cons c cs)
  have c: "list_all proper (q @ [c])" using Cons.prems(5) by simp
  show ?case
  proof (cases "fs_get fs (q @ [c]) = None")
    case True
    then have "sys_temp n (map (\<lambda>c. abs_path (q @ [c])) (c # cs)) fs = (Inr (abs_path (q @ [c])), fs_put (q @ [c]) n fs)"
      using sys_create_dirs [OF c Cons.prems(4)] by (simp add: io_bind_def io_try_def io_return_def)
    with Cons.prems(3) True show ?thesis by (intro Cons.prems(2) [of c]) auto
  next
    case False
    then have "sys_temp n (map (\<lambda>c. abs_path (q @ [c])) (c # cs)) fs = sys_temp n (map (\<lambda>c. abs_path (q @ [c])) cs) fs"
      using sys_create_dirs [OF c Cons.prems(4)] by (simp add: io_bind_def io_try_def)
    with Cons.prems(3) have "sys_temp n (map (\<lambda>c. abs_path (q @ [c])) cs) fs = (r, fs')" by metis
    then show ?thesis
    proof (rule Cons.IH [rotated 2])
      show "\<forall>c \<in> set cs. list_all proper (q @ [c])" using Cons.prems(5) by simp
    qed (use Cons.prems(1,2,4) in auto)
  qed
qed (auto simp: io_fail_def)

lemma checkCache_pure: "snd (checkCache s fs) = fs"
  by (auto simp: checkCache_def io_bind_def io_try_def io_return_def io_fail_def sys_Lstat_def sys_ReadFile_def Let_def
      split: sum.split goerr.split node.split)

lemma checkCache_complete:
  assumes "list_all proper (q @ [d])" "dirs_to (q @ [d]) fs"
    and "fs_get fs (q @ [d, cacheCompletionMarker]) = Some (Reg m cacheCompletionValue)"
  shows "fst (checkCache (abs_path (q @ [d])) fs) = Inr True"
proof -
  have p: "list_all proper ((q @ [d]) @ [cacheCompletionMarker])" using assms(1) by (simp add: proper_def)
  have "dirs_to q fs" "fs_get fs (q @ [d]) = Some Dir" using assms(2) by (simp_all add: dirs_to_snoc)
  then have "sys_Lstat (abs_path (q @ [d])) fs = (Inr Dir, fs)" using sys_Lstat_dirs [OF assms(1)] by simp
  moreover have "sys_Lstat (abs_path ((q @ [d]) @ [cacheCompletionMarker])) fs = (Inr (Reg m cacheCompletionValue), fs)"
    using sys_Lstat_dirs [OF p assms(2)] assms(3) by simp
  moreover have "resolve True (abs_path ((q @ [d]) @ [cacheCompletionMarker])) fs = Inr ((q @ [d]) @ [cacheCompletionMarker])"
    using assms(3) by (intro resolve_dirs [OF p assms(2)]) simp
  ultimately show ?thesis
    unfolding checkCache_def path_Join_snoc [OF p] Let_def
    by (simp add: io_bind_def io_try_def io_return_def sys_ReadFile_def assms(3))
qed

definition only_below :: "path \<Rightarrow> fs \<Rightarrow> fs \<Rightarrow> bool" where
  \<comment> \<open>the directory \<open>q\<close> exists and nothing outside it has changed\<close>
  "only_below q fs0 fs \<longleftrightarrow> dirs_to q fs \<and> (\<forall>p. \<not> prefix q p \<longrightarrow> fs_get fs p = fs_get fs0 p)"

lemma confined_only_below: "confined q fs0 fs \<Longrightarrow> only_below q fs0 fs"
  by (simp add: confined_def only_below_def strict_prefix_def)

lemma hoare_write_marker:
  assumes "list_all proper q"
  shows "hoare (confined q fs0) (sys_WriteFile (path_Join [abs_path q, cacheCompletionMarker]) cacheCompletionValue 384)
    (on_ok (only_below q fs0)
      (\<lambda>_ fs. only_below q fs0 fs \<and> fs_get fs (q @ [cacheCompletionMarker]) = Some (Reg 384 cacheCompletionValue)))"
  unfolding hoare_def
proof (intro allI impI)
  fix fs r fs'
  let ?m = "q @ [cacheCompletionMarker]"
  assume P: "confined q fs0 fs"
    and run: "sys_WriteFile (path_Join [abs_path q, cacheCompletionMarker]) cacheCompletionValue 384 fs = (r, fs')"
  have p: "list_all proper ?m" using assms by (simp add: proper_def)
  have m: "fs_get fs ?m \<in> {None, Some Dir}" and d: "dirs_to q fs" using P by (simp_all add: confined_def)
  have "resolve True (abs_path ?m) fs = Inr ?m" using m by (intro resolve_dirs [OF p d]) auto
  then have w: "sys_WriteFile (abs_path ?m) cacheCompletionValue 384 fs = (case fs_get fs ?m of
      None \<Rightarrow> (Inr (), fs_put ?m (Reg 384 cacheCompletionValue) fs) | Some _ \<Rightarrow> (Inl (Errorf ''is a directory''), fs))"
    using m by (auto simp: sys_WriteFile_def)
  note P' = confined_only_below [OF P]
  show "on_ok (only_below q fs0) (\<lambda>_ fs. only_below q fs0 fs \<and> fs_get fs ?m = Some (Reg 384 cacheCompletionValue)) r fs'"
  proof (cases "fs_get fs ?m")
    case None
    then have "r = Inr ()" "fs' = fs_put ?m (Reg 384 cacheCompletionValue) fs"
      using run w unfolding path_Join_snoc [OF p] by simp_all
    with P' None show ?thesis by (auto simp: only_below_def fs_get_put dirs_to_put)
  next
    case (Some n)
    then show ?thesis using run w P' unfolding path_Join_snoc [OF p] by auto
  qed
qed

definition published :: "path \<Rightarrow> string \<Rightarrow> string \<Rightarrow> fs \<Rightarrow> fs \<Rightarrow> bool" where
  "published bs d tmp fs0 fs \<longleftrightarrow>
     fs_get fs (bs @ [d]) = Some Dir \<and>
     fs_get fs (bs @ [d, cacheCompletionMarker]) = Some (Reg 384 cacheCompletionValue) \<and>
     (\<forall>p. \<not> prefix (bs @ [d]) p \<longrightarrow> fs_get fs p = (if prefix (bs @ [tmp]) p then None else fs_get fs0 p))"

lemma hoare_rename_entry:
  assumes "list_all proper (bs @ [d])" "list_all proper (bs @ [tmp])" "d \<noteq> tmp" "fs_get fs0 (bs @ [d]) = None"
  shows "hoare (\<lambda>fs. only_below (bs @ [tmp]) fs0 fs \<and>
       fs_get fs (bs @ [tmp, cacheCompletionMarker]) = Some (Reg 384 cacheCompletionValue))
    (sys_Rename (abs_path (bs @ [tmp])) (abs_path (bs @ [d])))
    (on_ok (only_below (bs @ [tmp]) fs0) (\<lambda>_. published bs d tmp fs0))"
  unfolding hoare_def
proof (intro allI impI, elim conjE)
  fix fs r fs'
  assume P: "only_below (bs @ [tmp]) fs0 fs"
    and m: "fs_get fs (bs @ [tmp, cacheCompletionMarker]) = Some (Reg 384 cacheCompletionValue)"
    and run: "sys_Rename (abs_path (bs @ [tmp])) (abs_path (bs @ [d])) fs = (r, fs')"
  have par: "(bs @ [tmp]) \<parallel> (bs @ [d])" using assms(3) by (intro parallelI) auto
  have dirs: "dirs_to bs fs" "fs_get fs (bs @ [tmp]) = Some Dir" using P by (simp_all add: only_below_def dirs_to_snoc)
  have free: "fs_get fs (bs @ [d]) = None" using P assms(3,4) by (auto simp: only_below_def)
  have "sys_Rename (abs_path (bs @ [tmp])) (abs_path (bs @ [d])) fs = (Inr (), fs_move (bs @ [tmp]) (bs @ [d]) fs)"
    using resolve_dirs [OF assms(1) dirs(1)] resolve_dirs [OF assms(2) dirs(1)] dirs(2) free assms(3)
    by (simp add: sys_Rename_def)
  with run have r: "r = Inr ()" "fs' = fs_move (bs @ [tmp]) (bs @ [d]) fs" by simp_all
  have get: "fs_get fs' p = (if prefix (bs @ [d]) p then fs_get fs ((bs @ [tmp]) @ drop (length (bs @ [d])) p)
      else if prefix (bs @ [tmp]) p then None else fs_get fs p)" for p
    unfolding r(2) by (rule fs_get_move [OF _ _ par]) simp_all
  have "published bs d tmp fs0 fs'"
    unfolding published_def
  proof (intro conjI allI impI)
    show "fs_get fs' (bs @ [d]) = Some Dir" using get [of "bs @ [d]"] dirs(2) by simp
    show "fs_get fs' (bs @ [d, cacheCompletionMarker]) = Some (Reg 384 cacheCompletionValue)"
      using get [of "bs @ [d, cacheCompletionMarker]"] m by simp
    fix p assume "\<not> prefix (bs @ [d]) p"
    with get [of p] P show "fs_get fs' p = (if prefix (bs @ [tmp]) p then None else fs_get fs0 p)"
      by (simp add: only_below_def)
  qed
  with r show "on_ok (only_below (bs @ [tmp]) fs0) (\<lambda>_. published bs d tmp fs0) r fs'" by simp
qed

lemma hoare_build_entry:
  assumes "list_all proper (bs @ [d])" "list_all proper (bs @ [tmp])" "d \<noteq> tmp" "fs_get fs0 (bs @ [d]) = None"
  shows "hoare (confined (bs @ [tmp]) fs0)
    (build_entry untar ctx tarFile (abs_path (bs @ [d])) (abs_path (bs @ [tmp])))
    (on_ok (only_below (bs @ [tmp]) fs0) (\<lambda>_. published bs d tmp fs0))"
  unfolding build_entry_def
proof (rule hoare_then)
  show "hoare (confined (bs @ [tmp]) fs0) (unpackTar untar ctx tarFile (abs_path (bs @ [tmp])))
    (on_ok (only_below (bs @ [tmp]) fs0) (\<lambda>_. confined (bs @ [tmp]) fs0))"
    by (rule hoare_conseq [OF hoare_unpackTar [OF assms(2)]])
      (auto simp: on_ok_def confined_only_below split: sum.splits)
  show "hoare (confined (bs @ [tmp]) fs0)
     (io_then (sys_WriteFile (path_Join [abs_path (bs @ [tmp]), cacheCompletionMarker]) cacheCompletionValue 384)
         (sys_Rename (abs_path (bs @ [tmp])) (abs_path (bs @ [d]))))
    (on_ok (only_below (bs @ [tmp]) fs0) (\<lambda>_. published bs d tmp fs0))"
    using hoare_rename_entry [OF assms] by (intro hoare_then [OF hoare_write_marker [OF assms(2)]]) simp
qed

text \<open>The state of the cache directory \<open>bs\<close> while the entry \<open>d\<close> is published.\<close>

definition cache_frame :: "path \<Rightarrow> string \<Rightarrow> fs \<Rightarrow> fs \<Rightarrow> bool" where
  "cache_frame bs d fs0 fs \<longleftrightarrow>
     (\<forall>p. \<not> prefix (bs @ [d]) p \<and> p \<noteq> bs @ [d @ ''.lock''] \<longrightarrow> fs_get fs p = fs_get fs0 p)"

definition entry_ok :: "path \<Rightarrow> string \<Rightarrow> fs \<Rightarrow> fs \<Rightarrow> bool" where
  "entry_ok bs d fs0 fs \<longleftrightarrow> cache_frame bs d fs0 fs \<and> fst (checkCache (abs_path (bs @ [d])) fs) = Inr True"

lemma cache_frame_refl [simp]: "cache_frame bs d fs fs"
  by (simp add: cache_frame_def)

lemma dirs_to_frame: "cache_frame bs d fs0 fs \<Longrightarrow> dirs_to bs fs0 \<Longrightarrow> dirs_to bs fs"
proof (erule dirs_to_same)
  fix k assume "cache_frame bs d fs0 fs"
  moreover have "\<not> prefix (bs @ [d]) (take k bs)" by (auto dest: prefix_length_le)
  moreover have "take k bs \<noteq> bs @ [d @ ''.lock'']" by (auto dest: arg_cong [where f = length])
  ultimately show "fs_get fs (take k bs) = fs_get fs0 (take k bs)" unfolding cache_frame_def by blast
qed

lemma frame_after_cleanup:
  assumes "only_below (bs @ [tmp]) (fs_put (bs @ [tmp]) Dir fs1) fs" "cache_frame bs d fs0 fs1" "fs_tree fs1"
    and "fs_get fs1 (bs @ [tmp]) = None"
  shows "cache_frame bs d fs0 (fs_prune (bs @ [tmp]) fs)"
  unfolding cache_frame_def
proof (intro allI impI)
  fix p assume p: "\<not> prefix (bs @ [d]) p \<and> p \<noteq> bs @ [d @ ''.lock'']"
  then have fs0: "fs_get fs0 p = fs_get fs1 p" using assms(2) by (simp add: cache_frame_def)
  show "fs_get (fs_prune (bs @ [tmp]) fs) p = fs_get fs0 p"
  proof (cases "prefix (bs @ [tmp]) p")
    case True
    then have "fs_get fs1 p = None" using fs_tree_below [OF assms(3,4)] by (auto simp: prefix_def)
    with True fs0 show ?thesis by (simp add: fs_get_prune)
  next
    case False
    with assms(1) fs0 show ?thesis by (auto simp: fs_get_prune only_below_def fs_get_put)
  qed
qed

lemma entry_after_publish:
  assumes "published bs d tmp (fs_put (bs @ [tmp]) Dir fs1) fs" "cache_frame bs d fs0 fs1" "fs_tree fs1"
    and "fs_get fs1 (bs @ [tmp]) = None" "dirs_to bs fs0" "list_all proper (bs @ [d])"
  shows "entry_ok bs d fs0 fs"
proof -
  have frame: "cache_frame bs d fs0 fs"
    unfolding cache_frame_def
  proof (intro allI impI)
    fix p assume p: "\<not> prefix (bs @ [d]) p \<and> p \<noteq> bs @ [d @ ''.lock'']"
    then have fs0: "fs_get fs0 p = fs_get fs1 p" using assms(2) by (simp add: cache_frame_def)
    show "fs_get fs p = fs_get fs0 p"
    proof (cases "prefix (bs @ [tmp]) p")
      case True
      then have "fs_get fs1 p = None" using fs_tree_below [OF assms(3,4)] by (auto simp: prefix_def)
      with True p fs0 assms(1) show ?thesis by (simp add: published_def)
    next
      case False
      with assms(1) p fs0 show ?thesis by (auto simp: published_def fs_get_put)
    qed
  qed
  have "dirs_to (bs @ [d]) fs"
    using dirs_to_frame [OF frame assms(5)] assms(1) by (simp add: dirs_to_snoc published_def)
  moreover have "fs_get fs (bs @ [d, cacheCompletionMarker]) = Some (Reg 384 cacheCompletionValue)"
    using assms(1) by (simp add: published_def)
  ultimately show ?thesis using frame checkCache_complete [OF assms(6)] by (simp add: entry_ok_def)
qed

lemma temp_names_proper:
  assumes "\<forall>r \<in> set rnd. slash \<notin> set r" "list_all proper bs"
  shows "\<forall>c \<in> set (map (\<lambda>r. ''.context-'' @ r) rnd). list_all proper (bs @ [c])"
  using assms by (auto simp: proper_def)

lemma hoare_build_in_temp:
  assumes bs: "list_all proper bs" "bs \<noteq> []" and d: "validateContextDigest d = Inr ()"
    and rnd: "\<forall>r \<in> set rnd. slash \<notin> set r" and fs0: "dirs_to bs fs0"
  shows "hoare (\<lambda>fs. cache_frame bs d fs0 fs \<and> fs_tree fs \<and> fs_get fs (bs @ [d]) = None)
    (io_bind (sys_temp Dir (map (\<lambda>r. joinPath (abs_path bs) (''.context-'' @ r)) rnd)) (\<lambda>tempDir.
       io_on_error (build_entry untar ctx tarFile (abs_path (bs @ [d])) tempDir) (sys_RemoveAll tempDir)))
    (on_ok (cache_frame bs d fs0) (\<lambda>_. entry_ok bs d fs0))"
  unfolding hoare_def
proof (intro allI impI, elim conjE)
  define cs where "cs = map (\<lambda>r. ''.context-'' @ r) rnd"
  let ?b = "\<lambda>tempDir. build_entry untar ctx tarFile (abs_path (bs @ [d])) tempDir"
  fix fs r fs'
  assume P: "cache_frame bs d fs0 fs" "fs_tree fs" "fs_get fs (bs @ [d]) = None"
    and run: "io_bind (sys_temp Dir (map (\<lambda>r. joinPath (abs_path bs) (''.context-'' @ r)) rnd)) (\<lambda>tempDir.
       io_on_error (?b tempDir) (sys_RemoveAll tempDir)) fs = (r, fs')"
  have "map (\<lambda>r. joinPath (abs_path bs) (''.context-'' @ r)) rnd = map (\<lambda>c. abs_path (bs @ [c])) cs"
    using bs by (simp add: joinPath_abs cs_def)
  note run = run [unfolded this]
  have dirs: "dirs_to bs fs" using dirs_to_frame [OF P(1) fs0] .
  have cs: "\<forall>c \<in> set cs. list_all proper (bs @ [c])" "\<forall>c \<in> set cs. hd c = CHR ''.''"
    using temp_names_proper [OF rnd bs(1)] by (simp_all add: cs_def)
  obtain r1 fs1 where t: "sys_temp Dir (map (\<lambda>c. abs_path (bs @ [c])) cs) fs = (r1, fs1)" by fastforce
  from t dirs cs(1)
  show "on_ok (cache_frame bs d fs0) (\<lambda>_. entry_ok bs d fs0) r fs'"
  proof (cases rule: sys_temp_cases)
    case (1 e)
    with run t P(1) show ?thesis by (auto simp: io_bind_def)
  next
    case (2 tmp)
    have tmp: "list_all proper (bs @ [tmp])" "d \<noteq> tmp"
      using cs 2(1) valid_digest_proper(3) [OF d] by auto
    have pd: "list_all proper (bs @ [d])" using bs(1) valid_digest_proper(1) [OF d] by simp
    let ?fs1 = "fs_put (bs @ [tmp]) Dir fs"
    have "fs_get fs ((bs @ [tmp]) @ [cacheCompletionMarker]) = None" using P(2) 2(2) by (rule fs_tree_below)
    then have conf: "confined (bs @ [tmp]) ?fs1 ?fs1"
      using 2(2) dirs by (simp add: confined_def dirs_to_snoc dirs_to_put fs_get_put)
    have free: "fs_get ?fs1 (bs @ [d]) = None" using P(3) tmp(2) by (simp add: fs_get_put)
    obtain r2 fs2 where b: "?b (abs_path (bs @ [tmp])) ?fs1 = (r2, fs2)" by fastforce
    note post = hoareD [OF hoare_build_entry [OF pd tmp free] conf b]
    show ?thesis
    proof (cases r2)
      case (Inl e)
      with post have o: "only_below (bs @ [tmp]) ?fs1 fs2" by simp
      then have "dirs_to bs fs2" by (simp add: only_below_def dirs_to_snoc)
      then have "r = Inl e" "fs' = fs_prune (bs @ [tmp]) fs2"
        using run t 2 b Inl sys_RemoveAll_dirs [OF tmp(1)] by (simp_all add: io_bind_def io_on_error_def)
      with frame_after_cleanup [OF o P(1,2) 2(2)] show ?thesis by simp
    next
      case (Inr u)
      with post have "published bs d tmp ?fs1 fs2" by simp
      moreover have "r = Inr u" "fs' = fs2"
        using run t 2 b Inr by (simp_all add: io_bind_def io_on_error_def)
      ultimately show ?thesis using entry_after_publish [OF _ P(1,2) 2(2) fs0 pd] by simp
    qed
  qed
qed

lemma hoare_publish_locked:
  assumes bs: "list_all proper bs" "bs \<noteq> []" and d: "validateContextDigest d = Inr ()"
    and rnd: "\<forall>r \<in> set rnd. slash \<notin> set r" and fs0: "dirs_to bs fs0"
  shows "hoare (\<lambda>fs. cache_frame bs d fs0 fs \<and> fs_tree fs)
    (publish_locked untar ctx rnd tarFile (abs_path (bs @ [d])) (abs_path bs))
    (on_ok (cache_frame bs d fs0) (\<lambda>_. entry_ok bs d fs0))"
  unfolding publish_locked_def
proof (rule hoare_bind)
  let ?P = "\<lambda>fs. cache_frame bs d fs0 fs \<and> fs_tree fs"
  let ?R = "\<lambda>cached fs. ?P fs \<and> fst (checkCache (abs_path (bs @ [d])) fs) = Inr cached"
  show "hoare ?P (checkCache (abs_path (bs @ [d]))) (on_ok (cache_frame bs d fs0) ?R)"
    unfolding hoare_def
  proof (intro allI impI)
    fix fs r fs' assume P: "?P fs" and run: "checkCache (abs_path (bs @ [d])) fs = (r, fs')"
    then have "fs' = fs" using checkCache_pure [of "abs_path (bs @ [d])" fs] by simp
    with P run show "on_ok (cache_frame bs d fs0) ?R r fs'" by (cases r) auto
  qed
  have pd: "list_all proper (bs @ [d])" using bs(1) valid_digest_proper(1) [OF d] by simp
  have rm: "hoare ?P (sys_RemoveAll (abs_path (bs @ [d])))
    (on_ok (cache_frame bs d fs0) (\<lambda>_ fs. cache_frame bs d fs0 fs \<and> fs_tree fs \<and> fs_get fs (bs @ [d]) = None))"
    unfolding hoare_def
  proof (intro allI impI, elim conjE)
    fix fs r fs' assume P: "cache_frame bs d fs0 fs" "fs_tree fs" and run: "sys_RemoveAll (abs_path (bs @ [d])) fs = (r, fs')"
    then have "r = Inr ()" "fs' = fs_prune (bs @ [d]) fs"
      using sys_RemoveAll_dirs [OF pd dirs_to_frame [OF P(1) fs0]] by simp_all
    with P show "on_ok (cache_frame bs d fs0) (\<lambda>_ fs. cache_frame bs d fs0 fs \<and> fs_tree fs \<and> fs_get fs (bs @ [d]) = None) r fs'"
      by (simp add: cache_frame_def fs_get_prune fs_tree_prune)
  qed
  note build = hoare_then [OF rm hoare_build_in_temp [OF assms, of untar ctx tarFile]]
  show "hoare (?R cached) (if cached then io_return ()
       else io_then (sys_RemoveAll (abs_path (bs @ [d])))
           (io_bind (sys_temp Dir (map (\<lambda>r. joinPath (abs_path bs) (''.context-'' @ r)) rnd)) (\<lambda>tempDir.
              io_on_error (build_entry untar ctx tarFile (abs_path (bs @ [d])) tempDir) (sys_RemoveAll tempDir))))
     (on_ok (cache_frame bs d fs0) (\<lambda>_. entry_ok bs d fs0))" for cached
  proof (cases cached)
    case True
    then show ?thesis by (auto intro: hoare_return simp: entry_ok_def)
  next
    case False
    have "hoare (?R cached) (io_then (sys_RemoveAll (abs_path (bs @ [d])))
           (io_bind (sys_temp Dir (map (\<lambda>r. joinPath (abs_path bs) (''.context-'' @ r)) rnd)) (\<lambda>tempDir.
              io_on_error (build_entry untar ctx tarFile (abs_path (bs @ [d])) tempDir) (sys_RemoveAll tempDir))))
     (on_ok (cache_frame bs d fs0) (\<lambda>_. entry_ok bs d fs0))"
      by (rule hoare_pre [OF build]) blast
    with False show ?thesis by simp
  qed
qed

lemma hoare_open_lock:
  assumes bs: "list_all proper bs" and d: "validateContextDigest d = Inr ()" and fs0: "dirs_to bs fs0"
  shows "hoare (\<lambda>fs. cache_frame bs d fs0 fs \<and> fs_tree fs) (open_lock (abs_path (bs @ [d @ ''.lock''])))
    (on_ok (cache_frame bs d fs0) (\<lambda>_ fs. cache_frame bs d fs0 fs \<and> fs_tree fs))"
  unfolding hoare_def
proof (intro allI impI, elim conjE)
  let ?l = "bs @ [d @ ''.lock'']"
  fix fs r fs'
  assume P: "cache_frame bs d fs0 fs" "fs_tree fs" and run: "open_lock (abs_path ?l) fs = (r, fs')"
  have pl: "list_all proper ?l" using bs valid_digest_proper(2) [OF d] by simp
  have dirs: "dirs_to bs fs" using dirs_to_frame [OF P(1) fs0] .
  note create = sys_create_dirs [OF pl dirs]
  show "on_ok (cache_frame bs d fs0) (\<lambda>_ fs. cache_frame bs d fs0 fs \<and> fs_tree fs) r fs'"
  proof (cases "fs_get fs ?l = None")
    case True
    then have "r = Inr ()" "fs' = fs_put ?l (Reg 384 []) fs"
      using run create by (simp_all add: open_lock_def io_bind_def io_try_def io_return_def)
    with P True dirs_to_self [OF dirs] show ?thesis by (simp add: cache_frame_def fs_get_put fs_tree_put)
  next
    case False
    then have "r = Inr ()" "fs' = fs"
      using run create by (simp_all add: open_lock_def io_bind_def io_try_def io_return_def)
    with P show ?thesis by simp
  qed
qed

lemma hoare_check_lock_path: "hoare P (check_lock_path s) (on_ok P (\<lambda>_. P))"
proof -
  have "hoare P (io_try (sys_Lstat s)) (on_ok P (\<lambda>_. P))"
    by (auto simp: hoare_def io_try_def sys_Lstat_def)
  then show ?thesis
    unfolding check_lock_path_def
    by (rule hoare_bind) (auto intro: hoare_return hoare_fail split: sum.split node.split)
qed

lemma hoare_publishTar:
  assumes bs: "list_all proper bs" "bs \<noteq> []" and d: "validateContextDigest d = Inr ()"
    and rnd: "\<forall>r \<in> set rnd. slash \<notin> set r" and fs0: "dirs_to bs fs0"
  shows "hoare (\<lambda>fs. cache_frame bs d fs0 fs \<and> fs_tree fs)
    (publishTar untar ctx locked rnd tarFile (abs_path (bs @ [d])) (abs_path bs))
    (on_ok (cache_frame bs d fs0) (\<lambda>_. entry_ok bs d fs0))"
proof -
  let ?P = "\<lambda>fs. cache_frame bs d fs0 fs \<and> fs_tree fs"
  have lock: "abs_path (bs @ [d]) @ ''.lock'' = abs_path (bs @ [d @ ''.lock''])" using bs(2) by (simp add: abs_path_snoc)
  have "hoare ?P (io_bind (io_lift locked) (\<lambda>got.
      if \<not> got then io_fail (Errorf ''failed to acquire cache lock'')
      else publish_locked untar ctx rnd tarFile (abs_path (bs @ [d])) (abs_path bs)))
    (on_ok (cache_frame bs d fs0) (\<lambda>_. entry_ok bs d fs0))"
    using hoare_publish_locked [OF assms] by (intro hoare_lift_bind) (auto intro: hoare_fail)
  then have "hoare ?P (io_then (open_lock (abs_path (bs @ [d @ ''.lock'']))) (io_bind (io_lift locked) (\<lambda>got.
      if \<not> got then io_fail (Errorf ''failed to acquire cache lock'')
      else publish_locked untar ctx rnd tarFile (abs_path (bs @ [d])) (abs_path bs))))
    (on_ok (cache_frame bs d fs0) (\<lambda>_. entry_ok bs d fs0))"
    by (rule hoare_then [OF hoare_open_lock [OF bs(1) d fs0]])
  moreover have "hoare ?P (check_lock_path s) (on_ok (cache_frame bs d fs0) (\<lambda>_. ?P))" for s
    by (rule hoare_conseq [OF hoare_check_lock_path [of ?P]]) (auto simp: on_ok_def split: sum.splits)
  ultimately show ?thesis unfolding publishTar_def Let_def lock by (blast intro: hoare_then)
qed

section \<open>The guarantees of the cache\<close>

text \<open>
  A context digest is accepted exactly when it consists of 64 lower-case hexadecimal digits; in
  particular it is a plain file name, without separators or dots.
\<close>

theorem validateContextDigest_exact:
  "validateContextDigest d = Inr () \<longleftrightarrow> length d = 64 \<and> set d \<subseteq> set ''0123456789abcdef''"
  by (rule valid_digest_iff)


text \<open>
  An archive that plants a link to \<open>/etc\<close> and then writes through it, after a harmless file.
\<close>

definition hostile_untar :: untar_fn where
  "hostile_untar raw =
     ([\<lparr>te_Name = ''a/f'', te_Typeflag = TypeReg, te_Linkname = [], te_Mode = 420, te_body = raw, te_err = None\<rparr>,
       \<lparr>te_Name = ''out'', te_Typeflag = TypeSymlink, te_Linkname = ''/etc'', te_Mode = 511, te_body = [], te_err = None\<rparr>,
       \<lparr>te_Name = ''out/passwd'', te_Typeflag = TypeReg, te_Linkname = [], te_Mode = 420, te_body = ''x'', te_err = None\<rparr>], None)"

definition demo_host :: fs where
  "demo_host = [([''etc''], Dir), ([''etc'', ''passwd''], Reg 420 ''root''), ([''c''], Dir), ([''t''], Reg 384 ''data'')]"

lemma proper_demo: "proper ''c''" "proper ''etc''"
  by (simp_all add: proper_def)


text \<open>
  C7. Publication of a context: if \<open>publishTar\<close> succeeds, the entry of its digest is complete for
  every later \<open>checkCache\<close>; and whether it succeeds or fails, it leaves the file system
  as it was except for the entry itself and its lock file, so no temporary directory stays behind.
\<close>

theorem publishTar_atomic:
  assumes "list_all proper bs" "bs \<noteq> []" "dirs_to bs fs" "fs_tree fs"
    and "validateContextDigest d = Inr ()" "\<forall>r \<in> set rnd. slash \<notin> set r"
    and "publishTar untar ctx locked rnd tarFile (abs_path (bs @ [d])) (abs_path bs) fs = (r, fs')"
  shows "(r = Inr () \<longrightarrow> fst (checkCache (abs_path (bs @ [d])) fs') = Inr True) \<and>
    (\<forall>p. \<not> prefix (bs @ [d]) p \<and> p \<noteq> bs @ [d @ ''.lock''] \<longrightarrow> fs_get fs' p = fs_get fs p)"
proof -
  have "on_ok (cache_frame bs d fs) (\<lambda>_. entry_ok bs d fs) r fs'"
    using hoareD [OF hoare_publishTar [OF assms(1,2,5,6,3)] _ assms(7)] assms(4) by simp
  then show ?thesis by (cases r) (simp_all add: entry_ok_def cache_frame_def)
qed

definition small_untar :: untar_fn where
  "small_untar raw =
     ([\<lparr>te_Name = ''a/f'', te_Typeflag = TypeReg, te_Linkname = [], te_Mode = 420, te_body = raw, te_err = None\<rparr>], None)"

definition demo_digest :: string where "demo_digest = replicate 64 CHR ''0''"

lemma demo_host_tree: "fs_tree demo_host"
proof -
  have "p = []" if "fs_get demo_host (p @ [c]) \<noteq> None" "p \<noteq> [''etc'']" for p c
    using that by (auto simp: fs_get_def demo_host_def append_eq_Cons_conv split: if_splits)
  moreover have "fs_get demo_host [''etc''] = Some Dir" by (simp add: fs_get_def demo_host_def)
  ultimately show ?thesis unfolding fs_tree_def by (metis fs_get_root)
qed

theorem publishTar_atomic_witness:
  "fst (publishTar small_untar (\<lambda>_. None) (Inr True) [''7''] ''/t'' (''/c/'' @ demo_digest) ''/c'' demo_host) = Inr () \<and>
   fst (checkCache (''/c/'' @ demo_digest)
     (snd (publishTar small_untar (\<lambda>_. None) (Inr True) [''7''] ''/t'' (''/c/'' @ demo_digest) ''/c'' demo_host))) = Inr True"
proof -
  have c: "abs_path [''c''] = ''/c''" "abs_path ([''c''] @ [demo_digest]) = ''/c/'' @ demo_digest"
    by (simp_all add: abs_path_def)
  have ok: "fst (publishTar small_untar (\<lambda>_. None) (Inr True) [''7''] ''/t'' (''/c/'' @ demo_digest) ''/c'' demo_host) = Inr ()"
    by code_simp
  have "dirs_to [''c''] demo_host"
    by (simp add: dirs_to_snoc [of "[]" "''c''", simplified] demo_host_def fs_get_def)
  moreover have "validateContextDigest demo_digest = Inr ()" by (auto simp: valid_digest_iff demo_digest_def)
  ultimately have "fst (checkCache (''/c/'' @ demo_digest)
     (snd (publishTar small_untar (\<lambda>_. None) (Inr True) [''7''] ''/t'' (''/c/'' @ demo_digest) ''/c'' demo_host))) = Inr True"
    using ok publishTar_atomic [of "[''c'']" demo_host demo_digest "[''7'']" small_untar "\<lambda>_. None" "Inr True" "''/t''",
        unfolded c, OF _ _ _ demo_host_tree _ _ prod.collapse [symmetric], THEN conjunct1, THEN mp]
    by (simp add: proper_demo)
  with ok show ?thesis by simp
qed

end
