(* ===== verification/Tar_Stream.thy ===== *)
theory Tar_Stream
  imports Prelude Api_Messages
begin

text \<open>
  The tar stream of a context transfer (\<open>pkg/fileutils/tarxfer.go\<close>): the goroutine
  \<open>startTar\<close>, which turns the packets of its demultiplexer into sends on three channels, and the
  reader \<open>Receive\<close>, which takes the header, the first data block and the body from them. Both are
  state machines that interleave freely; a \<open>select\<close> is the list of its ready cases.

  \<open>errCh\<close> and \<open>headerCh\<close> are buffers of one element, \<open>dataCh\<close> is unbuffered: a send on it and the
  receive are one step. The text of an error, which \<open>normalizeTarReceiveError\<close> searches, is a parameter.
\<close>

record tarStreamHeader =
  th_checksum :: string
  th_complete :: bool

section \<open>The sender\<close>

datatype tar_send =
    SendErr "goerr option"
  | SendHeader tarStreamHeader
  | SendData bytes

definition normalizeTarReceiveError :: "(goerr \<Rightarrow> bool) \<Rightarrow> goerr \<Rightarrow> goerr" where
  \<comment> \<open>\<open>closing err\<close>: the text of the error contains ``EOF'' or ``transport is closing''\<close>
  "normalizeTarReceiveError closing err =
     (if err = IoEOF \<or> closing err then Errorf ''tar stream ended before completion'' else err)"

text \<open>The sends of a handler, in order, and whether the goroutine returns after them.\<close>

definition handleBuildTransfer :: "build_transfer \<Rightarrow> tar_send list \<times> bool" where
  "handleBuildTransfer transfer =
     (case map_of (bt_metadata transfer) ''error'' of
        Some errMsg \<Rightarrow> ([SendErr (Some (Wrapf ''server error in TAR mode'' (Errorf errMsg)))], True)
      | None \<Rightarrow>
          ((case map_of (bt_metadata transfer) ''hash'' of
              Some hash \<Rightarrow> [SendHeader \<lparr>th_checksum = hash, th_complete = bt_complete transfer\<rparr>]
            | None \<Rightarrow> [SendData (bt_data transfer)])
           @ (if bt_complete transfer then [SendErr None] else []), bt_complete transfer))"

definition handleImageTransfer :: "image_transfer \<Rightarrow> tar_send list \<times> bool" where
  "handleImageTransfer transfer =
     (case map_of (it_metadata transfer) ''error'' of
        Some errMsg \<Rightarrow> ([SendErr (Some (Wrapf ''server error in TAR mode'' (Errorf errMsg)))], True)
      | None \<Rightarrow>
          (SendData (it_data transfer) # (if it_complete transfer then [SendErr None] else []), it_complete transfer))"

definition startTar_turn :: "(goerr \<Rightarrow> bool) \<Rightarrow> goerr + client_stream \<Rightarrow> tar_send list \<times> bool" where
  "startTar_turn closing resp =
     (case resp of
        Inl err \<Rightarrow> ([SendErr (Some (normalizeTarReceiveError closing err))], True)
      | Inr r \<Rightarrow>
          (case GetBuildTransfer r of
             Some bt \<Rightarrow> handleBuildTransfer bt
           | None \<Rightarrow>
               (case GetImageTransfer r of
                  Some it \<Rightarrow> handleImageTransfer it
                | None \<Rightarrow> ([SendErr (Some (Errorf ''tar stream: unexpected packet type''))], False))))"

text \<open>Program counters. The deferred closes run in the order data, header, error.\<close>

datatype sender_pc =
    SRecv
  | SSending "tar_send list" bool
  | SCloseData
  | SCloseHeader
  | SCloseErr
  | SExited

section \<open>The reader\<close>

text \<open>
  \<open>RHeader h e\<close> is the loop of \<open>readTarStreamHeader\<close>, where \<open>h\<close> and \<open>e\<close> say that the local variables
  \<open>headerCh\<close> and \<open>errCh\<close> are not nil; \<open>RGap\<close> is \<open>Receive\<close> between the header and the data;
  \<open>RFirst\<close> is \<open>readTarHeader\<close> and \<open>RFirstErr\<close> its read of \<open>errCh\<close> after the data channel was
  closed; \<open>RBody e\<close> is the loop of \<open>readTarBody\<close>; \<open>RGone\<close> is a \<open>Receive\<close> that returned in the gap.
\<close>

datatype reader_pc =
    RHeader bool bool
  | RGap
  | RFirst
  | RFirstErr
  | RBody bool
  | RDone "goerr + unit"
  | RGone

record tar_sys =
  ts_in :: "(goerr + client_stream) list"
  ts_sender :: sender_pc
  ts_err :: "goerr option list"
  ts_hdr :: "tarStreamHeader list"
  ts_data_closed :: bool
  ts_hdr_closed :: bool
  ts_err_closed :: bool
  ts_reader :: reader_pc
  ts_header :: "tarStreamHeader option"
  ts_got :: "bytes list"

definition tar_init :: "(goerr + client_stream) list \<Rightarrow> tar_sys" where
  "tar_init script =
     \<lparr>ts_in = script, ts_sender = SRecv, ts_err = [], ts_hdr = [], ts_data_closed = False, ts_hdr_closed = False,
      ts_err_closed = False, ts_reader = RHeader True True, ts_header = None, ts_got = []\<rparr>"

definition startTar_step :: "(goerr \<Rightarrow> bool) \<Rightarrow> tar_sys \<Rightarrow> tar_sys outcomes" where
  "startTar_step closing s =
     (case ts_sender s of
        SRecv \<Rightarrow>
          (case ts_in s of
             [] \<Rightarrow> []
           | r # rs \<Rightarrow> (case startTar_turn closing r of (q, stop) \<Rightarrow> [s\<lparr>ts_in := rs, ts_sender := SSending q stop\<rparr>]))
      | SSending [] stop \<Rightarrow> [s\<lparr>ts_sender := if stop then SCloseData else SRecv\<rparr>]
      | SSending (SendErr e # q) stop \<Rightarrow>
          alt_if (ts_err s = []) [s\<lparr>ts_err := [e], ts_sender := SSending q stop\<rparr>]
      | SSending (SendHeader h # q) stop \<Rightarrow>
          alt_if (ts_hdr s = []) [s\<lparr>ts_hdr := [h], ts_sender := SSending q stop\<rparr>]
      | SSending (SendData d # q) stop \<Rightarrow> []
      | SCloseData \<Rightarrow> [s\<lparr>ts_data_closed := True, ts_sender := SCloseHeader\<rparr>]
      | SCloseHeader \<Rightarrow> [s\<lparr>ts_hdr_closed := True, ts_sender := SCloseErr\<rparr>]
      | SCloseErr \<Rightarrow> [s\<lparr>ts_err_closed := True, ts_sender := SExited\<rparr>]
      | SExited \<Rightarrow> [])"

text \<open>A receive on \<open>errCh\<close>: a value, or (None) the channel is closed and drained.\<close>

definition recv_err :: "tar_sys \<Rightarrow> (goerr option option \<times> tar_sys) outcomes" where
  "recv_err s =
     (case ts_err s of
        e # es \<Rightarrow> [(Some e, s\<lparr>ts_err := es\<rparr>)]
      | [] \<Rightarrow> alt_if (ts_err_closed s) [(None, s)])"

definition recv_hdr :: "tar_sys \<Rightarrow> (tarStreamHeader option \<times> tar_sys) outcomes" where
  "recv_hdr s =
     (case ts_hdr s of
        h # hs \<Rightarrow> [(Some h, s\<lparr>ts_hdr := hs\<rparr>)]
      | [] \<Rightarrow> alt_if (ts_hdr_closed s) [(None, s)])"

definition recv_data :: "tar_sys \<Rightarrow> (bytes option \<times> tar_sys) outcomes" where
  "recv_data s =
     (if ts_data_closed s then [(None, s)]
      else
        (case ts_sender s of
           SSending (SendData d # q) stop \<Rightarrow> [(Some d, s\<lparr>ts_sender := SSending q stop, ts_got := ts_got s @ [d]\<rparr>)]
         | _ \<Rightarrow> []))"

definition readTarStreamHeader_step :: "bool \<Rightarrow> bool \<Rightarrow> tar_sys \<Rightarrow> tar_sys outcomes" where
  "readTarStreamHeader_step h e s =
     (if \<not> h \<and> \<not> e then [s\<lparr>ts_reader := RDone (Inl (Errorf ''header channel closed, no hash received''))\<rparr>]
      else
        (if h then
           map (\<lambda>(r, s'). case r of
                  Some header \<Rightarrow> s'\<lparr>ts_header := Some header, ts_reader := RGap\<rparr>
                | None \<Rightarrow> s'\<lparr>ts_reader := RHeader False e\<rparr>) (recv_hdr s)
         else [])
        @ (if e then
             map (\<lambda>(r, s'). case r of
                    None \<Rightarrow> s'\<lparr>ts_reader := RHeader h False\<rparr>
                  | Some (Some err) \<Rightarrow> s'\<lparr>ts_reader := RDone (Inl err)\<rparr>
                  | Some None \<Rightarrow> s'\<lparr>ts_reader := RHeader h e\<rparr>) (recv_err s)
           else []))"

definition readTarHeader_step :: "tar_sys \<Rightarrow> tar_sys outcomes" where
  "readTarHeader_step s =
     map (\<lambda>(r, s'). case r of Some d \<Rightarrow> s'\<lparr>ts_reader := RBody True\<rparr> | None \<Rightarrow> s'\<lparr>ts_reader := RFirstErr\<rparr>) (recv_data s)
     @ map (\<lambda>(r, s'). case r of
              Some (Some err) \<Rightarrow> s'\<lparr>ts_reader := RDone (Inl err)\<rparr>
            | _ \<Rightarrow> s'\<lparr>ts_reader := RBody True\<rparr>) (recv_err s)"

definition readTarHeader_err_step :: "tar_sys \<Rightarrow> tar_sys outcomes" where
  "readTarHeader_err_step s =
     map (\<lambda>(r, s'). case r of
            Some (Some err) \<Rightarrow> s'\<lparr>ts_reader := RDone (Inl err)\<rparr>
          | _ \<Rightarrow> s'\<lparr>ts_reader := RDone (Inl (Errorf ''data channel closed''))\<rparr>) (recv_err s)"

definition body_end :: "bool \<Rightarrow> tar_sys \<Rightarrow> tar_sys" where
  \<comment> \<open>the data channel is closed: a last look at \<open>errCh\<close> without waiting\<close>
  "body_end e s =
     (case ts_err s of
        x # es \<Rightarrow>
          if e then s\<lparr>ts_err := es, ts_reader := RDone (case x of Some err \<Rightarrow> Inl err | None \<Rightarrow> Inr ())\<rparr>
          else s\<lparr>ts_reader := RDone (Inr ())\<rparr>
      | [] \<Rightarrow> s\<lparr>ts_reader := RDone (Inr ())\<rparr>)"

definition readTarBody_step :: "bool \<Rightarrow> tar_sys \<Rightarrow> tar_sys outcomes" where
  "readTarBody_step e s =
     map (\<lambda>(r, s'). case r of Some d \<Rightarrow> s'\<lparr>ts_reader := RBody e\<rparr> | None \<Rightarrow> body_end e s') (recv_data s)
     @ (if e then
          map (\<lambda>(r, s'). case r of
                 None \<Rightarrow> s'\<lparr>ts_reader := RBody False\<rparr>
               | Some (Some err) \<Rightarrow> s'\<lparr>ts_reader := RDone (Inl err)\<rparr>
               | Some None \<Rightarrow> s'\<lparr>ts_reader := RBody e\<rparr>) (recv_err s)
        else [])"

text \<open>In the gap \<open>Receive\<close> returns early (an invalid digest, a complete header, an I/O error) or goes on.\<close>

definition Receive_step :: "tar_sys \<Rightarrow> tar_sys outcomes" where
  "Receive_step s =
     (case ts_reader s of
        RHeader h e \<Rightarrow> readTarStreamHeader_step h e s
      | RGap \<Rightarrow> [s\<lparr>ts_reader := RFirst\<rparr>, s\<lparr>ts_reader := RGone\<rparr>]
      | RFirst \<Rightarrow> readTarHeader_step s
      | RFirstErr \<Rightarrow> readTarHeader_err_step s
      | RBody e \<Rightarrow> readTarBody_step e s
      | RDone _ \<Rightarrow> []
      | RGone \<Rightarrow> [])"

definition ctx_cases :: "tar_sys \<Rightarrow> tar_sys outcomes" where
  \<comment> \<open>the \<open>ctx.Done()\<close> cases of the three selects\<close>
  "ctx_cases s =
     (case ts_reader s of
        RHeader h e \<Rightarrow> alt_if (h \<or> e) [s\<lparr>ts_reader := RDone (Inl ContextCanceled)\<rparr>]
      | RFirst \<Rightarrow> [s\<lparr>ts_reader := RDone (Inl ContextCanceled)\<rparr>]
      | RBody _ \<Rightarrow> [s\<lparr>ts_reader := RDone (Inl ContextCanceled)\<rparr>]
      | _ \<Rightarrow> [])"

inductive tar_step :: "(goerr \<Rightarrow> bool) \<Rightarrow> tar_sys \<Rightarrow> tar_sys \<Rightarrow> bool" for closing where
  sender: "s' \<in> set (startTar_step closing s) \<Longrightarrow> tar_step closing s s'"
| reader: "s' \<in> set (Receive_step s) \<Longrightarrow> tar_step closing s s'"
| cancel: "s' \<in> set (ctx_cases s) \<Longrightarrow> tar_step closing s s'"

inductive tar_reachable :: "(goerr \<Rightarrow> bool) \<Rightarrow> (goerr + client_stream) list \<Rightarrow> tar_sys \<Rightarrow> bool" for closing script where
  start: "tar_reachable closing script (tar_init script)"
| step: "tar_reachable closing script s \<Longrightarrow> tar_step closing s s' \<Longrightarrow> tar_reachable closing script s'"

section \<open>The sends of a stream\<close>

text \<open>What a stream of packets makes the sender send, up to the packet that ends it.\<close>

fun run_packets :: "(goerr \<Rightarrow> bool) \<Rightarrow> (goerr + client_stream) list \<Rightarrow> tar_send list \<times> bool" where
  "run_packets closing [] = ([], False)"
| "run_packets closing (r # rs) =
     (case startTar_turn closing r of (q, stop) \<Rightarrow>
        if stop then (q, True) else (q @ fst (run_packets closing rs), snd (run_packets closing rs)))"

fun datas :: "tar_send list \<Rightarrow> bytes list" where
  "datas [] = []"
| "datas (SendData d # q) = d # datas q"
| "datas (_ # q) = datas q"

fun failures :: "tar_send list \<Rightarrow> goerr list" where
  "failures [] = []"
| "failures (SendErr (Some e) # q) = e # failures q"
| "failures (_ # q) = failures q"

lemma datas_append [simp]: "datas (xs @ ys) = datas xs @ datas ys"
  by (induction xs rule: datas.induct) auto

lemma failures_append [simp]: "failures (xs @ ys) = failures xs @ failures ys"
  by (induction xs rule: failures.induct) auto

fun pending :: "(goerr \<Rightarrow> bool) \<Rightarrow> tar_sys \<Rightarrow> tar_send list \<times> bool" where
  "pending closing s =
     (case ts_sender s of
        SRecv \<Rightarrow> run_packets closing (ts_in s)
      | SSending q stop \<Rightarrow>
          (if stop then (q, True) else (q @ fst (run_packets closing (ts_in s)), snd (run_packets closing (ts_in s))))
      | _ \<Rightarrow> ([], True))"

definition sent_ok :: "tar_sys \<Rightarrow> tar_send list \<Rightarrow> bool" where
  "sent_ok s sent \<longleftrightarrow>
     datas sent = ts_got s \<and>
     (failures sent \<noteq> [] \<longrightarrow> (\<exists>e. ts_err s = [Some e]) \<or> (\<exists>e. ts_reader s = RDone (Inl e))) \<and>
     (ts_reader s = RDone (Inr ()) \<longrightarrow> failures sent = [])"

definition chan_ok :: "tar_sys \<Rightarrow> bool" where
  "chan_ok s \<longleftrightarrow>
     length (ts_err s) \<le> 1 \<and>
     (ts_data_closed s \<longrightarrow> ts_sender s \<in> {SCloseHeader, SCloseErr, SExited}) \<and>
     (ts_err_closed s \<longrightarrow> ts_sender s = SExited) \<and>
     ((ts_reader s = RBody False \<or> (\<exists>h. ts_reader s = RHeader h False)) \<longrightarrow> ts_err_closed s \<and> ts_err s = []) \<and>
     (ts_reader s = RDone (Inr ()) \<longrightarrow> ts_data_closed s)"

definition tar_inv :: "(goerr \<Rightarrow> bool) \<Rightarrow> (goerr + client_stream) list \<Rightarrow> tar_sys \<Rightarrow> bool" where
  "tar_inv closing script s \<longleftrightarrow>
     (\<exists>sent. fst (run_packets closing script) = sent @ fst (pending closing s) \<and> sent_ok s sent) \<and>
     snd (run_packets closing script) = snd (pending closing s) \<and> chan_ok s"

lemma tar_invI:
  "fst (run_packets closing script) = sent @ fst (pending closing s) \<Longrightarrow> sent_ok s sent \<Longrightarrow>
   snd (run_packets closing script) = snd (pending closing s) \<Longrightarrow> chan_ok s \<Longrightarrow> tar_inv closing script s"
  unfolding tar_inv_def by blast

lemma tar_inv_init: "tar_inv closing script (tar_init script)"
  by (rule tar_invI [where sent = "[]"]) (simp_all add: tar_init_def sent_ok_def chan_ok_def)

lemma tar_inv_sender:
  assumes inv: "tar_inv closing script s" and step: "s' \<in> set (startTar_step closing s)"
  shows "tar_inv closing script s'"
proof -
  from inv obtain sent where sent: "fst (run_packets closing script) = sent @ fst (pending closing s)" "sent_ok s sent"
    "snd (run_packets closing script) = snd (pending closing s)" "chan_ok s"
    unfolding tar_inv_def by blast
  show ?thesis
  proof (cases "ts_sender s")
    case SRecv
    then obtain r rs where "ts_in s = r # rs" using step by (cases "ts_in s") (auto simp: startTar_step_def)
    moreover obtain q stop where "startTar_turn closing r = (q, stop)" by fastforce
    ultimately show ?thesis using SRecv step sent
      by (intro tar_invI [where sent = sent]) (auto simp: startTar_step_def sent_ok_def chan_ok_def)
  next
    case (SSending q stop)
    show ?thesis
    proof (cases q)
      case Nil
      then show ?thesis using SSending step sent
        by (intro tar_invI [where sent = sent]) (auto simp: startTar_step_def sent_ok_def chan_ok_def)
    next
      case (Cons x q')
      then show ?thesis
      proof (cases x)
        case (SendErr e)
        with Cons SSending step have s': "ts_err s = []" "s' = s\<lparr>ts_err := [e], ts_sender := SSending q' stop\<rparr>"
          by (auto simp: startTar_step_def)
        show ?thesis using s' SendErr Cons SSending sent
          by (intro tar_invI [where sent = "sent @ [x]"]; cases e) (auto simp: sent_ok_def chan_ok_def)
      next
        case (SendHeader h)
        with Cons SSending step have s': "s' = s\<lparr>ts_hdr := [h], ts_sender := SSending q' stop\<rparr>"
          by (auto simp: startTar_step_def)
        show ?thesis using s' SendHeader Cons SSending sent
          by (intro tar_invI [where sent = "sent @ [x]"]) (auto simp: sent_ok_def chan_ok_def)
      next
        case (SendData d)
        with Cons SSending step show ?thesis by (simp add: startTar_step_def)
      qed
    qed
  qed (use step sent in \<open>auto intro!: tar_invI [where sent = sent] simp: startTar_step_def sent_ok_def chan_ok_def\<close>)
qed

text \<open>A reader that takes data extends what was sent; any other reader step keeps it.\<close>

lemma tar_inv_keep:
  assumes "tar_inv closing script s" "ts_sender s' = ts_sender s" "ts_in s' = ts_in s" "chan_ok s'" "ts_got s' = ts_got s"
    and "\<And>sent. sent_ok s sent \<Longrightarrow> sent_ok s' sent"
  shows "tar_inv closing script s'"
proof -
  have "pending closing s' = pending closing s" unfolding pending.simps assms(2,3) ..
  with assms(1,4,6) show ?thesis unfolding tar_inv_def by metis
qed

lemma recv_data_cases:
  assumes "(r, s') \<in> set (recv_data s)"
  obtains "r = None" "s' = s" "ts_data_closed s"
  | d q stop where "r = Some d" "ts_sender s = SSending (SendData d # q) stop"
      "s' = s\<lparr>ts_sender := SSending q stop, ts_got := ts_got s @ [d]\<rparr>"
  using assms by (cases "ts_sender s") (auto simp: recv_data_def split: if_splits list.splits tar_send.splits)

lemma recv_err_cases:
  assumes "(r, s') \<in> set (recv_err s)"
  obtains "r = None" "s' = s" "ts_err s = []" "ts_err_closed s"
  | e es where "r = Some e" "ts_err s = e # es" "s' = s\<lparr>ts_err := es\<rparr>"
  using assms by (cases "ts_err s") (auto simp: recv_err_def)

lemma recv_hdr_cases:
  assumes "(r, s') \<in> set (recv_hdr s)"
  obtains "r = None" "s' = s" "ts_hdr s = []" "ts_hdr_closed s"
  | h hs where "r = Some h" "ts_hdr s = h # hs" "s' = s\<lparr>ts_hdr := hs\<rparr>"
  using assms by (cases "ts_hdr s") (auto simp: recv_hdr_def)

lemma tar_inv_data:
  assumes inv: "tar_inv closing script s" and snd: "ts_sender s = SSending (SendData d # q) stop"
    and "ts_reader s \<in> {RFirst, RBody e}"
  shows "tar_inv closing script (s\<lparr>ts_sender := SSending q stop, ts_got := ts_got s @ [d], ts_reader := RBody (ts_reader s = RFirst \<or> e)\<rparr>)"
proof -
  from inv obtain sent where sent: "fst (run_packets closing script) = sent @ fst (pending closing s)" "sent_ok s sent"
    "snd (run_packets closing script) = snd (pending closing s)" "chan_ok s"
    unfolding tar_inv_def by blast
  then show ?thesis using snd assms(3)
    by (intro tar_invI [where sent = "sent @ [SendData d]"]) (auto simp: sent_ok_def chan_ok_def)
qed

lemma tar_inv_reader_header:
  assumes inv: "tar_inv closing script s" and pc: "ts_reader s = RHeader h e"
    and step: "s' \<in> set (readTarStreamHeader_step h e s)"
  shows "tar_inv closing script s'"
proof -
  from inv have c: "chan_ok s" by (simp add: tar_inv_def)
  consider "s' = s\<lparr>ts_reader := RDone (Inl (Errorf ''header channel closed, no hash received''))\<rparr>"
    | r s1 where "(r, s1) \<in> set (recv_hdr s)"
        "s' = (case r of Some header \<Rightarrow> s1\<lparr>ts_header := Some header, ts_reader := RGap\<rparr> | None \<Rightarrow> s1\<lparr>ts_reader := RHeader False e\<rparr>)"
    | r s1 where "(r, s1) \<in> set (recv_err s)" "e"
        "s' = (case r of None \<Rightarrow> s1\<lparr>ts_reader := RHeader h False\<rparr> | Some (Some err) \<Rightarrow> s1\<lparr>ts_reader := RDone (Inl err)\<rparr>
                  | Some None \<Rightarrow> s1\<lparr>ts_reader := RHeader h e\<rparr>)"
    using step by (auto simp: readTarStreamHeader_step_def split: if_splits)
  then show ?thesis
  proof cases
    case 1
    with pc c show ?thesis by (intro tar_inv_keep [OF inv]) (auto simp: sent_ok_def chan_ok_def)
  next
    case 2
    from 2(1) show ?thesis
      by (cases rule: recv_hdr_cases) (use 2(2) pc c in \<open>intro tar_inv_keep [OF inv]; auto simp: sent_ok_def chan_ok_def\<close>)+
  next
    case 3
    from 3(1) show ?thesis
      by (cases rule: recv_err_cases)
        (use 3(2,3) pc c in \<open>intro tar_inv_keep [OF inv]; auto simp: sent_ok_def chan_ok_def split: option.splits\<close>)+
  qed
qed

lemma tar_inv_reader_first:
  assumes inv: "tar_inv closing script s" and pc: "ts_reader s = RFirst" and step: "s' \<in> set (readTarHeader_step s)"
  shows "tar_inv closing script s'"
proof -
  from inv have c: "chan_ok s" by (simp add: tar_inv_def)
  consider r s1 where "(r, s1) \<in> set (recv_data s)"
        "s' = (case r of Some d \<Rightarrow> s1\<lparr>ts_reader := RBody True\<rparr> | None \<Rightarrow> s1\<lparr>ts_reader := RFirstErr\<rparr>)"
    | r s1 where "(r, s1) \<in> set (recv_err s)"
        "s' = (case r of Some (Some err) \<Rightarrow> s1\<lparr>ts_reader := RDone (Inl err)\<rparr> | _ \<Rightarrow> s1\<lparr>ts_reader := RBody True\<rparr>)"
    using step by (auto simp: readTarHeader_step_def)
  then show ?thesis
  proof cases
    case 1
    from 1(1) show ?thesis
    proof (cases rule: recv_data_cases)
      case 1
      with \<open>s' = _\<close> pc c show ?thesis by (intro tar_inv_keep [OF inv]) (auto simp: sent_ok_def chan_ok_def)
    next
      case (2 d q stop)
      with tar_inv_data [OF inv 2(2), of True] pc \<open>s' = _\<close> show ?thesis by simp
    qed
  next
    case 2
    from 2(1) show ?thesis
      by (cases rule: recv_err_cases)
        (use 2(2) pc c in \<open>intro tar_inv_keep [OF inv]; auto simp: sent_ok_def chan_ok_def split: option.splits\<close>)+
  qed
qed

lemma tar_inv_reader_first_err:
  assumes inv: "tar_inv closing script s" and pc: "ts_reader s = RFirstErr" and step: "s' \<in> set (readTarHeader_err_step s)"
  shows "tar_inv closing script s'"
proof -
  from inv have c: "chan_ok s" by (simp add: tar_inv_def)
  from step obtain r s1 where r: "(r, s1) \<in> set (recv_err s)"
      "s' = (case r of Some (Some err) \<Rightarrow> s1\<lparr>ts_reader := RDone (Inl err)\<rparr>
          | _ \<Rightarrow> s1\<lparr>ts_reader := RDone (Inl (Errorf ''data channel closed''))\<rparr>)"
    by (auto simp: readTarHeader_err_step_def)
  from r(1) show ?thesis
    by (cases rule: recv_err_cases)
      (use r(2) pc c in \<open>intro tar_inv_keep [OF inv]; auto simp: sent_ok_def chan_ok_def split: option.splits\<close>)+
qed

lemma tar_inv_reader_body:
  assumes inv: "tar_inv closing script s" and pc: "ts_reader s = RBody e" and step: "s' \<in> set (readTarBody_step e s)"
  shows "tar_inv closing script s'"
proof -
  from inv have c: "chan_ok s" by (simp add: tar_inv_def)
  consider r s1 where "(r, s1) \<in> set (recv_data s)" "s' = (case r of Some d \<Rightarrow> s1\<lparr>ts_reader := RBody e\<rparr> | None \<Rightarrow> body_end e s1)"
    | r s1 where "(r, s1) \<in> set (recv_err s)" "e"
        "s' = (case r of None \<Rightarrow> s1\<lparr>ts_reader := RBody False\<rparr> | Some (Some err) \<Rightarrow> s1\<lparr>ts_reader := RDone (Inl err)\<rparr>
               | Some None \<Rightarrow> s1\<lparr>ts_reader := RBody e\<rparr>)"
    using step unfolding readTarBody_step_def by (auto split: if_splits)
  then show ?thesis
  proof cases
    case 1
    from 1(1) show ?thesis
    proof (cases rule: recv_data_cases)
      case closed: 1
      show ?thesis
      proof (cases "ts_err s")
        case Nil
        with closed \<open>s' = _\<close> have "s' = s\<lparr>ts_reader := RDone (Inr ())\<rparr>" by (simp add: body_end_def)
        with closed(3) Nil pc c show ?thesis by (intro tar_inv_keep [OF inv]) (auto simp: sent_ok_def chan_ok_def)
      next
        case (Cons x es)
        then have "e" "es = []" using c pc by (cases e; auto simp: chan_ok_def)+
        with Cons closed \<open>s' = _\<close>
        have "s' = s\<lparr>ts_err := [], ts_reader := RDone (case x of Some err \<Rightarrow> Inl err | None \<Rightarrow> Inr ())\<rparr>"
          by (simp add: body_end_def)
        with closed(3) Cons pc c show ?thesis
          by (intro tar_inv_keep [OF inv]; cases x) (auto simp: sent_ok_def chan_ok_def)
      qed
    next
      case (2 d' q stop)
      with tar_inv_data [OF inv 2(2), of e] pc \<open>s' = _\<close> show ?thesis by simp
    qed
  next
    case 2
    from 2(1) show ?thesis
      by (cases rule: recv_err_cases)
        (use 2(2,3) pc c in \<open>intro tar_inv_keep [OF inv]; auto simp: sent_ok_def chan_ok_def split: option.splits\<close>)+
  qed
qed

lemma tar_inv_step:
  assumes inv: "tar_inv closing script s" and "tar_step closing s s'"
  shows "tar_inv closing script s'"
proof -
  from inv have c: "chan_ok s" by (simp add: tar_inv_def)
  from assms(2) show ?thesis
  proof cases
    case sender
    with inv show ?thesis by (rule tar_inv_sender)
  next
    case reader
    then show ?thesis
    proof (cases "ts_reader s")
      case RGap
      with reader have "s' = s\<lparr>ts_reader := RFirst\<rparr> \<or> s' = s\<lparr>ts_reader := RGone\<rparr>" by (simp add: Receive_step_def)
      with c RGap show ?thesis by (elim disjE) (intro tar_inv_keep [OF inv]; auto simp: sent_ok_def chan_ok_def)+
    next
      case (RHeader h e)
      with reader show ?thesis by (intro tar_inv_reader_header [OF inv RHeader]) (simp add: Receive_step_def)
    next
      case RFirst
      with reader show ?thesis by (intro tar_inv_reader_first [OF inv RFirst]) (simp add: Receive_step_def)
    next
      case RFirstErr
      with reader show ?thesis by (intro tar_inv_reader_first_err [OF inv RFirstErr]) (simp add: Receive_step_def)
    next
      case (RBody e)
      with reader show ?thesis by (intro tar_inv_reader_body [OF inv RBody]) (simp add: Receive_step_def)
    qed (use reader in \<open>simp_all add: Receive_step_def\<close>)
  next
    case cancel
    then have "s' = s\<lparr>ts_reader := RDone (Inl ContextCanceled)\<rparr>"
      by (cases "ts_reader s") (auto simp: ctx_cases_def)
    moreover have "ts_reader s \<noteq> RDone (Inr ())" using cancel by (cases "ts_reader s") (auto simp: ctx_cases_def)
    ultimately show ?thesis using c by (intro tar_inv_keep [OF inv]) (auto simp: sent_ok_def chan_ok_def)
  qed
qed

lemma tar_reachable_inv: "tar_reachable closing script s \<Longrightarrow> tar_inv closing script s"
  by (induction rule: tar_reachable.induct) (auto intro: tar_inv_init tar_inv_step)

section \<open>Progress\<close>

fun headers :: "tar_send list \<Rightarrow> tarStreamHeader list" where
  "headers [] = []"
| "headers (SendHeader h # q) = h # headers q"
| "headers (_ # q) = headers q"

lemma headers_append [simp]: "headers (xs @ ys) = headers xs @ headers ys"
  by (induction xs rule: headers.induct) auto

text \<open>A stream of the protocol: one header, before all data, and a packet that ends it.\<close>

definition well_formed_stream :: "(goerr \<Rightarrow> bool) \<Rightarrow> (goerr + client_stream) list \<Rightarrow> bool" where
  "well_formed_stream closing script \<longleftrightarrow>
     (\<exists>h rest. run_packets closing script = (SendHeader h # rest, True) \<and> headers rest = [])"

definition hdr_inv :: "(goerr \<Rightarrow> bool) \<Rightarrow> (goerr + client_stream) list \<Rightarrow> tar_sys \<Rightarrow> bool" where
  "hdr_inv closing script s \<longleftrightarrow>
     headers (fst (run_packets closing script)) =
       (case ts_header s of None \<Rightarrow> [] | Some h \<Rightarrow> [h]) @ ts_hdr s @ headers (fst (pending closing s)) \<and>
     (ts_hdr_closed s \<longrightarrow> ts_sender s \<in> {SCloseErr, SExited}) \<and>
     (ts_sender s \<in> {SCloseHeader, SCloseErr, SExited} \<longrightarrow> ts_data_closed s) \<and>
     (ts_sender s \<in> {SCloseErr, SExited} \<longrightarrow> ts_hdr_closed s) \<and>
     (ts_sender s = SExited \<longrightarrow> ts_err_closed s) \<and>
     (\<forall>h e. ts_reader s = RHeader h e \<longrightarrow> ts_header s = None \<and> (\<not> h \<longrightarrow> ts_hdr_closed s)) \<and>
     (ts_reader s = RFirstErr \<longrightarrow> ts_data_closed s)"

lemma hdr_inv_init: "hdr_inv closing script (tar_init script)"
  by (simp add: hdr_inv_def tar_init_def)

lemma hdr_inv_sender:
  assumes "hdr_inv closing script s" "s' \<in> set (startTar_step closing s)"
  shows "hdr_inv closing script s'"
proof (cases "ts_sender s")
  case SRecv
  then obtain r rs where "ts_in s = r # rs" using assms(2) by (cases "ts_in s") (auto simp: startTar_step_def)
  moreover obtain q stop where "startTar_turn closing r = (q, stop)" by fastforce
  ultimately show ?thesis using SRecv assms by (auto simp: startTar_step_def hdr_inv_def)
next
  case (SSending q stop)
  then show ?thesis
  proof (cases q)
    case (Cons x q')
    then show ?thesis using SSending assms by (cases x) (auto simp: startTar_step_def hdr_inv_def)
  qed (use assms SSending in \<open>auto simp: startTar_step_def hdr_inv_def\<close>)
qed (use assms in \<open>auto simp: startTar_step_def hdr_inv_def\<close>)

lemma hdr_inv_keep:
  assumes "hdr_inv closing script s" "ts_sender s' = ts_sender s" "ts_in s' = ts_in s" "ts_data_closed s' = ts_data_closed s"
    "ts_hdr_closed s' = ts_hdr_closed s" "ts_err_closed s' = ts_err_closed s"
    and "(case ts_header s' of None \<Rightarrow> [] | Some h \<Rightarrow> [h]) @ ts_hdr s' = (case ts_header s of None \<Rightarrow> [] | Some h \<Rightarrow> [h]) @ ts_hdr s"
    and "\<forall>h e. ts_reader s' = RHeader h e \<longrightarrow> ts_header s' = None \<and> (\<not> h \<longrightarrow> ts_hdr_closed s)"
    and "ts_reader s' = RFirstErr \<longrightarrow> ts_data_closed s"
  shows "hdr_inv closing script s'"
proof -
  have "pending closing s' = pending closing s" unfolding pending.simps assms(2,3) ..
  with assms show ?thesis unfolding hdr_inv_def append_assoc [symmetric] by simp
qed

lemma hdr_inv_data:
  assumes inv: "hdr_inv closing script s" and "ts_sender s = SSending (SendData d # q) stop"
  shows "hdr_inv closing script (s\<lparr>ts_sender := SSending q stop, ts_got := ts_got s @ [d], ts_reader := RBody e\<rparr>)"
  using assms by (simp add: hdr_inv_def)

lemma hdr_inv_reader:
  assumes inv: "hdr_inv closing script s" and step: "s' \<in> set (Receive_step s)"
  shows "hdr_inv closing script s'"
proof (cases "ts_reader s")
  case (RHeader h e)
  from inv RHeader have hd: "ts_header s = None" "\<not> h \<longrightarrow> ts_hdr_closed s" by (simp_all add: hdr_inv_def)
  show ?thesis using step RHeader hd
    by (intro hdr_inv_keep [OF inv])
      (auto simp: Receive_step_def readTarStreamHeader_step_def split: if_splits option.splits
        elim!: recv_hdr_cases recv_err_cases)
next
  case RGap
  then show ?thesis using step by (intro hdr_inv_keep [OF inv]) (auto simp: Receive_step_def)
next
  case RFirst
  with step consider r s1 where "(r, s1) \<in> set (recv_data s)"
        "s' = (case r of Some d \<Rightarrow> s1\<lparr>ts_reader := RBody True\<rparr> | None \<Rightarrow> s1\<lparr>ts_reader := RFirstErr\<rparr>)"
    | r s1 rd where "(r, s1) \<in> set (recv_err s)" "s' = s1\<lparr>ts_reader := rd\<rparr>" "\<forall>h e. rd \<noteq> RHeader h e" "rd \<noteq> RFirstErr"
    by (auto simp: Receive_step_def readTarHeader_step_def split: option.splits)
  then show ?thesis
  proof cases
    case 1
    from 1(1) show ?thesis
      by (cases rule: recv_data_cases) (use 1(2) hdr_inv_data [OF inv] in \<open>auto intro: hdr_inv_keep [OF inv]\<close>)
  next
    case 2
    from 2(1) show ?thesis
      by (cases rule: recv_err_cases) (use 2(2-4) in \<open>intro hdr_inv_keep [OF inv]; auto\<close>)+
  qed
next
  case RFirstErr
  then show ?thesis using step
    by (intro hdr_inv_keep [OF inv])
      (auto simp: Receive_step_def readTarHeader_err_step_def split: option.splits elim!: recv_err_cases)
next
  case (RBody e)
  with step consider r s1 where "(r, s1) \<in> set (recv_data s)"
        "s' = (case r of Some d \<Rightarrow> s1\<lparr>ts_reader := RBody e\<rparr> | None \<Rightarrow> body_end e s1)"
    | r s1 rd where "(r, s1) \<in> set (recv_err s)" "s' = s1\<lparr>ts_reader := rd\<rparr>" "\<forall>h e. rd \<noteq> RHeader h e" "rd \<noteq> RFirstErr"
    by (auto simp: Receive_step_def readTarBody_step_def split: option.splits if_splits)
  then show ?thesis
  proof cases
    case 1
    from 1(1) show ?thesis
      by (cases rule: recv_data_cases)
        (use 1(2) hdr_inv_data [OF inv] in \<open>auto intro: hdr_inv_keep [OF inv] simp: body_end_def split: list.split\<close>)
  next
    case 2
    from 2(1) show ?thesis
      by (cases rule: recv_err_cases) (use 2(2-4) in \<open>intro hdr_inv_keep [OF inv]; auto\<close>)+
  qed
qed (use step in \<open>simp_all add: Receive_step_def\<close>)

lemma hdr_inv_step:
  assumes inv: "hdr_inv closing script s" and "tar_step closing s s'"
  shows "hdr_inv closing script s'"
  using assms(2)
proof cases
  case sender
  with inv show ?thesis by (rule hdr_inv_sender)
next
  case reader
  with inv show ?thesis by (rule hdr_inv_reader)
next
  case cancel
  then have "s' = s\<lparr>ts_reader := RDone (Inl ContextCanceled)\<rparr>" by (cases "ts_reader s") (auto simp: ctx_cases_def)
  then show ?thesis by (intro hdr_inv_keep [OF inv]) auto
qed

lemma tar_reachable_hdr: "tar_reachable closing script s \<Longrightarrow> hdr_inv closing script s"
  by (induction rule: tar_reachable.induct) (auto intro: hdr_inv_init hdr_inv_step)

definition reader_finished :: "tar_sys \<Rightarrow> bool" where
  "reader_finished s = (case ts_reader s of RDone _ \<Rightarrow> True | RGone \<Rightarrow> True | _ \<Rightarrow> False)"

text \<open>A reader that is not finished takes what is in the error channel, and the end of the channels.\<close>

lemma reader_takes_err:
  assumes "\<not> reader_finished s" "chan_ok s" "ts_err s \<noteq> []"
  shows "Receive_step s \<noteq> []"
proof -
  obtain e es where e: "ts_err s = e # es" using assms(3) by (cases "ts_err s") auto
  show ?thesis
    using assms(1,2) e
    by (cases "ts_reader s")
      (auto simp: reader_finished_def Receive_step_def readTarStreamHeader_step_def readTarHeader_step_def
        readTarHeader_err_step_def readTarBody_step_def recv_err_def chan_ok_def)
qed

lemma reader_sees_close:
  assumes "\<not> reader_finished s" "ts_data_closed s" "ts_hdr_closed s" "ts_err_closed s"
  shows "Receive_step s \<noteq> []"
  using assms
  by (cases "ts_reader s")
    (auto simp: reader_finished_def Receive_step_def readTarStreamHeader_step_def readTarHeader_step_def
      readTarHeader_err_step_def readTarBody_step_def recv_err_def recv_hdr_def recv_data_def alt_if_def split: list.split)

lemma reader_takes_data:
  assumes "\<not> reader_finished s" "ts_sender s = SSending (SendData d # q) stop" "\<not> ts_data_closed s"
    and "ts_reader s \<noteq> RFirstErr" "\<And>h e. ts_reader s = RHeader h e \<Longrightarrow> h \<and> ts_hdr s \<noteq> []"
  shows "Receive_step s \<noteq> []"
proof (cases "ts_reader s")
  case (RHeader h e)
  with assms(5) obtain x xs where "h" "ts_hdr s = x # xs" by (metis neq_Nil_conv)
  with RHeader show ?thesis by (simp add: Receive_step_def readTarStreamHeader_step_def recv_hdr_def)
qed (use assms in \<open>auto simp: reader_finished_def Receive_step_def readTarHeader_step_def readTarBody_step_def recv_data_def\<close>)

lemma tar_progress:
  assumes "tar_reachable closing script s" "well_formed_stream closing script" "\<not> reader_finished s"
  shows "startTar_step closing s \<noteq> [] \<or> Receive_step s \<noteq> []"
proof -
  note hinv = tar_reachable_hdr [OF assms(1)]
  from tar_reachable_inv [OF assms(1)] obtain sent where sent:
    "fst (run_packets closing script) = sent @ fst (pending closing s)"
    "snd (run_packets closing script) = snd (pending closing s)" and chan: "chan_ok s"
    unfolding tar_inv_def by blast
  from assms(2) obtain h0 rest where wf: "run_packets closing script = (SendHeader h0 # rest, True)" "headers rest = []"
    unfolding well_formed_stream_def by blast
  show ?thesis
  proof (cases "ts_sender s")
    case SRecv
    with sent(2) wf(1) show ?thesis by (cases "ts_in s") (auto simp: startTar_step_def split: prod.split)
  next
    case (SSending q stop)
    show ?thesis
    proof (cases q)
      case Nil
      with SSending show ?thesis by (simp add: startTar_step_def)
    next
      case (Cons x q')
      show ?thesis
      proof (cases x)
        case (SendErr e)
        with Cons SSending reader_takes_err [OF assms(3) chan] show ?thesis
          by (cases "ts_err s") (auto simp: startTar_step_def alt_if_def)
      next
        case (SendHeader h)
        with Cons SSending hinv wf have "ts_hdr s = []" by (cases "ts_hdr s") (auto simp: hdr_inv_def split: if_splits)
        with Cons SSending SendHeader show ?thesis by (simp add: startTar_step_def alt_if_def)
      next
        case (SendData d)
        obtain q'' where p: "fst (pending closing s) = SendData d # q''" using SSending Cons SendData by (cases stop) auto
        with sent(1) wf(1) have "sent \<noteq> []" by auto
        with sent(1) wf p have "headers (fst (pending closing s)) = []" by (cases sent) auto
        with hinv wf have hs: "(case ts_header s of None \<Rightarrow> [] | Some h \<Rightarrow> [h]) @ ts_hdr s = [h0]" by (simp add: hdr_inv_def)
        have "h \<and> ts_hdr s \<noteq> []" if "ts_reader s = RHeader h e" for h e
          using hinv that hs SSending by (auto simp: hdr_inv_def)
        moreover have "ts_reader s \<noteq> RFirstErr" "\<not> ts_data_closed s"
          using hinv chan SSending by (auto simp: hdr_inv_def chan_ok_def)
        ultimately show ?thesis using reader_takes_data [OF assms(3)] SSending Cons SendData by blast
      qed
    qed
  next
    case SExited
    with hinv have "ts_data_closed s" "ts_hdr_closed s" "ts_err_closed s" by (simp_all add: hdr_inv_def)
    with reader_sees_close [OF assms(3)] show ?thesis by blast
  qed (simp_all add: startTar_step_def)
qed

text \<open>Every step consumes a packet, a pending send, a buffered value or a stage of the reader.\<close>

fun sender_rank :: "sender_pc \<Rightarrow> nat" where
  "sender_rank SRecv = 5"
| "sender_rank (SSending q stop) = 2 * length q + 6"
| "sender_rank SCloseData = 4"
| "sender_rank SCloseHeader = 3"
| "sender_rank SCloseErr = 2"
| "sender_rank SExited = 1"

fun reader_rank :: "reader_pc \<Rightarrow> nat" where
  "reader_rank (RHeader h e) = 10 + of_bool h + of_bool e"
| "reader_rank RGap = 9"
| "reader_rank RFirst = 8"
| "reader_rank RFirstErr = 7"
| "reader_rank (RBody e) = 4 + of_bool e"
| "reader_rank (RDone r) = 0"
| "reader_rank RGone = 0"

definition tar_measure :: "tar_sys \<Rightarrow> nat" where
  "tar_measure s =
     8 * length (ts_in s) + sender_rank (ts_sender s) + length (ts_err s) + length (ts_hdr s) + reader_rank (ts_reader s)"

lemma turn_length: "length (fst (startTar_turn closing r)) \<le> 2"
  by (auto simp: startTar_turn_def handleBuildTransfer_def handleImageTransfer_def split: sum.split option.split)

lemma sender_decreases:
  assumes "s' \<in> set (startTar_step closing s)"
  shows "tar_measure s' < tar_measure s"
proof (cases "ts_sender s")
  case SRecv
  then obtain r rs where r: "ts_in s = r # rs" using assms by (cases "ts_in s") (auto simp: startTar_step_def)
  moreover obtain q stop where "startTar_turn closing r = (q, stop)" by fastforce
  moreover from this have "length q \<le> 2" using turn_length [of closing r] by simp
  ultimately show ?thesis using SRecv assms by (simp add: startTar_step_def tar_measure_def)
next
  case (SSending q stop)
  then show ?thesis
  proof (cases q)
    case (Cons x q')
    then show ?thesis using SSending assms by (cases x) (auto simp: startTar_step_def tar_measure_def alt_if_def split: if_splits)
  qed (use assms SSending in \<open>auto simp: startTar_step_def tar_measure_def\<close>)
qed (use assms in \<open>auto simp: startTar_step_def tar_measure_def\<close>)

lemma reader_decreases:
  assumes "s' \<in> set (Receive_step s)"
  shows "tar_measure s' < tar_measure s"
proof (cases "ts_reader s")
  case (RHeader h e)
  with assms show ?thesis
    by (auto simp: Receive_step_def readTarStreamHeader_step_def tar_measure_def split: if_splits option.splits
        elim!: recv_hdr_cases recv_err_cases)
next
  case RFirst
  with assms show ?thesis
    by (auto simp: Receive_step_def readTarHeader_step_def tar_measure_def split: option.splits
        elim!: recv_data_cases recv_err_cases)
next
  case RFirstErr
  with assms show ?thesis
    by (auto simp: Receive_step_def readTarHeader_err_step_def tar_measure_def split: option.splits elim!: recv_err_cases)
next
  case (RBody e)
  with assms show ?thesis
    by (auto simp: Receive_step_def readTarBody_step_def body_end_def tar_measure_def split: option.splits if_splits list.split
        elim!: recv_data_cases recv_err_cases)
qed (use assms in \<open>auto simp: Receive_step_def tar_measure_def\<close>)

lemma tar_step_decreases:
  assumes "tar_step closing s s'"
  shows "tar_measure s' < tar_measure s"
  using assms
proof cases
  case cancel
  then have "s' = s\<lparr>ts_reader := RDone (Inl ContextCanceled)\<rparr>" "reader_rank (ts_reader s) > 0"
    by (cases "ts_reader s"; auto simp: ctx_cases_def)+
  then show ?thesis by (simp add: tar_measure_def)
qed (auto intro: sender_decreases reader_decreases)

section \<open>Executable runs\<close>

fun tar_exec :: "(goerr \<Rightarrow> bool) \<Rightarrow> nat list \<Rightarrow> tar_sys \<Rightarrow> tar_sys" where
  "tar_exec closing [] s = s"
| "tar_exec closing (k # ks) s =
     (let succ = startTar_step closing s @ Receive_step s @ ctx_cases s
      in if k < length succ then tar_exec closing ks (succ ! k) else s)"

lemma tar_exec_reachable: "tar_reachable closing script s \<Longrightarrow> tar_reachable closing script (tar_exec closing ks s)"
proof (induction ks arbitrary: s)
  case (Cons k ks)
  let ?succ = "startTar_step closing s @ Receive_step s @ ctx_cases s"
  show ?case
  proof (cases "k < length ?succ")
    case True
    then have "?succ ! k \<in> set ?succ" by (rule nth_mem)
    then have "tar_step closing s (?succ ! k)" by (auto intro: tar_step.intros)
    with Cons show ?thesis using True by (simp add: Let_def tar_reachable.step)
  qed (use Cons in simp)
qed simp

text \<open>A header and two data packets, the second complete.\<close>

definition demo_packet :: "smap \<Rightarrow> bytes \<Rightarrow> bool \<Rightarrow> goerr + client_stream" where
  "demo_packet md d complete =
     Inr \<lparr>cs_build_id = ''b'', cs_packet = CBuildTransfer (empty_build_transfer\<lparr>bt_metadata := md, bt_data := d, bt_complete := complete\<rparr>)\<rparr>"

definition demo_tar_stream :: "(goerr + client_stream) list" where
  "demo_tar_stream = [demo_packet [(''hash'', ''h'')] [] False, demo_packet [] ''ab'' False, demo_packet [] ''cd'' True]"



text \<open>
  C16. The reader of a well-formed tar stream always finishes, without the help of its context:
  no run of the sender and the reader is infinite, and a reachable state in which neither of them
  can move is one in which the reader has finished.
\<close>

theorem tar_reader_finishes:
  assumes "well_formed_stream closing script"
  shows "\<not> (\<exists>f. f 0 = tar_init script \<and> (\<forall>i. tar_step closing (f i) (f (Suc i)))) \<and>
    (\<forall>s. tar_reachable closing script s \<and> startTar_step closing s @ Receive_step s = [] \<longrightarrow> reader_finished s)"
proof (intro conjI notI allI impI)
  assume "\<exists>f. f 0 = tar_init script \<and> (\<forall>i. tar_step closing (f i) (f (Suc i)))"
  then obtain f where "\<forall>i. tar_step closing (f i) (f (Suc i))" by blast
  then have "\<forall>i. (f (Suc i), f i) \<in> measure tar_measure" using tar_step_decreases by (metis in_measure)
  then show False using wf_measure [of tar_measure] unfolding wf_iff_no_infinite_down_chain by blast
next
  fix s assume "tar_reachable closing script s \<and> startTar_step closing s @ Receive_step s = []"
  then show "reader_finished s" using tar_progress [of closing script s] assms by auto
qed

theorem tar_reader_finishes_witness:
  "well_formed_stream (\<lambda>_. False) demo_tar_stream \<and>
   reader_finished (tar_exec (\<lambda>_. False) (replicate 21 0) (tar_init demo_tar_stream))"
proof -
  have wf: "well_formed_stream (\<lambda>_. False) demo_tar_stream"
    unfolding well_formed_stream_def
    by (rule exI [of _ "\<lparr>th_checksum = ''h'', th_complete = False\<rparr>"], rule exI [of _ "[SendData ''ab'', SendData ''cd'', SendErr None]"]) code_simp
  have stuck: "startTar_step (\<lambda>_. False) (tar_exec (\<lambda>_. False) (replicate 21 0) (tar_init demo_tar_stream)) @
      Receive_step (tar_exec (\<lambda>_. False) (replicate 21 0) (tar_init demo_tar_stream)) = []" by code_simp
  show ?thesis using wf stuck tar_reader_finishes [OF wf] tar_exec_reachable [OF tar_reachable.start] by blast
qed

text \<open>
  The sender has no such guarantee: a reader that returns in the gap (an invalid digest, for
  example) leaves the goroutine at its next data packet for ever.
\<close>

lemma startTar_leaks:
  assumes "ts_reader s \<in> {RGone, RDone r}" "ts_sender s = SSending (SendData d # q) stop"
  shows "\<not> tar_step closing s s'"
  using assms by (auto simp: tar_step.simps startTar_step_def Receive_step_def ctx_cases_def)

end
