(* ===== verification/Tar_Receive.thy ===== *)
theory Tar_Receive
  imports Tar_Cache Tar_Stream
begin

text \<open>
  \<open>Receiver.Receive\<close> (\<open>pkg/fileutils/tarxfer.go\<close>): the context arrives as a tar stream, is stored
  under its digest and walked. The three reads from the stream are arguments, with the values that
  the runs of \<open>Tar_Stream\<close> produce: the header, the first block, and the blocks of the body with the
  error that ends them. \<open>attrs\<close> gives the size of directories and links and the modification times,
  which the file system of the model does not have.
\<close>

section \<open>The walk of a cached context\<close>

type_synonym attributes = "path \<Rightarrow> int \<times> int"

definition node_info :: "attributes \<Rightarrow> path \<Rightarrow> node \<Rightarrow> file_info" where
  \<comment> \<open>the \<open>os.FileInfo\<close> of \<open>Lstat\<close>\<close>
  "node_info attrs p n =
     \<lparr>fi_NameVal = (if p = [] then ''/'' else last p),
      fi_SizeVal = (case n of Reg _ d \<Rightarrow> int (length d) | _ \<Rightarrow> fst (attrs p)),
      fi_ModeVal = (case n of Dir \<Rightarrow> ModeDir OR 493 | Reg m _ \<Rightarrow> of_nat m AND 511 | Sym _ \<Rightarrow> ModeSymlink OR 511),
      fi_ModTimeVal = snd (attrs p), fi_IsDirVal = (n = Dir), fi_Uid = 0, fi_Gid = 0, fi_LinkName = []\<rparr>"

definition isSupportedCacheEntry :: "file_info \<Rightarrow> bool" where
  "isSupportedCacheEntry info \<longleftrightarrow>
     fi_ModeVal info AND ModeType = 0 \<or> fi_IsDirVal info \<or> fi_ModeVal info AND ModeSymlink \<noteq> 0"

type_synonym 's walk_fn = "string \<Rightarrow> file_info \<Rightarrow> 's \<Rightarrow> goerr + 's"

definition walkCachedEntry :: "string \<Rightarrow> string \<Rightarrow> file_info \<Rightarrow> 's walk_fn \<Rightarrow> 's \<Rightarrow> 's io" where
  "walkCachedEntry path relativePath info fn st =
     io_bind (if fi_ModeVal info AND ModeSymlink \<noteq> 0 then sys_Readlink path else io_return []) (\<lambda>linkName.
       io_lift (fn relativePath
         \<lparr>fi_NameVal = relativePath, fi_SizeVal = fi_SizeVal info, fi_ModeVal = fi_ModeVal info,
          fi_ModTimeVal = fi_ModTimeVal info, fi_IsDirVal = fi_IsDirVal info, fi_Uid = 0, fi_Gid = 0, fi_LinkName = linkName\<rparr> st))"

definition visit_cached :: "attributes \<Rightarrow> string \<Rightarrow> 's walk_fn \<Rightarrow> path \<times> node \<Rightarrow> 's \<Rightarrow> 's io" where
  \<comment> \<open>the function that \<open>walkCachedContext\<close> passes to \<open>filepath.Walk\<close>\<close>
  "visit_cached attrs cacheDir fn e st =
     (case e of (p, n) \<Rightarrow>
        (case path_Rel cacheDir (abs_path p) of
           Inl err \<Rightarrow> io_fail err
         | Inr rel \<Rightarrow>
             if rel = ''.'' \<or> rel = cacheCompletionMarker then io_return st
             else if \<not> isSupportedCacheEntry (node_info attrs p n) then io_return st
             else walkCachedEntry (abs_path p) rel (node_info attrs p n) fn st))"

text \<open>
  \<open>filepath.Walk\<close>: pre-order, the entries of a directory in the order of their names, links not
  followed. The depth of the tree bounds the recursion.
\<close>

fun walk_tree :: "nat \<Rightarrow> fs \<Rightarrow> path \<Rightarrow> (path \<times> node) list" where
  "walk_tree 0 fs p = []"
| "walk_tree (Suc n) fs p =
     (case fs_get fs p of
        None \<Rightarrow> []
      | Some Dir \<Rightarrow> (p, Dir) # concat (map (\<lambda>c. walk_tree n fs (p @ [c])) (children fs p))
      | Some nd \<Rightarrow> [(p, nd)])"

definition fs_depth :: "fs \<Rightarrow> nat" where
  "fs_depth fs = foldr max (map (\<lambda>(p, _). length p) fs) 0"

fun visit_each :: "(path \<times> node \<Rightarrow> 's \<Rightarrow> 's io) \<Rightarrow> (path \<times> node) list \<Rightarrow> 's \<Rightarrow> 's io" where
  "visit_each f [] st = io_return st"
| "visit_each f (e # es) st = io_bind (f e st) (visit_each f es)"

definition walkCachedContext :: "attributes \<Rightarrow> string \<Rightarrow> 's walk_fn \<Rightarrow> 's \<Rightarrow> 's io" where
  "walkCachedContext attrs cacheDir fn st =
     io_bind (sys_Lstat cacheDir) (\<lambda>_. \<lambda>fs.
       case resolve False cacheDir fs of
         Inl e \<Rightarrow> (Inl e, fs)
       | Inr root \<Rightarrow> visit_each (visit_cached attrs cacheDir fn) (walk_tree (Suc (fs_depth fs)) fs root) st fs)"

section \<open>Receive\<close>

definition readTarBody :: "string \<Rightarrow> bool \<Rightarrow> bytes list \<times> goerr option \<Rightarrow> unit io" where
  "readTarBody tarPath cached body =
     io_then (io_each (\<lambda>d. if cached then io_return () else sys_append tarPath d) (fst body))
       (case snd body of Some e \<Rightarrow> io_fail e | None \<Rightarrow> io_return ())"

record 's receive_env =
  rx_untar :: untar_fn
  rx_sha256 :: "bytes \<Rightarrow> bytes"
  rx_ctx :: "nat \<Rightarrow> goerr option"
  rx_locked :: "goerr + bool"
  rx_rnd_file :: "string list"
  rx_rnd_dir :: "string list"
  rx_attrs :: attributes
  rx_fn :: "'s walk_fn"

definition store_context :: "'s receive_env \<Rightarrow> string \<Rightarrow> string \<Rightarrow> string \<Rightarrow> bytes list \<times> goerr option \<Rightarrow> unit io" where
  \<comment> \<open>the body of \<open>Receive\<close> for a context that is not cached, after the tar file was created\<close>
  "store_context env cacheBase checksum tarFile body =
     io_then (readTarBody tarFile False body)
       (io_then (verifyTarHash (rx_sha256 env) tarFile checksum)
         (publishTar (rx_untar env) (rx_ctx env) (rx_locked env) (rx_rnd_dir env) tarFile (path_Join [cacheBase, checksum]) cacheBase))"

definition fetch_context :: "'s receive_env \<Rightarrow> string \<Rightarrow> string \<Rightarrow> goerr + bytes \<Rightarrow> bytes list \<times> goerr option \<Rightarrow> unit io" where
  "fetch_context env cacheBase checksum first body =
     io_bind (io_lift first) (\<lambda>tarHeader.
     io_bind (writeTar (rx_rnd_file env) cacheBase tarHeader) (\<lambda>tarFile.
       io_defer (store_context env cacheBase checksum tarFile body) (sys_Remove tarFile)))"

definition Receive ::
    "'s receive_env \<Rightarrow> string \<Rightarrow> goerr + tarStreamHeader \<Rightarrow> goerr + bytes \<Rightarrow> bytes list \<times> goerr option \<Rightarrow> 's \<Rightarrow> (string \<times> 's) io" where
  "Receive env cacheBase hdr first body st =
     io_bind (io_lift hdr) (\<lambda>header.
     let checksum = th_checksum header; cacheDir = path_Join [cacheBase, checksum]
     in io_then (io_lift (validateContextDigest checksum))
          (io_then (sys_MkdirAll cacheBase)
            (io_bind (CachedContextPresent cacheBase checksum) (\<lambda>cached.
              io_then
                (if th_complete header then
                   (if \<not> cached then io_fail (Errorf ''context marked complete but is not cached'') else io_return ())
                 else if cached then io_bind (io_lift first) (\<lambda>_. readTarBody [] True body)
                 else fetch_context env cacheBase checksum first body)
                (io_bind (walkCachedContext (rx_attrs env) cacheDir (rx_fn env) st) (\<lambda>st'. io_return (checksum, st')))))))"

section \<open>The walk visits every node once\<close>

lemma children_iff: "c \<in> set (children fs p) \<longleftrightarrow> fs_get fs (p @ [c]) \<noteq> None"
proof -
  have "c \<in> set (children fs p) \<longleftrightarrow> (\<exists>n. (p @ [c], n) \<in> set fs)"
    by (auto simp: children_def snoc_eq_iff_butlast image_iff)
  also have "\<dots> \<longleftrightarrow> map_of fs (p @ [c]) \<noteq> None" by (force simp: map_of_eq_None_iff)
  finally show ?thesis by (simp add: fs_get_def)
qed

lemma children_distinct: "distinct (children fs p)"
  by (simp add: children_def)

lemma walk_tree_iff:
  assumes "fs_tree fs"
  shows "(q, nd) \<in> set (walk_tree n fs p) \<longleftrightarrow> prefix p q \<and> length q < length p + n \<and> fs_get fs q = Some nd"
proof (induction n arbitrary: p)
  case 0
  show ?case by (auto dest: prefix_length_le)
next
  case (Suc n)
  have below: "q = p" if "prefix p q" "fs_get fs q = Some nd" "fs_get fs p \<noteq> Some Dir"
  proof (rule ccontr)
    assume "q \<noteq> p"
    with that(1) obtain c r where q: "q = (p @ [c]) @ r" by (metis append.right_neutral append_Cons append_Nil append_assoc neq_Nil_conv prefixE)
    have "fs_get fs (p @ [c]) = None" using assms that(3) unfolding fs_tree_def by blast
    then have "fs_get fs q = None" unfolding q by (rule fs_tree_below [OF assms])
    with that(2) show False by simp
  qed
  have child: "(\<exists>c. fs_get fs (p @ [c]) \<noteq> None \<and> prefix (p @ [c]) q) \<longleftrightarrow> strict_prefix p q" if "fs_get fs q = Some nd"
  proof
    assume "strict_prefix p q"
    then obtain zs where "q = p @ zs" "zs \<noteq> []" by (auto simp: strict_prefix_def prefix_def)
    then obtain c r where q: "q = (p @ [c]) @ r" by (cases zs) auto
    then have "fs_get fs (p @ [c]) \<noteq> None" using fs_tree_below [OF assms] that by fastforce
    with q show "\<exists>c. fs_get fs (p @ [c]) \<noteq> None \<and> prefix (p @ [c]) q" by (auto intro: exI [of _ c])
  qed (auto simp: strict_prefix_def prefix_def)
  show ?case
  proof (cases "fs_get fs p = Some Dir")
    case True
    have "(q, nd) \<in> set (walk_tree (Suc n) fs p) \<longleftrightarrow>
        (q, nd) = (p, Dir) \<or> (\<exists>c. fs_get fs (p @ [c]) \<noteq> None \<and> (q, nd) \<in> set (walk_tree n fs (p @ [c])))"
      using True by (auto simp: children_iff)
    also have "\<dots> \<longleftrightarrow> (q, nd) = (p, Dir) \<or> (strict_prefix p q \<and> length q < length p + Suc n \<and> fs_get fs q = Some nd)"
      unfolding Suc.IH using child by auto
    also have "\<dots> \<longleftrightarrow> prefix p q \<and> length q < length p + Suc n \<and> fs_get fs q = Some nd"
      using True by (auto simp: strict_prefix_def)
    finally show ?thesis .
  next
    case False
    then have "(q, nd) \<in> set (walk_tree (Suc n) fs p) \<longleftrightarrow> q = p \<and> fs_get fs p = Some nd"
    proof (cases "fs_get fs p")
      case (Some m)
      with False show ?thesis by (cases m) auto
    qed simp
    with below [OF _ _ False] show ?thesis by auto
  qed
qed

lemma walk_tree_distinct: "fs_tree fs \<Longrightarrow> distinct (map fst (walk_tree n fs p))"
proof (induction n arbitrary: p)
  case (Suc n)
  have pre: "prefix (p @ [c]) q" if "q \<in> fst ` set (walk_tree n fs (p @ [c]))" for c q
    using that walk_tree_iff [OF Suc.prems] by auto
  have "distinct (map fst (concat (map (\<lambda>c. walk_tree n fs (p @ [c])) cs)))" if "distinct cs" for cs
    using that
  proof (induction cs)
    case (Cons c cs)
    have "fst ` set (walk_tree n fs (p @ [c])) \<inter> fst ` set (walk_tree n fs (p @ [d])) = {}" if "d \<in> set cs" for d
    proof -
      have "c \<noteq> d" using Cons.prems that by auto
      then have "\<not> (prefix (p @ [c]) q \<and> prefix (p @ [d]) q)" for q by (auto simp: prefix_def)
      then show ?thesis using pre by blast
    qed
    with Cons Suc show ?case by (auto simp: map_concat)
  qed simp
  moreover have "p \<notin> fst ` set (concat (map (\<lambda>c. walk_tree n fs (p @ [c])) cs))" for cs
    using pre by (fastforce dest: prefix_length_le)
  ultimately show ?case using children_distinct [of fs p] by (auto split: option.split node.split)
qed simp

lemma fs_depth_bound: "fs_get fs q \<noteq> None \<Longrightarrow> length q \<le> fs_depth fs"
proof -
  have "length q \<le> fs_depth fs" if "(q, n) \<in> set fs" for n
    using that unfolding fs_depth_def by (induction fs) auto
  moreover assume "fs_get fs q \<noteq> None"
  ultimately show ?thesis by (cases "q = []") (auto simp: fs_get_def dest: map_of_SomeD)
qed

section \<open>What a received context guarantees\<close>

lemma checkCache_iff:
  assumes "list_all proper (q @ [d])" "dirs_to q fs"
  shows "fst (checkCache (abs_path (q @ [d])) fs) = Inr True \<longleftrightarrow>
    fs_get fs (q @ [d]) = Some Dir \<and> (\<exists>m. fs_get fs (q @ [d, cacheCompletionMarker]) = Some (Reg m cacheCompletionValue))"
    (is "?L \<longleftrightarrow> ?R")
proof
  let ?m = "(q @ [d]) @ [cacheCompletionMarker]"
  have p: "list_all proper ?m" using assms(1) by (simp add: proper_def)
  note st = sys_Lstat_dirs [OF assms]
  assume L: ?L
  have dir: "fs_get fs (q @ [d]) = Some Dir"
  proof (cases "fs_get fs (q @ [d])")
    case None
    with L st show ?thesis by (simp add: checkCache_def io_bind_def io_try_def io_return_def)
  next
    case (Some n)
    with L st show ?thesis by (cases "n = Dir") (auto simp: checkCache_def io_bind_def io_try_def io_fail_def)
  qed
  then have dirs: "dirs_to (q @ [d]) fs" using assms(2) by (simp add: dirs_to_snoc)
  note stm = sys_Lstat_dirs [OF p dirs]
  note run = L [unfolded checkCache_def path_Join_snoc [OF p] Let_def]
  show ?R
  proof (cases "fs_get fs ?m")
    case None
    with run st stm dir show ?thesis by (simp add: io_bind_def io_try_def io_return_def)
  next
    case (Some n)
    show ?thesis
    proof (cases n)
      case (Reg m v)
      with Some have "resolve True (abs_path ?m) fs = Inr ?m" by (intro resolve_dirs [OF p dirs]) simp
      with run st stm Some Reg dir show ?thesis by (simp add: io_bind_def io_try_def io_return_def sys_ReadFile_def)
    qed (use run st stm dir Some in \<open>simp_all add: io_bind_def io_try_def io_fail_def\<close>)
  qed
next
  assume R: ?R
  then obtain m where "fs_get fs (q @ [d, cacheCompletionMarker]) = Some (Reg m cacheCompletionValue)" by blast
  moreover have "dirs_to (q @ [d]) fs" using R assms(2) by (simp add: dirs_to_snoc)
  ultimately show ?L using checkCache_complete [OF assms(1)] by blast
qed

lemma visit_each_pure:
  assumes "\<And>e st fs. snd (f e st fs) = fs"
  shows "snd (visit_each f es st fs) = fs"
proof (induction es arbitrary: st)
  case (Cons e es)
  show ?case
  proof (cases "f e st fs")
    case (Pair r fs')
    then have "fs' = fs" using assms [of e st fs] by simp
    with Pair Cons show ?thesis by (simp add: io_bind_def split: sum.split)
  qed
qed (simp add: io_return_def)

lemma walkCachedContext_pure: "snd (walkCachedContext attrs cacheDir fn st fs) = fs"
proof -
  have "snd (visit_cached attrs cacheDir fn e st fs) = fs" for e st fs
    by (auto simp: visit_cached_def walkCachedEntry_def io_bind_def io_lift_def io_return_def io_fail_def
        sys_Readlink_def sys_Lstat_def split: prod.split sum.split node.split)
  from visit_each_pure [OF this] show ?thesis
    by (auto simp: walkCachedContext_def io_bind_def sys_Lstat_def split: sum.split)
qed

text \<open>The tar file \<open>p\<close> holds \<open>dat\<close>, everything else is as it was.\<close>

definition tar_held :: "path \<Rightarrow> bytes \<Rightarrow> fs \<Rightarrow> fs \<Rightarrow> bool" where
  "tar_held p dat fs0 fs \<longleftrightarrow> fs_get fs p = Some (Reg 384 dat) \<and> (\<forall>q. q \<noteq> p \<longrightarrow> fs_get fs q = fs_get fs0 q)"

lemma tar_held_dirs:
  assumes "tar_held (bs @ [t]) dat fs0 fs" "dirs_to bs fs0"
  shows "dirs_to bs fs"
  using assms(2)
proof (rule dirs_to_same)
  fix k
  have "take k bs \<noteq> bs @ [t]" by (auto dest: arg_cong [where f = length])
  with assms(1) show "fs_get fs (take k bs) = fs_get fs0 (take k bs)" by (simp add: tar_held_def)
qed

lemma tar_held_tree:
  assumes "tar_held (bs @ [t]) dat fs0 fs" "dirs_to bs fs0" "fs_tree fs0" "fs_get fs0 (bs @ [t]) = None"
  shows "fs_tree fs"
  unfolding fs_tree_def
proof (intro allI impI)
  fix p c assume h: "fs_get fs (p @ [c]) \<noteq> None"
  show "fs_get fs p = Some Dir"
  proof (cases "p @ [c] = bs @ [t]")
    case True
    with dirs_to_self [OF tar_held_dirs [OF assms(1,2)]] show ?thesis by simp
  next
    case False
    with h assms(1) have "fs_get fs0 (p @ [c]) \<noteq> None" by (simp add: tar_held_def)
    with assms(3) have "fs_get fs0 p = Some Dir" unfolding fs_tree_def by blast
    with assms(1,4) show ?thesis unfolding tar_held_def by (cases "p = bs @ [t]") auto
  qed
qed

lemma sys_append_held:
  assumes "tar_held (bs @ [t]) dat fs0 fs" "dirs_to bs fs0" "list_all proper (bs @ [t])"
  shows "sys_append (abs_path (bs @ [t])) x fs = (Inr (), fs_put (bs @ [t]) (Reg 384 (dat @ x)) fs)"
    "tar_held (bs @ [t]) (dat @ x) fs0 (fs_put (bs @ [t]) (Reg 384 (dat @ x)) fs)"
proof -
  have "fs_get fs (bs @ [t]) = Some (Reg 384 dat)" using assms(1) by (simp add: tar_held_def)
  moreover from this have "resolve True (abs_path (bs @ [t])) fs = Inr (bs @ [t])"
    by (intro resolve_dirs [OF assms(3) tar_held_dirs [OF assms(1,2)]]) simp
  ultimately show "sys_append (abs_path (bs @ [t])) x fs = (Inr (), fs_put (bs @ [t]) (Reg 384 (dat @ x)) fs)"
    by (simp add: sys_append_def)
  show "tar_held (bs @ [t]) (dat @ x) fs0 (fs_put (bs @ [t]) (Reg 384 (dat @ x)) fs)"
    using assms(1) by (simp add: tar_held_def fs_get_put)
qed

lemma append_all_held:
  assumes "tar_held (bs @ [t]) dat fs0 fs" "dirs_to bs fs0" "list_all proper (bs @ [t])"
  shows "\<exists>fs'. io_each (\<lambda>d. if False then io_return () else sys_append (abs_path (bs @ [t])) d) ds fs = (Inr (), fs') \<and>
    tar_held (bs @ [t]) (dat @ concat ds) fs0 fs'"
  using assms(1)
proof (induction ds arbitrary: dat fs)
  case Nil
  then show ?case by (simp add: io_return_def)
next
  case (Cons d ds)
  from sys_append_held [OF Cons.prems assms(2,3), of d] Cons.IH
  show ?case by (fastforce simp: io_then_def io_bind_def)
qed

lemma sys_Remove_file:
  assumes "list_all proper (q @ [c])" "dirs_to q fs" "fs_get fs (q @ [c]) \<noteq> None" "\<And>x. fs_get fs (q @ [c, x]) = None"
  shows "sys_Remove (abs_path (q @ [c])) fs = (Inr (), fs_prune (q @ [c]) fs)"
proof -
  have "x \<notin> set (children fs (q @ [c]))" for x using assms(4) children_iff [of x fs "q @ [c]"] by simp
  then have "children fs (q @ [c]) = []" by (metis hd_in_set)
  with assms(3) show ?thesis using resolve_dirs [OF assms(1,2)] by (auto simp: sys_Remove_def)
qed

lemma remove_tar:
  assumes bs: "list_all proper (bs @ [t])" "list_all proper (bs @ [d])" and t: "t \<noteq> d" "t \<noteq> d @ ''.lock''"
    and fs0: "dirs_to bs fs0" "fs_tree fs0" "fs_get fs0 (bs @ [t]) = None"
    and held: "tar_held (bs @ [t]) dat fs0 fs2" and frame: "cache_frame bs d fs2 fs3"
  shows "cache_frame bs d fs0 (snd (sys_Remove (abs_path (bs @ [t])) fs3)) \<and>
    (fst (checkCache (abs_path (bs @ [d])) fs3) = Inr True \<longrightarrow>
     fst (checkCache (abs_path (bs @ [d])) (snd (sys_Remove (abs_path (bs @ [t])) fs3))) = Inr True)"
proof -
  let ?p = "bs @ [t]"
  have dirs: "dirs_to bs fs3" using dirs_to_frame [OF frame tar_held_dirs [OF held fs0(1)]] .
  have get3: "fs_get fs3 q = fs_get fs2 q" if "\<not> prefix (bs @ [d]) q" "q \<noteq> bs @ [d @ ''.lock'']" for q
    using frame that by (simp add: cache_frame_def)
  have "fs_get fs3 ?p \<noteq> None" using get3 [of ?p] held t by (simp add: tar_held_def)
  moreover have "fs_get fs3 (bs @ [t, x]) = None" for x
    using get3 [of "bs @ [t, x]"] held t fs_tree_below [OF fs0(2,3), of "[x]"] by (simp add: tar_held_def)
  ultimately have rm: "snd (sys_Remove (abs_path ?p) fs3) = fs_prune ?p fs3"
    using sys_Remove_file [OF bs(1) dirs] by simp
  have frame': "cache_frame bs d fs0 (fs_prune ?p fs3)"
    unfolding cache_frame_def
  proof (intro allI impI)
    fix q assume q: "\<not> prefix (bs @ [d]) q \<and> q \<noteq> bs @ [d @ ''.lock'']"
    show "fs_get (fs_prune ?p fs3) q = fs_get fs0 q"
    proof (cases "prefix ?p q")
      case True
      then show ?thesis using fs_tree_below [OF fs0(2,3)] by (auto simp: fs_get_prune prefix_def)
    next
      case False
      then have "q \<noteq> ?p" by auto
      with False q get3 [of q] held show ?thesis by (simp add: fs_get_prune tar_held_def)
    qed
  qed
  have "fst (checkCache (abs_path (bs @ [d])) (fs_prune ?p fs3)) = Inr True" if "fst (checkCache (abs_path (bs @ [d])) fs3) = Inr True"
    using that checkCache_iff [OF bs(2) dirs] checkCache_iff [OF bs(2) dirs_to_frame [OF frame' fs0(1)]] t
    by (simp add: fs_get_prune)
  with frame' rm show ?thesis by simp
qed

lemma store_context_spec:
  assumes bs: "list_all proper bs" "bs \<noteq> []" "list_all proper (bs @ [t])" and d: "validateContextDigest d = Inr ()"
    and rnd: "\<forall>r \<in> set (rx_rnd_dir env). slash \<notin> set r"
    and fs0: "dirs_to bs fs0" "fs_tree fs0" "fs_get fs0 (bs @ [t]) = None"
    and held: "tar_held (bs @ [t]) first fs0 fs1"
    and run: "store_context env (abs_path bs) d (abs_path (bs @ [t])) (chunks, err) fs1 = (r, fs3)"
  shows "\<exists>fs2. tar_held (bs @ [t]) (first @ concat chunks) fs0 fs2 \<and> cache_frame bs d fs2 fs3 \<and>
    (r = Inr () \<longrightarrow> fst (checkCache (abs_path (bs @ [d])) fs3) = Inr True \<and> err = None \<and>
       hex_EncodeToString (rx_sha256 env (first @ concat chunks)) = d)"
proof -
  have pd: "list_all proper (bs @ [d])" using bs(1) valid_digest_proper(1) [OF d] by simp
  from append_all_held [OF held fs0(1) bs(3), of chunks] obtain fs2 where
    app: "io_each (\<lambda>d. if False then io_return () else sys_append (abs_path (bs @ [t])) d) chunks fs1 = (Inr (), fs2)"
    and held2: "tar_held (bs @ [t]) (first @ concat chunks) fs0 fs2" by blast
  have dirs2: "dirs_to bs fs2" using tar_held_dirs [OF held2 fs0(1)] .
  have reg: "fs_get fs2 (bs @ [t]) = Some (Reg 384 (first @ concat chunks))" using held2 by (simp add: tar_held_def)
  then have "resolve True (abs_path (bs @ [t])) fs2 = Inr (bs @ [t])" by (intro resolve_dirs [OF bs(3) dirs2]) simp
  with reg have rd: "sys_ReadFile (abs_path (bs @ [t])) fs2 = (Inr (first @ concat chunks), fs2)"
    by (simp add: sys_ReadFile_def)
  let ?ok = "hex_EncodeToString (rx_sha256 env (first @ concat chunks)) = d"
  let ?pub = "publishTar (rx_untar env) (rx_ctx env) (rx_locked env) (rx_rnd_dir env) (abs_path (bs @ [t])) (abs_path (bs @ [d])) (abs_path bs)"
  show ?thesis
  proof (cases "err = None \<and> ?ok")
    case True
    then have "?pub fs2 = (r, fs3)"
      using run app rd by (simp add: store_context_def readTarBody_def verifyTarHash_def io_then_def io_bind_def
          io_return_def Let_def path_Join_snoc [OF pd])
    from hoareD [OF hoare_publishTar [OF bs(1,2) d rnd dirs2] _ this] tar_held_tree [OF held2 fs0]
    have post: "on_ok (cache_frame bs d fs2) (\<lambda>_. entry_ok bs d fs2) r fs3" by simp
    with True held2 show ?thesis by (cases r) (auto simp: entry_ok_def)
  next
    case False
    then have "(\<exists>e. r = Inl e) \<and> fs3 = fs2"
      using run app rd by (cases err)
        (auto simp: store_context_def readTarBody_def verifyTarHash_def io_then_def io_bind_def io_return_def io_fail_def Let_def)
    with held2 show ?thesis by auto
  qed
qed

lemma fetch_context_spec:
  assumes bs: "list_all proper bs" "bs \<noteq> []" and d: "validateContextDigest d = Inr ()"
    and rnd: "\<forall>r \<in> set (rx_rnd_dir env) \<union> set (rx_rnd_file env). slash \<notin> set r"
    and fs0: "dirs_to bs fs0" "fs_tree fs0"
    and run: "fetch_context env (abs_path bs) d (Inr first) (chunks, err) fs0 = (r, fs')"
  shows "cache_frame bs d fs0 fs' \<and> (r = Inr () \<longrightarrow> fst (checkCache (abs_path (bs @ [d])) fs') = Inr True \<and> err = None \<and>
       hex_EncodeToString (rx_sha256 env (first @ concat chunks)) = d)"
proof -
  define cs where "cs = map (\<lambda>r. ''.context-'' @ r @ ''.tar'') (rx_rnd_file env)"
  have names: "map (\<lambda>r. joinPath (abs_path bs) (''.context-'' @ r @ ''.tar'')) (rx_rnd_file env) = map (\<lambda>c. abs_path (bs @ [c])) cs"
    using bs by (simp add: joinPath_abs cs_def)
  have cs: "\<forall>c \<in> set cs. list_all proper (bs @ [c])" "\<forall>c \<in> set cs. hd c = CHR ''.''"
    using rnd bs(1) by (auto simp: cs_def proper_def)
  have pd: "list_all proper (bs @ [d])" using bs(1) valid_digest_proper(1) [OF d] by simp
  obtain r1 fs1 where t: "sys_temp (Reg 384 first) (map (\<lambda>c. abs_path (bs @ [c])) cs) fs0 = (r1, fs1)" by fastforce
  from t fs0(1) cs(1) show ?thesis
  proof (cases rule: sys_temp_cases)
    case (1 e)
    with run t have "r = Inl e" "fs' = fs0"
      unfolding fetch_context_def writeTar_def names by (simp_all add: io_bind_def io_lift_def)
    then show ?thesis by simp
  next
    case (2 c)
    have c: "c \<noteq> d" "c \<noteq> d @ ''.lock''" "list_all proper (bs @ [c])"
    proof -
      have "hd (d @ ''.lock'') = hd d" using valid_digest_proper(1) [OF d] by (cases d) auto
      then show "c \<noteq> d" "c \<noteq> d @ ''.lock''" using cs(2) 2(1) valid_digest_proper(3) [OF d] by metis+
    qed (use cs(1) 2(1) in blast)
    have held: "tar_held (bs @ [c]) first fs0 fs1" using 2(4) by (simp add: tar_held_def fs_get_put)
    obtain r3 fs3 where st: "store_context env (abs_path bs) d (abs_path (bs @ [c])) (chunks, err) fs1 = (r3, fs3)" by fastforce
    have rnd': "\<forall>r \<in> set (rx_rnd_dir env). slash \<notin> set r" using rnd by blast
    from store_context_spec [OF bs c(3) d rnd' fs0 2(2) held st] obtain fs2 where fs2:
      "tar_held (bs @ [c]) (first @ concat chunks) fs0 fs2" "cache_frame bs d fs2 fs3"
      "r3 = Inr () \<longrightarrow> fst (checkCache (abs_path (bs @ [d])) fs3) = Inr True \<and> err = None \<and>
       hex_EncodeToString (rx_sha256 env (first @ concat chunks)) = d" by blast
    have "r = r3" "fs' = snd (sys_Remove (abs_path (bs @ [c])) fs3)"
      using run t 2(3,4) st unfolding fetch_context_def writeTar_def names
      by (simp_all add: io_bind_def io_lift_def io_defer_def)
    with remove_tar [OF c(3) pd c(1,2) fs0 2(2) fs2(1,2)] fs2(3) show ?thesis by blast
  qed
qed

lemma CachedContextPresent_valid:
  assumes "validateContextDigest d = Inr ()"
  shows "CachedContextPresent base d fs = (fst (checkCache (path_Join [base, d]) fs), fs)"
  using assms checkCache_pure [of "path_Join [base, d]" fs]
  by (simp add: CachedContextPresent_def io_then_def io_bind_def io_lift_def prod_eq_iff)

lemma readTarBody_cached: "readTarBody p True (chunks, err) fs = (case err of None \<Rightarrow> Inr () | Some e \<Rightarrow> Inl e, fs)"
proof -
  have "io_each (\<lambda>d. if True then io_return () else sys_append p d) chunks fs = (Inr (), fs)"
    by (induction chunks) (simp_all add: io_return_def io_then_def io_bind_def)
  then show ?thesis by (simp add: readTarBody_def io_then_def io_bind_def io_return_def io_fail_def split: option.split)
qed

text \<open>The part of \<open>Receive\<close> between the check of the cache and the walk.\<close>

lemma receive_middle:
  assumes bs: "list_all proper bs" "bs \<noteq> []" and d: "validateContextDigest (th_checksum header) = Inr ()"
    and rnd: "\<forall>r \<in> set (rx_rnd_dir env) \<union> set (rx_rnd_file env). slash \<notin> set r"
    and fs: "dirs_to bs fs" "fs_tree fs"
    and cached: "fst (checkCache (abs_path (bs @ [th_checksum header])) fs) = Inr cached"
    and run: "(if th_complete header then
                   (if \<not> cached then io_fail (Errorf ''context marked complete but is not cached'') else io_return ())
                 else if cached then io_bind (io_lift (Inr first)) (\<lambda>_. readTarBody [] True (chunks, err))
                 else fetch_context env (abs_path bs) (th_checksum header) (Inr first) (chunks, err)) fs = (r, fs')"
  shows "cache_frame bs (th_checksum header) fs fs' \<and>
    (r = Inr () \<longrightarrow> fst (checkCache (abs_path (bs @ [th_checksum header])) fs') = Inr True \<and>
      (cached \<or> err = None \<and> hex_EncodeToString (rx_sha256 env (first @ concat chunks)) = th_checksum header))"
proof (cases "th_complete header \<or> cached")
  case True
  then have "fs' = fs" "r = Inr () \<longrightarrow> cached"
    using run by (auto simp: io_fail_def io_return_def io_bind_def io_lift_def readTarBody_cached split: if_splits)
  with cached show ?thesis by auto
next
  case False
  with run fetch_context_spec [OF bs d rnd fs, of first chunks err r fs'] show ?thesis by simp
qed

section \<open>Properties\<close>



lemma Receive_digest_valid:
  assumes "Receive env base (Inr header) first body st fs = (Inr (digest, st'), fs')"
  shows "validateContextDigest (th_checksum header) = Inr ()"
  using assms by (cases "validateContextDigest (th_checksum header)") (auto simp: Receive_def Let_def io_bind_def io_then_def io_lift_def)

lemma Receive_checked:
  assumes "list_all proper bs" "bs \<noteq> []" "dirs_to bs fs" "fs_tree fs"
    and "\<forall>r \<in> set (rx_rnd_dir env) \<union> set (rx_rnd_file env). slash \<notin> set r"
    and "Receive env (abs_path bs) (Inr header) (Inr first) (chunks, err) st fs = (Inr (digest, st'), fs')"
  shows "digest = th_checksum header \<and> fst (checkCache (abs_path (bs @ [digest])) fs') = Inr True \<and>
    (fst (checkCache (abs_path (bs @ [digest])) fs) = Inr True \<or>
      err = None \<and> hex_EncodeToString (rx_sha256 env (first @ concat chunks)) = digest) \<and>
    (\<forall>p. \<not> prefix (bs @ [digest]) p \<and> p \<noteq> bs @ [digest @ ''.lock''] \<longrightarrow> fs_get fs' p = fs_get fs p)"
proof -
  let ?d = "th_checksum header"
  note d = Receive_digest_valid [OF assms(6)]
  then have pd: "list_all proper (bs @ [?d])" using assms(1) valid_digest_proper(1) by simp
  note J = path_Join_snoc [OF pd]
  let ?mid = "\<lambda>cached. if th_complete header then
                   (if \<not> cached then io_fail (Errorf ''context marked complete but is not cached'') else io_return ())
                 else if cached then io_bind (io_lift (Inr first)) (\<lambda>_. readTarBody [] True (chunks, err))
                 else fetch_context env (abs_path bs) ?d (Inr first) (chunks, err)"
  let ?walk = "walkCachedContext (rx_attrs env) (abs_path (bs @ [?d])) (rx_fn env) st"
  have mk: "sys_MkdirAll (abs_path bs) fs = (Inr (), fs)" using assms(1,3) by (rule sys_MkdirAll_dirs)
  obtain cached where cached: "fst (checkCache (abs_path (bs @ [?d])) fs) = Inr cached"
    using assms(6) d mk CachedContextPresent_valid [OF d, of "abs_path bs" fs] J
    by (cases "fst (checkCache (abs_path (bs @ [?d])) fs)") (auto simp: Receive_def Let_def io_bind_def io_then_def io_lift_def)
  then have present: "CachedContextPresent (abs_path bs) ?d fs = (Inr cached, fs)"
    using CachedContextPresent_valid [OF d, of "abs_path bs" fs] J by simp
  obtain r fs1 where mid: "?mid cached fs = (r, fs1)" by fastforce
  have run: "io_bind (?mid cached) (\<lambda>_. io_bind ?walk (\<lambda>st'. io_return (?d, st'))) fs = (Inr (digest, st'), fs')"
    using assms(6) d mk present unfolding Receive_def Let_def io_then_def
    by (simp add: io_bind_def io_lift_def J split del: if_split)
  then have ok: "r = Inr ()" using mid by (cases r) (auto simp: io_bind_def)
  have w: "snd (?walk fs1) = fs1" by (rule walkCachedContext_pure)
  have "digest = ?d" "fs' = fs1"
    using run mid ok w by (cases "?walk fs1"; auto simp: io_bind_def io_return_def split: sum.splits)+
  with receive_middle [OF assms(1,2) d assms(5,3,4) cached mid] ok cached show ?thesis
    by (auto simp: cache_frame_def)
qed

text \<open>
  C2. A received context is the one its digest names: if \<open>Receive\<close> succeeds, the entry of the
  digest is complete afterwards, and unless it was complete before, the bytes received, the
  first block followed by the blocks of the body, hash to the digest and the stream ended without an error.
  In every case the file system changes only at the entry and its lock file.
\<close>

theorem Receive_verified:
  assumes "list_all proper bs" "bs \<noteq> []" "dirs_to bs fs" "fs_tree fs"
    and "\<forall>r \<in> set (rx_rnd_dir env) \<union> set (rx_rnd_file env). slash \<notin> set r"
    and "Receive env (abs_path bs) (Inr header) (Inr first) (chunks, err) st fs = (Inr (digest, st'), fs')"
  shows "digest = th_checksum header \<and> fst (checkCache (abs_path (bs @ [digest])) fs') = Inr True \<and>
    (fst (checkCache (abs_path (bs @ [digest])) fs) = Inr True \<or>
      err = None \<and> hex_EncodeToString (rx_sha256 env (first @ concat chunks)) = digest) \<and>
    (\<forall>p. \<not> prefix (bs @ [digest]) p \<and> p \<noteq> bs @ [digest @ ''.lock''] \<longrightarrow> fs_get fs' p = fs_get fs p)"
  using assms by (rule Receive_checked)

text \<open>A toy hash, to run the definitions.\<close>

fun toy_sha256 :: "bytes \<Rightarrow> bytes" where
  "toy_sha256 [] = replicate 32 (CHR 0x01)"
| "toy_sha256 (x # xs) = replicate 32 (CHR 0x00)"

definition demo_env :: "string list receive_env" where
  "demo_env = \<lparr>rx_untar = small_untar, rx_sha256 = toy_sha256, rx_ctx = \<lambda>_. None, rx_locked = Inr True,
     rx_rnd_file = [''1''], rx_rnd_dir = [''7''], rx_attrs = \<lambda>_. (0, 0), rx_fn = \<lambda>name info seen. Inr (seen @ [name])\<rparr>"

definition demo_receive :: "(goerr + (string \<times> string list)) \<times> fs" where
  "demo_receive = Receive demo_env ''/c'' (Inr \<lparr>th_checksum = demo_digest, th_complete = False\<rparr>) (Inr ''da'') ([''ta''], None) [] demo_host"

theorem Receive_verified_witness:
  "fst demo_receive = Inr (demo_digest, [''a'', ''a/f'']) \<and>
   fst (checkCache (abs_path [''c'', demo_digest]) (snd demo_receive)) = Inr True"
proof -
  have run: "fst demo_receive = Inr (demo_digest, [''a'', ''a/f''])" by code_simp
  have c: "abs_path [''c''] = ''/c''" by (simp add: abs_path_def)
  have "dirs_to [''c''] demo_host"
    by (simp add: dirs_to_snoc [of "[]" "''c''", simplified] demo_host_def fs_get_def)
  moreover have "\<forall>r \<in> set (rx_rnd_dir demo_env) \<union> set (rx_rnd_file demo_env). slash \<notin> set r" by (simp add: demo_env_def)
  moreover have "demo_receive = (Inr (demo_digest, [''a'', ''a/f'']), snd demo_receive)" using run by (metis prod.collapse)
  ultimately have "fst (checkCache (abs_path [''c'', demo_digest]) (snd demo_receive)) = Inr True"
    using Receive_verified [of "[''c'']" demo_host demo_env "\<lparr>th_checksum = demo_digest, th_complete = False\<rparr>" "''da''" "[''ta'']" None "[]"
        demo_digest "[''a'', ''a/f'']" "snd demo_receive", unfolded c, OF _ _ _ demo_host_tree]
    by (simp add: proper_demo demo_receive_def)
  with run show ?thesis by simp
qed

end
