(* ===== verification/Fs_Sync.thy ===== *)
theory Fs_Sync
  imports Tar_Receive Stream_Filter
begin

text \<open>
  The file synchronisation proxy (\<open>pkg/fssync/fssync.go\<close>, \<open>walk.go\<close>, \<open>fs.go\<close>): the metadata of a
  walk, the request for a context archive, the merge of the request's own Dockerfile into the walk of
  the cached context, and the file system object that BuildKit walks.

  The incoming gRPC metadata is an association list of value lists, absent when the context
  carries none.
\<close>

type_synonym metadata = "(string \<times> string list) list"

definition md_values :: "metadata \<Rightarrow> string \<Rightarrow> string list" where
  \<comment> \<open>\<open>m[key]\<close>, nil when the key is absent\<close>
  "md_values m key = (case map_of m key of Some vs \<Rightarrow> vs | None \<Rightarrow> [])"

section \<open>The proxy\<close>

record FSSyncProxy =
  fp_contextDir :: string
  fp_basePath :: string
  fp_addedGlobs :: "string list"
  fp_dockerfile :: bytes
  fp_dockerignore :: bytes

definition NewFSSyncProxy :: "string \<Rightarrow> string \<Rightarrow> string list \<Rightarrow> bytes \<Rightarrow> bytes \<Rightarrow> goerr + FSSyncProxy" where
  "NewFSSyncProxy contextDir basePath addedGlobs dockerfile dockerignore =
     Inr \<lparr>fp_contextDir = contextDir, fp_basePath = path_Join [basePath, ''fssync''], fp_addedGlobs = addedGlobs,
          fp_dockerfile = dockerfile, fp_dockerignore = dockerignore\<rparr>"

definition FSSyncProxy_Filter :: "client_stream \<Rightarrow> goerr option" where
  "FSSyncProxy_Filter c =
     (case GetBuildTransfer c of
        Some bt \<Rightarrow> if go_get (bt_metadata bt) ''stage'' = ''fssync'' then None else Some ignore_packet
      | None \<Rightarrow> Some ignore_packet)"

definition fssync_request :: "round_trip \<Rightarrow> string \<Rightarrow> build_transfer \<Rightarrow> goerr + build_transfer option" where
  \<comment> \<open>the answer's build transfer, nil when it carries another packet\<close>
  "fssync_request rt uuid packet =
     res_bind (rt \<lparr>ss_build_id = uuid, ss_packet = SBuildTransfer (packet\<lparr>bt_id := uuid\<rparr>)\<rparr>) (\<lambda>resp.
       Inr (GetBuildTransfer resp))"

definition FSSyncProxy_TarStream :: "goerr + unit" where
  "FSSyncProxy_TarStream = Inl ErrFailedProtocolNegotiation"

section \<open>Metadata of a walk\<close>

datatype transfer_mode = ModeJSON | ModeTAR

record WalkMetadata =
  wm_IncludePatterns :: string
  wm_ExcludedPatterns :: "string list"
  wm_FollowPaths :: string
  wm_DirName :: string
  wm_Mode :: transfer_mode

definition unmarshalWalkMetadata :: "metadata option \<Rightarrow> goerr + WalkMetadata" where
  "unmarshalWalkMetadata incoming =
     (case incoming of
        None \<Rightarrow> Inr \<lparr>wm_IncludePatterns = [], wm_ExcludedPatterns = [], wm_FollowPaths = [], wm_DirName = [], wm_Mode = ModeTAR\<rparr>
      | Some m \<Rightarrow>
          (let modeStr = Join (md_values m ''mode'') '',''
           in if modeStr = [] \<or> modeStr = ''tar''
              then Inr \<lparr>wm_IncludePatterns = Join (md_values m ''include-patterns'') '','',
                        wm_ExcludedPatterns = md_values m ''exclude-patterns'',
                        wm_FollowPaths = Join (md_values m ''followpaths'') '','',
                        wm_DirName = Join (md_values m ''dir-name'') '','', wm_Mode = ModeTAR\<rparr>
              else Inl (Errorf (''invalid walk mode: '' @ modeStr))))"

abbreviation staged_Dockerfile :: string where
  "staged_Dockerfile \<equiv> DockerfileStaging @ ''/Dockerfile''"

abbreviation staged_dockerignore :: string where
  "staged_dockerignore \<equiv> DockerfileStaging @ ''/Dockerfile.dockerignore''"

definition requestedSyntheticDockerfilePaths :: "string \<Rightarrow> string list" where
  \<comment> \<open>the keys of the returned map\<close>
  "requestedSyntheticDockerfilePaths followPaths =
     filter (\<lambda>path. path = staged_Dockerfile \<or> path = staged_dockerignore)
       (map (\<lambda>path. Clean (TrimSpace path)) (Split followPaths (CHR '','')))"

definition walk_followPaths :: "WalkMetadata \<Rightarrow> FSSyncProxy \<Rightarrow> string" where
  "walk_followPaths walkMeta proxy =
     (if wm_FollowPaths walkMeta = [] then Join (fp_addedGlobs proxy) '','' else wm_FollowPaths walkMeta)"

definition excludePatternsForWalk :: "WalkMetadata \<Rightarrow> FSSyncProxy \<Rightarrow> string list" where
  "excludePatternsForWalk walkMeta proxy =
     (let patterns = wm_ExcludedPatterns walkMeta
      in if patterns = [] then []
         else
           let requested = requestedSyntheticDockerfilePaths (walk_followPaths walkMeta proxy)
           in patterns @ map (\<lambda>path. CHR ''!'' # path)
                (filter (\<lambda>path. path \<in> set requested) [staged_Dockerfile, staged_dockerignore]))"

section \<open>The synthetic Dockerfile walker\<close>

record synthetic_entry =
  se_path :: string
  se_data :: bytes

record synthetic_walker =
  sw_entries :: "synthetic_entry list"
  sw_next :: nat

definition newSyntheticDockerfileWalker :: "FSSyncProxy \<Rightarrow> string list \<Rightarrow> synthetic_walker" where
  "newSyntheticDockerfileWalker proxy requested =
     (if requested = [] then \<lparr>sw_entries = [], sw_next = 0\<rparr>
      else
        let files = [\<lparr>se_path = staged_Dockerfile, se_data = fp_dockerfile proxy\<rparr>,
                     \<lparr>se_path = staged_dockerignore, se_data = fp_dockerignore proxy\<rparr>];
            wanted = filter (\<lambda>f. se_path f \<in> set requested \<and> 0 < length (se_data f)) files
        in if wanted = [] then \<lparr>sw_entries = [], sw_next = 0\<rparr>
           else \<lparr>sw_entries = \<lparr>se_path = DockerfileStaging, se_data = []\<rparr> # wanted, sw_next = 0\<rparr>)"

abbreviation zero_time :: int where
  \<comment> \<open>the zero \<open>time.Time\<close>, the first of January of the year 1, in nanoseconds\<close>
  "zero_time \<equiv> - 62135596800 * 10 ^ 9"

definition entry_info :: "synthetic_entry \<Rightarrow> file_info" where
  "entry_info e =
     (if se_path e = DockerfileStaging
      then \<lparr>fi_NameVal = DockerfileStaging, fi_SizeVal = 0, fi_ModeVal = ModeDir OR 493, fi_ModTimeVal = zero_time,
            fi_IsDirVal = True, fi_Uid = 0, fi_Gid = 0, fi_LinkName = []\<rparr>
      else \<lparr>fi_NameVal = se_path e, fi_SizeVal = int (length (se_data e)), fi_ModeVal = 420, fi_ModTimeVal = zero_time,
            fi_IsDirVal = False, fi_Uid = 0, fi_Gid = 0, fi_LinkName = []\<rparr>)"

definition walker_emit :: "'s walk_fn \<Rightarrow> synthetic_entry \<Rightarrow> 's \<Rightarrow> goerr + 's" where
  "walker_emit fn e st = fn (se_path e) (entry_info e) st"

function walker_drain :: "'s walk_fn \<Rightarrow> (string \<Rightarrow> bool) \<Rightarrow> synthetic_walker \<Rightarrow> 's \<Rightarrow> goerr + (synthetic_walker \<times> 's)" where
  \<comment> \<open>\<open>for w.next < len(w.entries) && due(...) { emit; w.next++ }\<close>\<close>
  "walker_drain fn due w st =
     (if sw_next w < length (sw_entries w) \<and> due (se_path (sw_entries w ! sw_next w))
      then res_bind (walker_emit fn (sw_entries w ! sw_next w) st) (walker_drain fn due (w\<lparr>sw_next := Suc (sw_next w)\<rparr>))
      else Inr (w, st))"
  by pat_completeness auto
termination by (relation "measure (\<lambda>(_, _, w, _). length (sw_entries w) - sw_next w)") auto

declare walker_drain.simps [simp del]

definition walker_Walk :: "'s walk_fn \<Rightarrow> (synthetic_walker \<times> 's) walk_fn" where
  "walker_Walk fn path info ws =
     res_bind (walker_drain fn (\<lambda>e. e < path) (fst ws) (snd ws)) (\<lambda>(w, st).
     res_bind (fn path info st) (\<lambda>st'. Inr (w, st')))"

definition walker_Finish :: "'s walk_fn \<Rightarrow> synthetic_walker \<times> 's \<Rightarrow> goerr + (synthetic_walker \<times> 's)" where
  "walker_Finish fn ws = walker_drain fn (\<lambda>_. True) (fst ws) (snd ws)"

section \<open>The file system object\<close>

record FS =
  fs_proxy :: FSSyncProxy
  fs_root :: string
  fs_fsPath :: string
  fs_checksum :: string

definition NewFS :: "FSSyncProxy \<Rightarrow> string \<Rightarrow> string \<Rightarrow> FS" where
  "NewFS proxy root fsPath = \<lparr>fs_proxy = proxy, fs_root = root, fs_fsPath = fsPath, fs_checksum = []\<rparr>"

definition walk_packet :: "string \<Rightarrow> FS \<Rightarrow> WalkMetadata \<Rightarrow> server_stream" where
  "walk_packet uuid f walkMeta =
     (let followPaths = walk_followPaths walkMeta (fs_proxy f);
          dirName = (if requestedSyntheticDockerfilePaths followPaths \<noteq> [] then ''context'' else wm_DirName walkMeta)
      in \<lparr>ss_build_id = uuid, ss_packet = SBuildTransfer
           (empty_build_transfer\<lparr>bt_id := uuid, bt_direction := OUTOF, bt_source := Some (fs_root f),
              bt_metadata := [(''os'', ''linux''), (''stage'', ''fssync''), (''method'', ''Walk''), (''dir-name'', dirName),
                (''include-patterns'', wm_IncludePatterns walkMeta), (''followpaths'', followPaths),
                (''mode'', case wm_Mode walkMeta of ModeTAR \<Rightarrow> ''tar'' | ModeJSON \<Rightarrow> ''json'')]\<rparr>)\<rparr>)"

definition receive_with :: "unit receive_env \<Rightarrow> 's walk_fn \<Rightarrow> 's receive_env" where
  \<comment> \<open>the environment of a receiver with another walk function\<close>
  "receive_with env fn =
     \<lparr>rx_untar = rx_untar env, rx_sha256 = rx_sha256 env, rx_ctx = rx_ctx env, rx_locked = rx_locked env,
      rx_rnd_file = rx_rnd_file env, rx_rnd_dir = rx_rnd_dir env, rx_attrs = rx_attrs env, rx_fn = fn\<rparr>"

definition FS_Walk ::
    "unit receive_env \<Rightarrow> metadata option \<Rightarrow> string \<Rightarrow> (server_stream \<Rightarrow> goerr option) \<Rightarrow>
     goerr + tarStreamHeader \<Rightarrow> goerr + bytes \<Rightarrow> bytes list \<times> goerr option \<Rightarrow> 's walk_fn \<Rightarrow> FS \<Rightarrow> 's \<Rightarrow> (FS \<times> 's) io" where
  "FS_Walk env incoming uuid send hdr first body fn f st =
     io_bind (io_lift (unmarshalWalkMetadata incoming)) (\<lambda>walkMeta.
       case send (walk_packet uuid f walkMeta) of
         Some e \<Rightarrow> io_fail (Wrapf ''failed sending walk request'' e)
       | None \<Rightarrow>
           (case wm_Mode walkMeta of
              ModeTAR \<Rightarrow>
                (let w = newSyntheticDockerfileWalker (fs_proxy f)
                       (requestedSyntheticDockerfilePaths (walk_followPaths walkMeta (fs_proxy f)))
                 in io_bind (Receive (receive_with env (walker_Walk fn)) (fs_fsPath f) hdr first body (w, st)) (\<lambda>(checksum, ws).
                    io_bind (io_lift (walker_Finish fn ws)) (\<lambda>ws'.
                      io_return (f\<lparr>fs_checksum := checksum\<rparr>, snd ws'))))
            | ModeJSON \<Rightarrow> io_fail (Errorf ''unsupported walk mode'')))"

section \<open>The merge that the walker performs\<close>

text \<open>
  A reference definition without the walker's position: the entries that are due are placed before
  the path that makes them due, and what is left comes last.
\<close>

type_synonym walk_items = "(string \<times> file_info) list"

abbreviation entry_item :: "synthetic_entry \<Rightarrow> string \<times> file_info" where
  "entry_item e \<equiv> (se_path e, entry_info e)"

fun weave :: "synthetic_entry list \<Rightarrow> walk_items \<Rightarrow> walk_items" where
  "weave es [] = map entry_item es"
| "weave es ((p, i) # xs) =
     map entry_item (takeWhile (\<lambda>e. se_path e < p) es) @ (p, i) # weave (dropWhile (\<lambda>e. se_path e < p) es) xs"

definition walk_items_with :: "'s walk_fn \<Rightarrow> walk_items \<Rightarrow> 's \<Rightarrow> goerr + 's" where
  \<comment> \<open>the walk of a tree whose entries are the items\<close>
  "walk_items_with fn items = foldr_res (\<lambda>(p, i). fn p i) items"

definition synthetic_walk :: "'s walk_fn \<Rightarrow> synthetic_walker \<Rightarrow> walk_items \<Rightarrow> 's \<Rightarrow> goerr + 's" where
  \<comment> \<open>the walk through the walker and its \<open>Finish\<close>\<close>
  "synthetic_walk fn w items st =
     res_bind (walk_items_with (walker_Walk fn) items (w, st)) (\<lambda>ws. res_bind (walker_Finish fn ws) (\<lambda>ws'. Inr (snd ws')))"

lemma walk_items_with_simps [simp]:
  "walk_items_with fn [] st = Inr st"
  "walk_items_with fn ((p, i) # xs) st = res_bind (fn p i st) (walk_items_with fn xs)"
  by (simp_all add: walk_items_with_def)

lemma walk_items_with_append:
  "walk_items_with fn (xs @ ys) st = res_bind (walk_items_with fn xs st) (walk_items_with fn ys)"
  by (simp add: walk_items_with_def foldr_res_append)

lemma walker_drain_takeWhile:
  assumes "n \<le> length es"
  shows "walker_drain fn due \<lparr>sw_entries = es, sw_next = n\<rparr> st =
     (let now = takeWhile (\<lambda>e. due (se_path e)) (drop n es)
      in res_bind (walk_items_with fn (map entry_item now) st) (\<lambda>st'. Inr (\<lparr>sw_entries = es, sw_next = n + length now\<rparr>, st')))"
  using assms
proof (induction "length es - n" arbitrary: n st)
  case 0
  then show ?case by (simp add: walker_drain.simps)
next
  case (Suc k)
  then have n: "n < length es" by simp
  then have d: "drop n es = es ! n # drop (Suc n) es" by (simp add: Cons_nth_drop_Suc)
  show ?case
  proof (cases "due (se_path (es ! n))")
    case True
    have "walker_drain fn due \<lparr>sw_entries = es, sw_next = n\<rparr> st =
        res_bind (fn (se_path (es ! n)) (entry_info (es ! n)) st) (walker_drain fn due \<lparr>sw_entries = es, sw_next = Suc n\<rparr>)"
      using n True by (simp add: walker_drain.simps [of fn due "\<lparr>sw_entries = es, sw_next = n\<rparr>"] walker_emit_def)
    moreover have "walker_drain fn due \<lparr>sw_entries = es, sw_next = Suc n\<rparr> s =
        (let now = takeWhile (\<lambda>e. due (se_path e)) (drop (Suc n) es)
         in res_bind (walk_items_with fn (map entry_item now) s) (\<lambda>st'. Inr (\<lparr>sw_entries = es, sw_next = Suc n + length now\<rparr>, st')))" for s
      using Suc by (intro Suc.hyps(1)) auto
    ultimately show ?thesis
      using True by (cases "fn (se_path (es ! n)) (entry_info (es ! n)) st") (simp_all add: d Let_def)
  next
    case False
    with n show ?thesis by (simp add: walker_drain.simps d)
  qed
qed

lemma synthetic_walk_weave:
  "n \<le> length es \<Longrightarrow> synthetic_walk fn \<lparr>sw_entries = es, sw_next = n\<rparr> items st = walk_items_with fn (weave (drop n es) items) st"
proof (induction items arbitrary: n st)
  case Nil
  then show ?case
    by (cases "walk_items_with fn (map entry_item (drop n es)) st")
      (simp_all add: synthetic_walk_def walker_Finish_def walker_drain_takeWhile takeWhile_eq_all_conv [THEN iffD2])
next
  case (Cons x xs)
  obtain p i where x: "x = (p, i)" by fastforce
  define now where "now = takeWhile (\<lambda>e. se_path e < p) (drop n es)"
  have len: "n + length now \<le> length es"
    using Cons.prems length_takeWhile_le [of "\<lambda>e. se_path e < p" "drop n es"] by (simp add: now_def)
  have rest: "dropWhile (\<lambda>e. se_path e < p) (drop n es) = drop (n + length now) es"
    by (simp add: dropWhile_eq_drop now_def add.commute)
  show ?case
  proof (cases "walk_items_with fn (map entry_item now) st")
    case (Inl e)
    then show ?thesis
      by (simp add: x synthetic_walk_def walker_Walk_def walker_drain_takeWhile [OF Cons.prems] now_def [symmetric] Let_def walk_items_with_append)
  next
    case (Inr st1)
    show ?thesis
    proof (cases "fn p i st1")
      case (Inl e)
      with Inr show ?thesis
        by (simp add: x synthetic_walk_def walker_Walk_def walker_drain_takeWhile [OF Cons.prems] now_def [symmetric] Let_def walk_items_with_append)
    next
      case (Inr st2)
      with \<open>walk_items_with fn (map entry_item now) st = Inr st1\<close> Cons.IH [OF len, of st2] show ?thesis
        by (simp add: x synthetic_walk_def walker_Walk_def walker_drain_takeWhile [OF Cons.prems] now_def [symmetric] Let_def walk_items_with_append rest)
    qed
  qed
qed

section \<open>The order of the merge\<close>

text \<open>
  BuildKit's receiver expects the order of \<open>filepath.Walk\<close>: parents before their entries and siblings
  by name, which is the order of the lists of path components.
\<close>

definition path_less :: "string \<Rightarrow> string \<Rightarrow> bool" where
  "path_less p q = (Split p slash < Split q slash)"

lemma path_less_trans: "path_less p q \<Longrightarrow> path_less q r \<Longrightarrow> path_less p r"
  unfolding path_less_def by (rule less_trans)

lemma path_less_total: "p \<noteq> q \<Longrightarrow> \<not> path_less p q \<Longrightarrow> path_less q p"
  unfolding path_less_def by (metis Join_Split neq_iff)

lemma mset_weave: "mset (weave es items) = mset (map entry_item es) + mset items"
proof (induction es items rule: weave.induct)
  case (2 es p i xs)
  have "image_mset entry_item (mset (takeWhile (\<lambda>e. se_path e < p) es)) +
      image_mset entry_item (mset (dropWhile (\<lambda>e. se_path e < p) es)) = image_mset entry_item (mset es)"
    by (metis image_mset_union mset_append takeWhile_dropWhile_id)
  with 2 show ?case by simp
qed simp

lemma set_weave: "set (weave es items) = entry_item ` set es \<union> set items"
  using arg_cong [OF mset_weave, of set_mset] by (metis list.set_map set_mset_mset set_mset_union)

text \<open>Where the byte order of the code agrees with the order of the walk, the merge is in order.\<close>

definition order_agrees :: "synthetic_entry list \<Rightarrow> walk_items \<Rightarrow> bool" where
  "order_agrees es items \<longleftrightarrow>
     list_all (\<lambda>e. list_all (\<lambda>(p, _). p \<noteq> se_path e \<and> (se_path e < p \<longleftrightarrow> path_less (se_path e) p)) items) es"

lemma order_agreesD:
  "order_agrees es items \<Longrightarrow> e \<in> set es \<Longrightarrow> (p, i) \<in> set items \<Longrightarrow> p \<noteq> se_path e \<and> (se_path e < p \<longleftrightarrow> path_less (se_path e) p)"
  unfolding order_agrees_def list_all_iff by blast

lemma order_agrees_subset:
  "order_agrees es items \<Longrightarrow> set es' \<subseteq> set es \<Longrightarrow> set items' \<subseteq> set items \<Longrightarrow> order_agrees es' items'"
  unfolding order_agrees_def list_all_iff by blast

lemma order_agrees_later:
  assumes "sorted_wrt path_less (map se_path es)" "order_agrees es ((p, i) # xs)" "e \<in> set (dropWhile (\<lambda>e. se_path e < p) es)"
  shows "path_less p (se_path e)"
  using assms
proof (induction es)
  case (Cons x es)
  show ?case
  proof (cases "se_path x < p")
    case True
    with Cons.prems order_agrees_subset [OF Cons.prems(2), of es "(p, i) # xs"] show ?thesis by (intro Cons.IH) auto
  next
    case False
    with order_agreesD [OF Cons.prems(2), of x p i] have "path_less p (se_path x)" using path_less_total [of "se_path x" p] by auto
    moreover from False Cons.prems(1,3) have "e = x \<or> path_less (se_path x) (se_path e)" by auto
    ultimately show ?thesis using path_less_trans by metis
  qed
qed simp

lemma weave_sorted:
  "sorted_wrt path_less (map fst items) \<Longrightarrow> sorted_wrt path_less (map se_path es) \<Longrightarrow> order_agrees es items \<Longrightarrow>
     sorted_wrt path_less (map fst (weave es items))"
proof (induction es items rule: weave.induct)
  case (1 es)
  then show ?case by (simp add: comp_def)
next
  case (2 es p i xs)
  let ?now = "takeWhile (\<lambda>e. se_path e < p) es" and ?later = "dropWhile (\<lambda>e. se_path e < p) es"
  have "sorted_wrt path_less (map se_path (?now @ ?later))" using 2(3) by (simp only: takeWhile_dropWhile_id)
  then have sorted: "sorted_wrt path_less (map se_path ?now)" "sorted_wrt path_less (map se_path ?later)"
    by (simp_all only: map_append sorted_wrt_append)
  have now: "path_less (se_path e) p" if "e \<in> set ?now" for e
    using order_agreesD [OF 2(4), of e p i] set_takeWhileD [OF that] by simp
  have items: "path_less p q" if "(q, j) \<in> set xs" for q j using 2(2) that by force
  have after: "path_less p (fst x)" if "x \<in> set (weave ?later xs)" for x
    using that order_agrees_later [OF 2(3,4)] items unfolding set_weave by (cases x) auto
  have "sorted_wrt path_less (map fst (weave ?later xs))"
  proof (rule "2.IH")
    show "sorted_wrt path_less (map fst xs)" using 2(2) by simp
    show "order_agrees ?later xs" by (rule order_agrees_subset [OF 2(4)]) (auto dest: set_dropWhileD)
  qed (rule sorted(2))
  with after have tail: "sorted_wrt path_less (map fst ((p, i) # weave ?later xs))" by simp
  have "path_less a b" if "a \<in> set (map se_path ?now)" "b \<in> set (map fst ((p, i) # weave ?later xs))" for a b
  proof -
    from that(1) now have "path_less a p" by auto
    moreover from that(2) after have "b = p \<or> path_less p b" by auto
    ultimately show ?thesis using path_less_trans by metis
  qed
  with tail sorted(1) show ?case by (simp add: sorted_wrt_append comp_def)
qed

lemma walker_entries_sorted: "sorted_wrt path_less (map se_path (sw_entries (newSyntheticDockerfileWalker proxy requested)))"
proof -
  have "path_less DockerfileStaging staged_Dockerfile" "path_less DockerfileStaging staged_dockerignore"
      "path_less staged_Dockerfile staged_dockerignore" by code_simp+
  then show ?thesis unfolding newSyntheticDockerfileWalker_def by (simp add: Let_def)
qed

lemma walker_entries_next: "sw_next (newSyntheticDockerfileWalker proxy requested) = 0"
  by (simp add: newSyntheticDockerfileWalker_def Let_def)

lemma synthetic_walk_new:
  "synthetic_walk fn (newSyntheticDockerfileWalker proxy requested) items st =
     walk_items_with fn (weave (sw_entries (newSyntheticDockerfileWalker proxy requested)) items) st"
  using synthetic_walk_weave [of 0 "sw_entries (newSyntheticDockerfileWalker proxy requested)"]
  by (metis drop0 synthetic_walker.surjective walker_entries_next le0 old.unit.exhaust)


definition demo_proxy :: FSSyncProxy where
  "demo_proxy = \<lparr>fp_contextDir = ''.'', fp_basePath = ''/b/fssync'', fp_addedGlobs = [staged_Dockerfile, ''src''],
     fp_dockerfile = ''FROM scratch'', fp_dockerignore = []\<rparr>"

definition plain_info :: "string \<Rightarrow> file_info" where
  "plain_info name = \<lparr>fi_NameVal = name, fi_SizeVal = 0, fi_ModeVal = 420, fi_ModTimeVal = 0, fi_IsDirVal = False,
     fi_Uid = 0, fi_Gid = 0, fi_LinkName = []\<rparr>"

definition collect_paths :: "string list walk_fn" where
  "collect_paths path info seen = Inr (seen @ [path])"

definition demo_items :: walk_items where
  "demo_items = map (\<lambda>p. (p, plain_info p)) [''.a'', ''src'', ''src/x'', ''src-old'']"


text \<open>
  The byte order and the order of the walk differ at names that extend the staging directory's name by
  a byte below the slash: with such an entry in the archive, which extraction accepts, the directory is announced
  before it and the Dockerfile inside the directory after it, out of the order that BuildKit requires.
\<close>

theorem synthetic_walk_out_of_order:
  "tarTarget ''/c'' (DockerfileStaging @ ''-x'') = Inr (''/c/'' @ DockerfileStaging @ ''-x'') \<and>
   synthetic_walk collect_paths (newSyntheticDockerfileWalker demo_proxy [staged_Dockerfile])
     [(DockerfileStaging @ ''-x'', plain_info (DockerfileStaging @ ''-x''))] [] =
       Inr [DockerfileStaging, DockerfileStaging @ ''-x'', staged_Dockerfile] \<and>
   path_less staged_Dockerfile (DockerfileStaging @ ''-x'')"
  by code_simp

end
