(* ===== verification/Fs_File.thy ===== *)
theory Fs_File
  imports Content_Store Fs_Sync
begin

text \<open>
  Opening and reading files of the context (\<open>FS.Open\<close> in \<open>pkg/fssync/fs.go\<close> and \<open>pkg/fssync/file.go\<close>):
  from the cached context when a walk has set the checksum, else by requests to the host.
\<close>

section \<open>File\<close>

text \<open>An \<open>io.ReadSeekCloser\<close> that behaves like a file: its bytes and its position.\<close>

record read_seeker =
  rs_data :: bytes
  rs_pos :: int

definition rs_Seek_current :: "read_seeker \<Rightarrow> int \<Rightarrow> (goerr + int) \<times> read_seeker" where
  "rs_Seek_current r off =
     (let pos = i64 (rs_pos r + off) in if pos < 0 then (Inl (Errorf ''invalid argument''), r) else (Inr pos, r\<lparr>rs_pos := pos\<rparr>))"

definition copy_into :: "bytes \<Rightarrow> bytes \<Rightarrow> bytes \<times> nat" where
  \<comment> \<open>the built-in \<open>copy(p, src)\<close>: the buffer after it and the count\<close>
  "copy_into p src = (let n = min (length p) (length src) in (take n src @ drop n p, n))"

definition rs_Read :: "read_seeker \<Rightarrow> bytes \<Rightarrow> (bytes \<times> nat \<times> goerr option) \<times> read_seeker" where
  "rs_Read r p =
     (case copy_into p (drop (nat (rs_pos r)) (rs_data r)) of (p', n) \<Rightarrow>
        ((p', n, if n = 0 \<and> p \<noteq> [] then Some IoEOF else None), r\<lparr>rs_pos := rs_pos r + int n\<rparr>))"

record File =
  fl_id :: string
  fl_info :: file_info
  fl_index :: int
  fl_rs :: "read_seeker option"
  fl_buf :: "bytes option"

definition packetReadAt :: "File \<Rightarrow> int \<Rightarrow> int \<Rightarrow> build_transfer" where
  "packetReadAt f off len =
     empty_build_transfer\<lparr>bt_id := fl_id f, bt_direction := OUTOF, bt_source := Some (fi_NameVal (fl_info f)),
       bt_metadata := [(''os'', ''linux''), (''stage'', ''fssync''), (''method'', ''Read''),
         (''offset'', FormatInt off), (''length'', FormatInt len)]\<rparr>"

definition file_answer :: "goerr + build_transfer option \<Rightarrow> goerr + bytes" where
  \<comment> \<open>the checks of the answer in \<open>Read\<close> and \<open>ReadAt\<close>; a nil answer panics\<close>
  "file_answer r =
     res_bind r (\<lambda>resp. case resp of
        None \<Rightarrow> Inl nil_dereference
      | Some bt \<Rightarrow> (case map_of (bt_metadata bt) ''error'' of Some errMsg \<Rightarrow> Inl (Errorf errMsg) | None \<Rightarrow> Inr (bt_data bt)))"

definition File_ReadAt :: "round_trip \<Rightarrow> string \<Rightarrow> File \<Rightarrow> bytes \<Rightarrow> int \<Rightarrow> (bytes \<times> nat \<times> goerr option) \<times> File" where
  "File_ReadAt rt uuid f p off =
     (case fl_rs f of
        Some r \<Rightarrow>
          (case rs_Seek_current r off of
             (Inl err, r') \<Rightarrow> ((p, 0, Some err), f\<lparr>fl_rs := Some r'\<rparr>)
           | (Inr _, r') \<Rightarrow>
               (case rs_Read r' p of ((p', ln, err), r'') \<Rightarrow>
                  ((p', ln, err), f\<lparr>fl_rs := Some r'', fl_index := i64 (fl_index f + int ln)\<rparr>)))
      | None \<Rightarrow>
          (case fl_buf f of
             Some buf \<Rightarrow>
               (if off \<ge> int (length buf) then ((p, 0, Some IoEOF), f)
                else if off < 0 then ((p, 0, Some (Errorf ''slice bounds out of range'')), f)
                else case copy_into p (drop (nat off) buf) of (p', n) \<Rightarrow>
                       ((p', n, if n < length p then Some IoEOF else None), f))
           | None \<Rightarrow>
               (case file_answer (fssync_request rt uuid (packetReadAt f off (int (length p)))) of
                  Inl err \<Rightarrow> ((p, 0, Some err), f)
                | Inr d \<Rightarrow>
                    (case copy_into p d of (p', n) \<Rightarrow>
                       if n = 0 then ((p', 0, Some IoEOF), f)
                       else ((p', n, if n < length p then Some IoEOF else None), f)))))"

fun buf_loop :: "bytes \<Rightarrow> nat \<Rightarrow> bytes \<Rightarrow> nat \<Rightarrow> nat \<Rightarrow> bytes \<times> nat" where
  \<comment> \<open>the loop of \<open>Read\<close> over \<open>f.buf\<close>, from \<open>f.index\<close>, with the count so far\<close>
  "buf_loop buf index p 0 cnt = (p, cnt)"
| "buf_loop buf index p (Suc n) cnt =
     (if length buf \<le> index + cnt then (p, cnt)
      else buf_loop buf index (p[cnt := buf ! (index + cnt)]) n (Suc cnt))"

definition File_Read :: "round_trip \<Rightarrow> string \<Rightarrow> File \<Rightarrow> bytes \<Rightarrow> (bytes \<times> nat \<times> goerr option) \<times> File" where
  "File_Read rt uuid f p =
     (case fl_rs f of
        Some r \<Rightarrow>
          (case rs_Read r p of ((p', ln, err), r') \<Rightarrow>
             ((p', ln, err), f\<lparr>fl_rs := Some r', fl_index := i64 (fl_index f + int ln)\<rparr>))
      | None \<Rightarrow>
          (case fl_buf f of
             Some buf \<Rightarrow>
               (case buf_loop buf (nat (fl_index f)) p (length p) 0 of (p', cnt) \<Rightarrow>
                  ((p', cnt, if cnt = 0 then Some IoEOF else None), f))
           | None \<Rightarrow>
               (case file_answer (fssync_request rt uuid (packetReadAt f (fl_index f) (int (length p)))) of
                  Inl err \<Rightarrow> ((p, 0, Some err), f)
                | Inr d \<Rightarrow>
                    (case copy_into p d of (p', ln) \<Rightarrow>
                       if ln = 0 then ((p', 0, Some IoEOF), f)
                       else ((p', ln, None), f\<lparr>fl_index := i64 (fl_index f + int ln)\<rparr>)))))"

definition File_Seek :: "File \<Rightarrow> int \<Rightarrow> whence \<Rightarrow> (goerr + int) \<times> File" where
  "File_Seek f offset w =
     (case fl_rs f of
        Some r \<Rightarrow> (case rs_Seek_current r offset of (res, r') \<Rightarrow> (res, f\<lparr>fl_rs := Some r'\<rparr>))
      | None \<Rightarrow>
          (case seek_target (fl_index f) (fi_SizeVal (fl_info f)) offset w of
             Inl e \<Rightarrow> (Inl e, f)
           | Inr newIndex \<Rightarrow>
               if newIndex < 0 then (Inl (Errorf ''negative seek offset''), f)
               else if 0 < fi_SizeVal (fl_info f) \<and> fi_SizeVal (fl_info f) < newIndex
               then (Inl (Errorf ''seek beyond end of file''), f)
               else (Inr newIndex, f\<lparr>fl_index := newIndex\<rparr>)))"

section \<open>Open\<close>

datatype opened = OsFile bytes | HostFile File

definition info_packet :: "string \<Rightarrow> string \<Rightarrow> build_transfer" where
  "info_packet uuid path =
     empty_build_transfer\<lparr>bt_id := uuid, bt_direction := OUTOF, bt_source := Some path,
       bt_metadata := [(''os'', ''linux''), (''stage'', ''fssync''), (''method'', ''Info'')]\<rparr>"

definition open_answer :: "(string \<Rightarrow> goerr + int) \<Rightarrow> string \<Rightarrow> goerr + client_stream \<Rightarrow> goerr + file_info" where
  "open_answer time_Parse path r =
     (case r of
        Inl err \<Rightarrow> Inl (Wrapf ''failed requesting file info'' err)
      | Inr resp \<Rightarrow>
          (case GetBuildTransfer resp of
             None \<Rightarrow> Inl nil_dereference
           | Some bt \<Rightarrow>
               (case map_of (bt_metadata bt) ''error'' of
                  Some errMsg \<Rightarrow> Inl (Errorf (''server error getting file info for '' @ path @ '': '' @ errMsg))
                | None \<Rightarrow> TransformIntoFileInfo time_Parse zero_time bt)))"

definition host_file :: "string \<Rightarrow> file_info \<Rightarrow> File" where
  "host_file uuid info = \<lparr>fl_id = uuid, fl_info = info, fl_index = 0, fl_rs = None, fl_buf = None\<rparr>"

text \<open>A file of the cache is opened and its content taken in one step.\<close>

definition FS_Open :: "round_trip \<Rightarrow> (string \<Rightarrow> goerr + int) \<Rightarrow> string \<Rightarrow> FS \<Rightarrow> string \<Rightarrow> opened io" where
  "FS_Open rt time_Parse uuid f path =
     (if fs_checksum f \<noteq> []
      then io_bind (sys_ReadFile (path_Join [fs_fsPath f, fs_checksum f, path])) (\<lambda>d. io_return (OsFile d))
      else
        io_bind (io_lift (open_answer time_Parse path
            (rt \<lparr>ss_build_id = uuid, ss_packet = SBuildTransfer (info_packet uuid path)\<rparr>))) (\<lambda>info.
          io_return (HostFile (host_file uuid info))))"

section \<open>Copying a file\<close>

text \<open>
  \<open>io.CopyBuffer\<close> from a reader that is no \<open>WriterTo\<close>: the chunks written, and the error that ended it.
  The fuel bounds the number of reads; None is a copy that needs more.
\<close>

fun CopyBuffer :: "nat \<Rightarrow> ('r \<Rightarrow> (bytes \<times> goerr option) \<times> 'r) \<Rightarrow> 'r \<Rightarrow> (bytes list \<times> goerr option) option" where
  "CopyBuffer 0 rd r = None"
| "CopyBuffer (Suc k) rd r =
     (case rd r of ((d, err), r') \<Rightarrow>
        let out = (if d = [] then [] else [d])
        in case err of
             Some e \<Rightarrow> Some (out, if e = IoEOF then None else Some e)
           | None \<Rightarrow> map_option (\<lambda>(ds, e). (out @ ds, e)) (CopyBuffer k rd r'))"

definition file_reader :: "round_trip \<Rightarrow> (nat \<Rightarrow> string) \<Rightarrow> nat \<Rightarrow> File \<times> nat \<Rightarrow> (bytes \<times> goerr option) \<times> File \<times> nat" where
  \<comment> \<open>\<open>File.Read\<close> with a buffer of \<open>n\<close> bytes; every request has a fresh identifier\<close>
  "file_reader rt uuids n r =
     (case File_Read rt (uuids (snd r)) (fst r) (replicate n (CHR 0x00)) of
        ((p, ln, err), f') \<Rightarrow> ((take ln p, err), (f', Suc (snd r))))"

text \<open>
  What the reader relies on: an answer without an error has as many of the requested bytes as the file
  has there. Requests may fail at any time, but not with \<open>io.EOF\<close>, which would end the copy silently.
\<close>

locale file_host =
  fixes content :: bytes and rt :: round_trip and fid :: string and info :: file_info
  assumes answer_exact: "0 \<le> off \<Longrightarrow> file_answer (fssync_request rt uuid (packetReadAt (host_file fid info) off (int len))) = Inr d \<Longrightarrow>
      d = take len (drop (nat off) content)"
    and no_eof: "rt ss \<noteq> Inl IoEOF"

lemma packetReadAt_index [simp]: "packetReadAt (f\<lparr>fl_index := i\<rparr>) = packetReadAt f"
  by (intro ext) (simp add: packetReadAt_def)

lemma copy_into_take: "copy_into (replicate n c) d = (p, m) \<Longrightarrow> m = min n (length d) \<and> take m p = take m d"
  by (auto simp: copy_into_def Let_def)

lemma host_file_rs [simp]: "fl_rs (host_file i x) = None" "fl_buf (host_file i x) = None" "fl_index (host_file i x) = 0"
  by (simp_all add: host_file_def)

context file_host
begin

lemma answer_not_eof: "file_answer (fssync_request rt uuid pk) \<noteq> Inl IoEOF"
  using no_eof by (auto simp: file_answer_def fssync_request_def result_simps nil_dereference_def split: option.splits)

lemma reader_step:
  assumes "i \<le> length content" and "0 < n"
  and small: "int (length content) < 2 ^ 63"
  shows "(\<exists>e. e \<noteq> IoEOF \<and> file_reader rt uuids n ((host_file fid info)\<lparr>fl_index := int i\<rparr>, k) = (([], Some e), ((host_file fid info)\<lparr>fl_index := int i\<rparr>, Suc k)))
    \<or> (i = length content \<and> file_reader rt uuids n ((host_file fid info)\<lparr>fl_index := int i\<rparr>, k) = (([], Some IoEOF), ((host_file fid info)\<lparr>fl_index := int i\<rparr>, Suc k)))
    \<or> (\<exists>j. i < j \<and> j \<le> length content \<and> file_reader rt uuids n ((host_file fid info)\<lparr>fl_index := int i\<rparr>, k) =
          ((take (j - i) (drop i content), None), ((host_file fid info)\<lparr>fl_index := int j\<rparr>, Suc k)))"
proof (cases "file_answer (fssync_request rt (uuids k) (packetReadAt (host_file fid info) (int i) (int n)))")
  case (Inl e)
  with answer_not_eof have "e \<noteq> IoEOF" by metis
  with Inl show ?thesis by (simp add: file_reader_def File_Read_def host_file_rs)
next
  case (Inr d)
  with answer_exact have d: "d = take n (drop i content)" by (metis nat_int of_nat_0_le_iff)
  obtain p m where c: "copy_into (replicate n (CHR 0x00)) d = (p, m)" by fastforce
  from copy_into_take [OF this] have "m = min n (length d)" "take m p = take m d" by auto
  then have m: "m = min n (length content - i)" "take m p = take m (drop i content)"
    unfolding d by (simp_all only: length_take length_drop take_take) (simp_all add: min.commute min.left_commute)
  have i64: "i64 (int i + int m) = int (i + m)" using small assms(1) m(1) by (simp add: i64_id)
  show ?thesis
  proof (cases "m = 0")
    case True
    with m assms have "i = length content" by auto
    with True Inr c show ?thesis by (simp add: file_reader_def File_Read_def host_file_rs)
  next
    case False
    with Inr c m i64 assms show ?thesis
      by (intro disjI2 exI [of _ "i + m"]) (simp add: file_reader_def File_Read_def host_file_rs)
  qed
qed

lemma copy_exact:
  assumes "i \<le> length content" "0 < n" "CopyBuffer fuel (file_reader rt uuids n) ((host_file fid info)\<lparr>fl_index := int i\<rparr>, k) = Some (ds, err)"
  and small: "int (length content) < 2 ^ 63"
  shows "prefix (concat ds) (drop i content) \<and> (err = None \<longrightarrow> concat ds = drop i content) \<and> [] \<notin> set ds"
  using assms(1-3)
proof (induction fuel arbitrary: i k ds)
  case (Suc fuel)
  consider (err) e where "e \<noteq> IoEOF" "file_reader rt uuids n ((host_file fid info)\<lparr>fl_index := int i\<rparr>, k) = (([], Some e), ((host_file fid info)\<lparr>fl_index := int i\<rparr>, Suc k))"
    | (eof) "i = length content" "file_reader rt uuids n ((host_file fid info)\<lparr>fl_index := int i\<rparr>, k) = (([], Some IoEOF), ((host_file fid info)\<lparr>fl_index := int i\<rparr>, Suc k))"
    | (more) j where "i < j" "j \<le> length content" "file_reader rt uuids n ((host_file fid info)\<lparr>fl_index := int i\<rparr>, k) =
          ((take (j - i) (drop i content), None), ((host_file fid info)\<lparr>fl_index := int j\<rparr>, Suc k))"
    using reader_step [OF Suc.prems(1,2) small] by blast
  then show ?case
  proof cases
    case err
    with Suc.prems(3) show ?thesis by (auto split: if_splits)
  next
    case eof
    with Suc.prems(3) show ?thesis by auto
  next
    case more
    then have ne: "take (j - i) (drop i content) \<noteq> []" by simp
    with Suc.prems(3) more obtain es where es: "CopyBuffer fuel (file_reader rt uuids n) ((host_file fid info)\<lparr>fl_index := int j\<rparr>, Suc k) = Some (es, err)"
        "ds = take (j - i) (drop i content) # es" by auto
    have split: "drop i content = take (j - i) (drop i content) @ drop j content"
      using more(1) by (metis append_take_drop_id drop_drop le_add_diff_inverse2 less_imp_le)
    from Suc.IH [OF more(2) Suc.prems(2) es(1)] show ?thesis unfolding es(2) by (subst (2 4) split) (use ne in auto)
  qed
qed simp

lemma copy_ends:
  assumes "i \<le> length content" "0 < n" "length content - i < fuel"
  and small: "int (length content) < 2 ^ 63"
  shows "\<exists>r. CopyBuffer fuel (file_reader rt uuids n) ((host_file fid info)\<lparr>fl_index := int i\<rparr>, k) = Some r"
  using assms(1-3)
proof (induction fuel arbitrary: i k)
  case (Suc fuel)
  from reader_step [OF Suc.prems(1,2) small, of uuids k] Suc.IH Suc.prems show ?case
    by (elim disjE exE conjE) (fastforce simp: Let_def split: option.splits)+
qed simp

end

section \<open>A host that serves a file\<close>

definition serve_file :: "bytes \<Rightarrow> round_trip" where
  "serve_file content ss =
     (case ss_packet ss of
        SBuildTransfer bt \<Rightarrow>
          (case (ParseInt (go_get (bt_metadata bt) ''offset'') 64, ParseInt (go_get (bt_metadata bt) ''length'') 64) of
             (Inr off, Inr len) \<Rightarrow>
               Inr \<lparr>cs_build_id = ss_build_id ss, cs_packet = CBuildTransfer
                 (bt\<lparr>bt_direction := INTO, bt_data := take (nat len) (drop (nat off) content), bt_complete := True,
                    bt_metadata := []\<rparr>)\<rparr>
           | _ \<Rightarrow> Inl (Errorf ''bad request''))
      | _ \<Rightarrow> Inl (Errorf ''bad request''))"

interpretation served_file: file_host content "serve_file content" fid info for content fid info
proof
  fix off uuid len d ss
  assume off: "(0::int) \<le> off"
    and ans: "file_answer (fssync_request (serve_file content) uuid (packetReadAt (host_file fid info) off (int len))) = Inr d"
  then obtain off' len' where "ParseInt (FormatInt off) 64 = Inr off'" "ParseInt (FormatInt (int len)) 64 = Inr len'"
      "d = take (nat len') (drop (nat off') content)"
    by (auto simp: file_answer_def fssync_request_def serve_file_def packetReadAt_def result_simps go_get_def GetBuildTransfer_def
        split: sum.splits)
  with ParseInt_FormatInt_eq [OF off] ParseInt_FormatInt_eq [of "int len"]
  show "d = take len (drop (nat off) content)" by fastforce
next
  show "serve_file content ss \<noteq> Inl IoEOF" for ss
    by (auto simp: serve_file_def split: server_packet.splits sum.splits)
qed

section \<open>Properties\<close>

lemma host_file_start: "(host_file fid info)\<lparr>fl_index := int 0\<rparr> = host_file fid info"
  by (simp add: host_file_def)

text \<open>
  C24. A file that is not in the cache is copied from the host by reads at advancing offsets. With a host
  that answers every read with the bytes it has there, or with an error, the copy ends after at most one read
  more than the file has bytes, whatever the size of the buffer; what it delivers is a prefix of the file,
  and the whole file when it reports no error.
\<close>

theorem File_copy_exact:
  assumes "file_host content rt fid info" and "0 < n" and "int (length content) < 2 ^ 63" and "length content < fuel"
  shows "\<exists>ds err. CopyBuffer fuel (file_reader rt uuids n) (host_file fid info, 0) = Some (ds, err) \<and>
    prefix (concat ds) content \<and> (err = None \<longrightarrow> concat ds = content)"
proof -
  from file_host.copy_ends [OF assms(1) le0 assms(2) _ assms(3), of fuel uuids 0] assms(4)
  obtain ds err where run: "CopyBuffer fuel (file_reader rt uuids n) (host_file fid info, 0) = Some (ds, err)"
    unfolding host_file_start by auto
  with file_host.copy_exact [OF assms(1) le0 assms(2) _ assms(3), of fuel uuids 0 ds err] show ?thesis
    unfolding host_file_start by auto
qed

definition file_uuids :: "nat \<Rightarrow> string" where "file_uuids k = ''u''"

theorem File_copy_exact_witness:
  "CopyBuffer 6 (file_reader (serve_file ''hello'') file_uuids 2) (host_file ''f'' (plain_info ''a'')  , 0) =
     Some ([''he'', ''ll'', ''o''], None) \<and> concat [''he'', ''ll'', ''o''] = ''hello''"
proof -
  have "CopyBuffer 6 (file_reader (serve_file ''hello'') file_uuids 2) (host_file ''f'' (plain_info ''a''), 0) =
      Some ([''he'', ''ll'', ''o''], None)" by code_simp
  with File_copy_exact [OF served_file.file_host_axioms [of "''hello''" "''f''" "plain_info ''a''"], of 2 6 file_uuids]
  show ?thesis by simp
qed

text \<open>With a buffer set, \<open>Read\<close> never advances: the same bytes again, and a copy that never ends.\<close>

lemma buf_loop_progress: "0 < n \<Longrightarrow> index < length buf \<Longrightarrow> snd (buf_loop buf index p n 0) \<noteq> 0"
proof -
  have "c \<le> snd (buf_loop buf index p m c)" for p m c
    by (induction m arbitrary: p c) (auto intro: Suc_leD)
  from this [of "Suc 0"] show "0 < n \<Longrightarrow> index < length buf \<Longrightarrow> snd (buf_loop buf index p n 0) \<noteq> 0"
    by (cases n) (auto simp: Suc_le_eq)
qed

lemma buffered_file_never_ends:
  assumes "fl_rs f = None" "fl_buf f = Some buf" "nat (fl_index f) < length buf" "0 < n"
  shows "CopyBuffer fuel (file_reader rt uuids n) (f, k) = None"
proof (induction fuel arbitrary: k)
  case (Suc fuel)
  obtain p m where l: "buf_loop buf (nat (fl_index f)) (replicate n (CHR 0x00)) n 0 = (p, m)" by fastforce
  with buf_loop_progress [OF assms(4,3), of "replicate n (CHR 0x00)"] have "m \<noteq> 0" by simp
  with l assms Suc show ?case by (simp add: file_reader_def File_Read_def)
qed simp

end
