(* ===== verification/Diff_Copy.thy ===== *)
theory Diff_Copy
  imports Fs_Sync
begin

text \<open>
  The file sender behind \<open>DiffCopy\<close> (\<open>pkg/fssync/diffcopy.go\<close>): one goroutine walks the context and
  announces every entry, one receives the requests of BuildKit and queues them, and the workers send
  the requested files. All of them share the connection, which the mutex of \<open>syncStream\<close> serialises,
  so a message is sent in one step; sending may fail at any time.

  What other code provides is in a record: the entries that the filtered file system walks and the result
  of its walk, the content that opening and copying a path gives as the chunks the copy writes, and the
  error of a failing send.
\<close>

section \<open>Messages and environment\<close>

datatype sent_packet =
    PacketStat "stat option"
  | PacketData "32 word" bytes
  | PacketErr goerr
  | PacketFin

datatype in_packet =
    InErr bytes
  | InReq "32 word"
  | InFin
  | InOther

text \<open>An entry of the walk: its error, or its stat unless \<open>Sys\<close> returned something else.\<close>

type_synonym walk_entry = "string \<times> (goerr + stat option)"

record sender_env =
  se_walk :: "walk_entry list"
  se_walk_result :: "goerr option"
  se_open :: "string \<Rightarrow> goerr + (bytes list \<times> goerr option)"
  se_proxy :: FSSyncProxy
  se_send_error :: goerr

definition fileCanRequestData :: "file_mode \<Rightarrow> bool" where
  "fileCanRequestData m \<longleftrightarrow> m AND ModeType = 0"

section \<open>State\<close>

type_synonym send_handle = "32 word \<times> string"

datatype swalk_pc =
    WalkNext "32 word" "walk_entry list"
  | WalkSend "32 word" string stat "walk_entry list"
  | WalkLast
  | WalkFail goerr
  | WalkDone

datatype worker_pc =
    WorkerIdle
  | WorkerGot send_handle
  | WorkerSend "32 word" "bytes list" "goerr option"
  | WorkerDone

datatype receiver_pc =
    ReceiverLoop
  | ReceiverRecv
  | ReceiverQueue send_handle
  | ReceiverFin
  | ReceiverDone

record sender =
  sn_files :: "send_handle list"
  sn_pipeline :: "send_handle list"
  sn_closed :: bool
  sn_sent :: "sent_packet list"
  sn_in :: "(goerr + in_packet) list"
  sn_walk :: swalk_pc
  sn_workers :: "worker_pc list"
  sn_recv :: receiver_pc
  sn_canceled :: bool
  sn_err :: "goerr option"

definition group_error :: "goerr \<Rightarrow> sender \<Rightarrow> sender" where
  \<comment> \<open>a goroutine of the \<open>errgroup\<close> returns an error: the first one is kept and cancels the context\<close>
  "group_error e s = (case sn_err s of None \<Rightarrow> s\<lparr>sn_err := Some e, sn_canceled := True\<rparr> | Some _ \<Rightarrow> s)"

definition conn_SendMsg :: "sent_packet \<Rightarrow> sender \<Rightarrow> sender" where
  "conn_SendMsg p s = s\<lparr>sn_sent := sn_sent s @ [p]\<rparr>"

section \<open>The walking goroutine\<close>

definition EBADMSG :: goerr where
  "EBADMSG = Errorf ''fileinfo without stat info: bad message''"

definition walk_register :: "32 word \<Rightarrow> stat \<Rightarrow> sender \<Rightarrow> sender" where
  "walk_register i st s =
     (if fileCanRequestData (st_Mode st) then s\<lparr>sn_files := AList.update i (st_Path st) (sn_files s)\<rparr> else s)"

definition walk_step :: "sender_env \<Rightarrow> sender \<Rightarrow> sender outcomes" where
  "walk_step env s =
     (case sn_walk s of
        WalkNext i [] \<Rightarrow>
          (case se_walk_result env of
             Some e \<Rightarrow> [s\<lparr>sn_walk := WalkFail e\<rparr>]
           | None \<Rightarrow> [s\<lparr>sn_walk := WalkLast\<rparr>])
      | WalkNext i ((path, Inl e) # es) \<Rightarrow> [s\<lparr>sn_walk := WalkFail e\<rparr>]
      | WalkNext i ((path, Inr None) # es) \<Rightarrow> [s\<lparr>sn_walk := WalkFail EBADMSG\<rparr>]
      | WalkNext i ((path, Inr (Some st)) # es) \<Rightarrow> [walk_register i st (s\<lparr>sn_walk := WalkSend (i + 1) path st es\<rparr>)]
      | WalkSend i path st es \<Rightarrow>
          [conn_SendMsg (PacketStat (Some st)) (s\<lparr>sn_walk := WalkNext i es\<rparr>),
           s\<lparr>sn_walk := WalkFail (Wrapf ''failed to send stat'' (se_send_error env))\<rparr>]
      | WalkLast \<Rightarrow>
          [conn_SendMsg (PacketStat None) (s\<lparr>sn_walk := WalkDone\<rparr>),
           s\<lparr>sn_walk := WalkFail (Wrapf ''failed to send last stat'' (se_send_error env))\<rparr>]
      | WalkFail e \<Rightarrow>
          [group_error e (conn_SendMsg (PacketErr e) (s\<lparr>sn_walk := WalkDone\<rparr>)),
           group_error (Wrapf ''walk failed and sending the error packet failed'' (se_send_error env)) (s\<lparr>sn_walk := WalkDone\<rparr>)]
      | WalkDone \<Rightarrow> [])"

section \<open>The workers\<close>

definition copied_chunks :: "sender_env \<Rightarrow> string \<Rightarrow> goerr + (bytes list \<times> goerr option)" where
  \<comment> \<open>the writes of the copy in \<open>sendFile\<close>: staged files come from the proxy, and a \<open>bytes.Reader\<close> writes its rest at once\<close>
  "copied_chunks env path =
     (if path = staged_Dockerfile then Inr ([fp_dockerfile (se_proxy env)], None)
      else if path = staged_dockerignore then Inr ([fp_dockerignore (se_proxy env)], None)
      else case se_open env path of Inl e \<Rightarrow> Inl (Wrapf ''failed to open requested file'' e) | Inr r \<Rightarrow> Inr r)"

definition file_chunks :: "sender_env \<Rightarrow> string \<Rightarrow> goerr + (bytes list \<times> goerr option)" where
  \<comment> \<open>the writes that \<open>fileSender.Write\<close> turns into packets: it sends nothing for an empty one\<close>
  "file_chunks env path = res_bind (copied_chunks env path) (\<lambda>(cs, e). Inr (filter (\<lambda>c. c \<noteq> []) cs, e))"

definition worker_return :: "nat \<Rightarrow> goerr option \<Rightarrow> sender \<Rightarrow> sender" where
  "worker_return k r s =
     (let s' = s\<lparr>sn_workers := (sn_workers s)[k := WorkerDone]\<rparr> in case r of None \<Rightarrow> s' | Some e \<Rightarrow> group_error e s')"

definition worker_goto :: "nat \<Rightarrow> worker_pc \<Rightarrow> sender \<Rightarrow> sender" where
  "worker_goto k pc s = s\<lparr>sn_workers := (sn_workers s)[k := pc]\<rparr>"

definition worker_step :: "sender_env \<Rightarrow> nat \<Rightarrow> sender \<Rightarrow> sender outcomes" where
  "worker_step env k s =
     (case sn_workers s ! k of
        WorkerIdle \<Rightarrow>
          (case sn_pipeline s of
             h # q \<Rightarrow> [worker_goto k (WorkerGot h) (s\<lparr>sn_pipeline := q\<rparr>)]
           | [] \<Rightarrow> alt_if (sn_closed s) [worker_return k None s])
      | WorkerGot h \<Rightarrow>
          (if sn_canceled s then [worker_return k (Some ContextCanceled) s]
           else
             (case file_chunks env (snd h) of
                Inl e \<Rightarrow> [worker_return k (Some e) s]
              | Inr (cs, e) \<Rightarrow> [worker_goto k (WorkerSend (fst h) cs e) s]))
      | WorkerSend i (c # cs) e \<Rightarrow>
          [worker_goto k (WorkerSend i cs e) (conn_SendMsg (PacketData i c) s), worker_return k (Some (se_send_error env)) s]
      | WorkerSend i [] (Some e) \<Rightarrow> [worker_return k (Some e) s]
      | WorkerSend i [] None \<Rightarrow>
          [worker_goto k WorkerIdle (conn_SendMsg (PacketData i []) s), worker_return k (Some (se_send_error env)) s]
      | WorkerDone \<Rightarrow> [])"

section \<open>The receiving goroutine\<close>

definition receiver_return :: "goerr option \<Rightarrow> sender \<Rightarrow> sender" where
  \<comment> \<open>with the deferred \<open>close(s.sendpipeline)\<close>\<close>
  "receiver_return r s =
     (let s' = s\<lparr>sn_recv := ReceiverDone, sn_closed := True\<rparr> in case r of None \<Rightarrow> s' | Some e \<Rightarrow> group_error e s')"

definition queue_file :: "32 word \<Rightarrow> sender \<Rightarrow> sender" where
  "queue_file i s =
     (case map_of (sn_files s) i of
        None \<Rightarrow> receiver_return (Some (Errorf ''invalid file id'')) s
      | Some p \<Rightarrow> s\<lparr>sn_files := AList.delete i (sn_files s), sn_recv := ReceiverQueue (i, p)\<rparr>)"

definition receiver_step :: "sender_env \<Rightarrow> nat \<Rightarrow> sender \<Rightarrow> sender outcomes" where
  "receiver_step env cap s =
     (case sn_recv s of
        ReceiverLoop \<Rightarrow>
          [if sn_canceled s then receiver_return (Some ContextCanceled) s else s\<lparr>sn_recv := ReceiverRecv\<rparr>]
      | ReceiverRecv \<Rightarrow>
          (case sn_in s of
             [] \<Rightarrow> []
           | Inl e # es \<Rightarrow> [receiver_return (Some e) (s\<lparr>sn_in := es\<rparr>)]
           | Inr (InErr d) # es \<Rightarrow> [receiver_return (Some (Errorf (''error from receiver: '' @ d))) (s\<lparr>sn_in := es\<rparr>)]
           | Inr (InReq i) # es \<Rightarrow> [queue_file i (s\<lparr>sn_in := es\<rparr>)]
           | Inr InFin # es \<Rightarrow> [s\<lparr>sn_in := es, sn_recv := ReceiverFin\<rparr>]
           | Inr InOther # es \<Rightarrow> [s\<lparr>sn_in := es, sn_recv := ReceiverLoop\<rparr>])
      | ReceiverQueue h \<Rightarrow> alt_if (length (sn_pipeline s) < cap) [s\<lparr>sn_pipeline := sn_pipeline s @ [h], sn_recv := ReceiverLoop\<rparr>]
      | ReceiverFin \<Rightarrow>
          [receiver_return None (conn_SendMsg PacketFin s), receiver_return (Some (se_send_error env)) s]
      | ReceiverDone \<Rightarrow> [])"

section \<open>The sender as a whole\<close>

definition sender_init :: "sender_env \<Rightarrow> nat \<Rightarrow> (goerr + in_packet) list \<Rightarrow> sender" where
  "sender_init env workers script =
     \<lparr>sn_files = [], sn_pipeline = [], sn_closed = False, sn_sent = [], sn_in = script,
      sn_walk = WalkNext 0 (se_walk env), sn_workers = replicate workers WorkerIdle, sn_recv = ReceiverLoop,
      sn_canceled = False, sn_err = None\<rparr>"

definition run_returned :: "sender \<Rightarrow> bool" where
  \<comment> \<open>\<open>g.Wait()\<close> returns, with \<open>sn_err\<close>\<close>
  "run_returned s \<longleftrightarrow> sn_walk s = WalkDone \<and> sn_recv s = ReceiverDone \<and> list_all (\<lambda>w. w = WorkerDone) (sn_workers s)"

inductive sender_step :: "sender_env \<Rightarrow> nat \<Rightarrow> sender \<Rightarrow> sender \<Rightarrow> bool" for env cap where
  walking: "s' \<in> set (walk_step env s) \<Longrightarrow> sender_step env cap s s'"
| working: "k < length (sn_workers s) \<Longrightarrow> s' \<in> set (worker_step env k s) \<Longrightarrow> sender_step env cap s s'"
| receiving: "s' \<in> set (receiver_step env cap s) \<Longrightarrow> sender_step env cap s s'"
| canceling: "sender_step env cap s (s\<lparr>sn_canceled := True\<rparr>)"

inductive sender_reachable :: "sender_env \<Rightarrow> nat \<Rightarrow> nat \<Rightarrow> (goerr + in_packet) list \<Rightarrow> sender \<Rightarrow> bool" for env cap workers script where
  start: "sender_reachable env cap workers script (sender_init env workers script)"
| step: "sender_reachable env cap workers script s \<Longrightarrow> sender_step env cap s s' \<Longrightarrow> sender_reachable env cap workers script s'"

text \<open>\<open>DiffCopy\<close>: 64 workers and a pipeline of 128.\<close>

abbreviation DiffCopy_reachable :: "sender_env \<Rightarrow> (goerr + in_packet) list \<Rightarrow> sender \<Rightarrow> bool" where
  "DiffCopy_reachable env \<equiv> sender_reachable env 128 64"

section \<open>Who holds a file identifier\<close>

text \<open>The files that a walk from position \<open>i\<close> announces as requestable, up to its first failing entry.\<close>

fun announced :: "32 word \<Rightarrow> walk_entry list \<Rightarrow> send_handle list" where
  "announced i [] = []"
| "announced i ((path, r) # es) =
     (case r of
        Inr (Some st) \<Rightarrow> (if fileCanRequestData (st_Mode st) then [(i, st_Path st)] else []) @ announced (i + 1) es
      | _ \<Rightarrow> [])"

fun walk_pending :: "swalk_pc \<Rightarrow> send_handle list" where
  "walk_pending (WalkNext i es) = announced i es"
| "walk_pending (WalkSend i path st es) = announced i es"
| "walk_pending pc = []"

fun receiver_holds :: "receiver_pc \<Rightarrow> send_handle list" where
  "receiver_holds (ReceiverQueue h) = [h]"
| "receiver_holds pc = []"

fun worker_holds :: "worker_pc \<Rightarrow> send_handle list" where
  "worker_holds (WorkerGot h) = [h]"
| "worker_holds pc = []"

fun worker_ids :: "worker_pc \<Rightarrow> 32 word list" where
  "worker_ids (WorkerGot h) = [fst h]"
| "worker_ids (WorkerSend i cs e) = [i]"
| "worker_ids pc = []"

definition waiting :: "sender \<Rightarrow> send_handle list" where
  "waiting s = sn_files s @ sn_pipeline s @ receiver_holds (sn_recv s) @ walk_pending (sn_walk s)"

definition tokens :: "sender \<Rightarrow> 32 word list" where
  "tokens s = map fst (waiting s) @ concat (map worker_ids (sn_workers s))"

fun data_of :: "32 word \<Rightarrow> sent_packet list \<Rightarrow> bytes list" where
  "data_of i [] = []"
| "data_of i (PacketData j d # ps) = (if i = j then d # data_of i ps else data_of i ps)"
| "data_of i (_ # ps) = data_of i ps"

lemma data_of_append [simp]: "data_of i (ps @ qs) = data_of i ps @ data_of i qs"
  by (induction i ps rule: data_of.induct) auto

lemma mset_concat_update:
  "k < length ws \<Longrightarrow> mset (concat (map f (ws[k := w]))) + mset (f (ws ! k)) = mset (concat (map f ws)) + mset (f w)"
  using sum_list_update_add [of k ws "\<lambda>w. mset (f w)" w] by (simp add: mset_concat comp_def)

lemma distinct_concat_nth:
  "distinct (concat (map f xs)) \<Longrightarrow> j < length xs \<Longrightarrow> k < length xs \<Longrightarrow> j \<noteq> k \<Longrightarrow> set (f (xs ! j)) \<inter> set (f (xs ! k)) = {}"
proof (induction xs arbitrary: j k)
  case (Cons x xs)
  from Cons.prems(1) have x: "set (f x) \<inter> set (f (xs ! l)) = {}" if "l < length xs" for l
    using nth_mem [OF that] by fastforce
  show ?case
  proof (cases j)
    case 0
    with Cons.prems x show ?thesis by (cases k) auto
  next
    case (Suc j')
    show ?thesis
    proof (cases k)
      case 0
      with Suc Cons.prems x [of j'] show ?thesis by auto
    next
      case (Suc k')
      with \<open>j = Suc j'\<close> Cons.prems Cons.IH [of j' k'] show ?thesis by simp
    qed
  qed
qed simp

lemma distinct_mset_subset: "mset xs \<subseteq># mset ys \<Longrightarrow> distinct ys \<Longrightarrow> distinct xs"
  by (metis distinct_append mset_eq_imp_distinct_iff mset_append mset_subset_eq_exists_conv ex_mset)

lemma mset_update_fresh: "i \<notin> fst ` set m \<Longrightarrow> mset (AList.update i p m) = add_mset (i, p) (mset m)"
  by (induction m) auto

lemma mset_delete_key:
  assumes "map_of m i = Some p" "distinct (map fst m)"
  shows "mset m = add_mset (i, p) (mset (AList.delete i m))"
  using assms
proof (induction m)
  case (Cons a m)
  obtain j q where a: "a = (j, q)" by fastforce
  from Cons show ?case
  proof (cases "j = i")
    case True
    with Cons.prems a have "AList.delete i m = m" by (intro delete_id) auto
    with True Cons.prems a show ?thesis by simp
  qed (simp add: a)
qed simp

lemma group_error_simps [simp]:
  "sn_files (group_error e s) = sn_files s" "sn_pipeline (group_error e s) = sn_pipeline s"
  "sn_sent (group_error e s) = sn_sent s" "sn_walk (group_error e s) = sn_walk s"
  "sn_workers (group_error e s) = sn_workers s" "sn_recv (group_error e s) = sn_recv s"
  "sn_closed (group_error e s) = sn_closed s" "sn_in (group_error e s) = sn_in s"
  by (simp_all add: group_error_def split: option.splits)

lemmas sender_defs = walk_step_def walk_register_def worker_step_def worker_return_def worker_goto_def receiver_step_def
  receiver_return_def queue_file_def conn_SendMsg_def Let_def

section \<open>Identifiers are held once\<close>

lemma walk_step_tokens:
  assumes "s' \<in> set (walk_step env s)" "distinct (tokens s)"
  shows "mset (tokens s') \<subseteq># mset (tokens s) \<and> sn_workers s' = sn_workers s \<and>
    set (waiting s') \<subseteq> set (waiting s) \<and> (\<forall>i. data_of i (sn_sent s') = data_of i (sn_sent s))"
proof (cases "sn_walk s")
  case (WalkNext i es)
  show ?thesis
  proof (cases es)
    case Nil
    with WalkNext assms(1) show ?thesis
      by (auto simp: walk_step_def tokens_def waiting_def split: option.splits)
  next
    case (Cons e es')
    obtain path r where e: "e = (path, r)" by fastforce
    consider (err) x where "r = Inl x" | (bad) "r = Inr None" | (ok) st where "r = Inr (Some st)"
      by (cases r) (auto simp: not_None_eq [symmetric])
    then show ?thesis
    proof cases
      case ok
      have "i \<notin> fst ` set (sn_files s)" if "fileCanRequestData (st_Mode st)"
        using assms(2) WalkNext Cons e ok that by (auto simp: tokens_def waiting_def)
      with assms(1) WalkNext Cons e ok show ?thesis
        by (auto simp: walk_step_def walk_register_def tokens_def waiting_def mset_update_fresh
            set_mset_mset [symmetric] simp del: set_mset_mset)
    qed (use assms(1) WalkNext Cons e in \<open>auto simp: walk_step_def tokens_def waiting_def\<close>)
  qed
qed (use assms(1) in \<open>auto simp: walk_step_def conn_SendMsg_def tokens_def waiting_def\<close>)

lemma receiver_step_tokens:
  assumes "s' \<in> set (receiver_step env cap s)" "distinct (tokens s)"
  shows "mset (tokens s') \<subseteq># mset (tokens s) \<and> sn_workers s' = sn_workers s \<and>
    set (waiting s') \<subseteq> set (waiting s) \<and> (\<forall>i. data_of i (sn_sent s') = data_of i (sn_sent s))"
proof -
  have queue: "mset (tokens (queue_file i t)) \<subseteq># mset (tokens t) \<and> sn_workers (queue_file i t) = sn_workers t \<and>
      set (waiting (queue_file i t)) \<subseteq> set (waiting t) \<and> (\<forall>i'. data_of i' (sn_sent (queue_file i t)) = data_of i' (sn_sent t))"
    if "distinct (tokens t)" "sn_recv t = ReceiverRecv" for i t
  proof (cases "map_of (sn_files t) i")
    case None
    then show ?thesis using that(2) by (simp add: queue_file_def receiver_return_def Let_def tokens_def waiting_def)
  next
    case (Some p)
    define d where "d = AList.delete i (sn_files t)"
    have m: "mset (sn_files t) = add_mset (i, p) (mset d)"
      using that(1) unfolding d_def by (intro mset_delete_key [OF Some]) (simp add: tokens_def waiting_def)
    then have "set (sn_files t) = insert (i, p) (set d)" by (metis set_mset_add_mset_insert set_mset_mset)
    moreover have "queue_file i t = t\<lparr>sn_files := d, sn_recv := ReceiverQueue (i, p)\<rparr>"
      using Some by (simp add: queue_file_def d_def)
    ultimately show ?thesis using m that(2) by (simp add: tokens_def waiting_def)
  qed
  show ?thesis
  proof (cases "sn_recv s")
    case ReceiverRecv
    consider (none) "sn_in s = []" | (req) i es where "sn_in s = Inr (InReq i) # es"
      | (err) e es where "sn_in s = Inl e # es" | (perr) d es where "sn_in s = Inr (InErr d) # es"
      | (fin) es where "sn_in s = Inr InFin # es" | (other) es where "sn_in s = Inr InOther # es"
      by (metis in_packet.exhaust list.exhaust sum.exhaust)
    then show ?thesis
    proof cases
      case req
      with assms(1) ReceiverRecv have "s' = queue_file i (s\<lparr>sn_in := es\<rparr>)" by (simp add: receiver_step_def)
      moreover have "waiting (s\<lparr>sn_in := es\<rparr>) = waiting s" "tokens (s\<lparr>sn_in := es\<rparr>) = tokens s"
        by (simp_all add: waiting_def tokens_def)
      ultimately show ?thesis using queue [of "s\<lparr>sn_in := es\<rparr>" i] assms(2) ReceiverRecv by simp
    qed (use assms(1) ReceiverRecv in \<open>simp_all add: receiver_step_def receiver_return_def Let_def tokens_def waiting_def\<close>)
  qed (use assms(1) in \<open>auto simp: receiver_step_def receiver_return_def conn_SendMsg_def Let_def tokens_def waiting_def\<close>)
qed

section \<open>The data sent for an identifier\<close>

text \<open>What may have been sent for an identifier: a part of its file from the start, or all of it and the end mark.\<close>

definition data_ok :: "sender_env \<Rightarrow> 32 word \<Rightarrow> bytes list \<Rightarrow> bool" where
  "data_ok env i ds \<longleftrightarrow> ds = [] \<or>
     (\<exists>p cs e. (i, p) \<in> set (announced 0 (se_walk env)) \<and> file_chunks env p = Inr (cs, e) \<and>
        (prefix ds cs \<or> e = None \<and> ds = cs @ [[]]))"

definition worker_ok :: "sender_env \<Rightarrow> sent_packet list \<Rightarrow> worker_pc \<Rightarrow> bool" where
  "worker_ok env sent w =
     (case w of
        WorkerGot h \<Rightarrow> h \<in> set (announced 0 (se_walk env)) \<and> data_of (fst h) sent = []
      | WorkerSend i cs e \<Rightarrow>
          (\<exists>p ds. (i, p) \<in> set (announced 0 (se_walk env)) \<and> file_chunks env p = Inr (ds @ cs, e) \<and> data_of i sent = ds)
      | _ \<Rightarrow> True)"

definition sender_inv :: "sender_env \<Rightarrow> sender \<Rightarrow> bool" where
  "sender_inv env s \<longleftrightarrow> distinct (tokens s) \<and>
     (\<forall>h \<in> set (waiting s). h \<in> set (announced 0 (se_walk env)) \<and> data_of (fst h) (sn_sent s) = []) \<and>
     (\<forall>w \<in> set (sn_workers s). worker_ok env (sn_sent s) w) \<and> (\<forall>i. data_ok env i (data_of i (sn_sent s)))"

lemma worker_ok_cong: "(\<And>i. i \<in> set (worker_ids w) \<Longrightarrow> data_of i sent' = data_of i sent) \<Longrightarrow> worker_ok env sent' w = worker_ok env sent w"
  by (cases w) (auto simp: worker_ok_def)

text \<open>A step that sends no data and takes no identifier keeps the invariant.\<close>

lemma sender_inv_quiet:
  assumes "sender_inv env s" "mset (tokens s') \<subseteq># mset (tokens s) \<and> sn_workers s' = sn_workers s \<and>
    set (waiting s') \<subseteq> set (waiting s) \<and> (\<forall>i. data_of i (sn_sent s') = data_of i (sn_sent s))"
  shows "sender_inv env s'"
proof -
  from assms(2) have ws: "sn_workers s' = sn_workers s" and sub: "set (waiting s') \<subseteq> set (waiting s)"
    and data: "\<And>i. data_of i (sn_sent s') = data_of i (sn_sent s)" and toks: "mset (tokens s') \<subseteq># mset (tokens s)" by auto
  have ok: "worker_ok env (sn_sent s') w = worker_ok env (sn_sent s) w" for w by (rule worker_ok_cong) (rule data)
  from assms(1) have inv: "distinct (tokens s)"
      "\<forall>h \<in> set (waiting s). h \<in> set (announced 0 (se_walk env)) \<and> data_of (fst h) (sn_sent s) = []"
      "\<forall>w \<in> set (sn_workers s). worker_ok env (sn_sent s) w" "\<forall>i. data_ok env i (data_of i (sn_sent s))"
    unfolding sender_inv_def by blast+
  show ?thesis
    unfolding sender_inv_def ws ok data using distinct_mset_subset [OF toks inv(1)] inv(2-4) sub by blast
qed

text \<open>A worker that moves on without sending data.\<close>

lemma sender_inv_worker:
  assumes inv: "sender_inv env s" and k: "k < length (sn_workers s)"
    and s': "sn_workers s' = (sn_workers s)[k := w]" "sn_sent s' = sn_sent s" "waiting s' = ws"
    and w: "mset (map fst ws) + mset (worker_ids w) \<subseteq># mset (map fst (waiting s)) + mset (worker_ids (sn_workers s ! k))"
      "set ws \<subseteq> set (waiting s)" "worker_ok env (sn_sent s) w"
  shows "sender_inv env s'"
proof -
  let ?old = "mset (worker_ids (sn_workers s ! k))" and ?all = "mset (concat (map worker_ids (sn_workers s)))"
  have "mset (tokens s') + ?old = (mset (map fst ws) + mset (worker_ids w)) + ?all"
    using mset_concat_update [OF k, of worker_ids w] by (simp add: tokens_def s' ac_simps)
  also have "\<dots> \<subseteq># (mset (map fst (waiting s)) + ?old) + ?all" using w(1) by (rule subset_mset.add_right_mono)
  also have "\<dots> = mset (tokens s) + ?old" by (simp add: tokens_def ac_simps)
  finally have "mset (tokens s') + ?old \<subseteq># mset (tokens s) + ?old" .
  then have "distinct (tokens s')"
    using inv distinct_mset_subset unfolding sender_inv_def by (metis mset_subset_eq_mono_add_right_cancel)
  moreover have "worker_ok env (sn_sent s') v" if "v \<in> set (sn_workers s')" for v
    using that inv w(3) set_update_subset_insert [of "sn_workers s" k w] unfolding sender_inv_def s' by auto
  ultimately show ?thesis using inv w(2) unfolding sender_inv_def s' by blast
qed

text \<open>A worker that sends a packet for the identifier it holds.\<close>

lemma sender_inv_send:
  assumes inv: "sender_inv env s" and k: "k < length (sn_workers s)" and i: "worker_ids (sn_workers s ! k) = [i]"
    and s': "sn_workers s' = (sn_workers s)[k := w]" "sn_sent s' = sn_sent s @ [PacketData i d]" "waiting s' = waiting s"
    and w: "set (worker_ids w) \<subseteq> {i}" "length (worker_ids w) \<le> 1" "worker_ok env (sn_sent s @ [PacketData i d]) w"
    and ok: "data_ok env i (data_of i (sn_sent s) @ [d])"
  shows "sender_inv env s'"
proof -
  have sub: "mset (worker_ids w) \<subseteq># {#i#}" using w(1,2) by (cases "worker_ids w") auto
  from mset_concat_update [OF k, of worker_ids w] i
  have "mset (tokens s') + {#i#} = mset (tokens s) + mset (worker_ids w)" by (simp add: tokens_def s')
  with sub have "mset (tokens s') \<subseteq># mset (tokens s)"
    by (metis mset_subset_eq_mono_add_right_cancel subset_mset.add_left_mono)
  then have d: "distinct (tokens s')" using inv distinct_mset_subset unfolding sender_inv_def by blast
  have dis: "distinct (tokens s)" using inv unfolding sender_inv_def by blast
  have "i \<in> set (worker_ids (sn_workers s ! k))" using i by simp
  then have other: "fst h \<noteq> i" if "h \<in> set (waiting s)" for h
    using dis k that unfolding tokens_def by (fastforce simp: in_set_conv_nth)
  have rest: "worker_ok env (sn_sent s') (sn_workers s ! j)" if "j < length (sn_workers s)" "j \<noteq> k" for j
  proof -
    have "i \<notin> set (worker_ids (sn_workers s ! j))"
      using distinct_concat_nth [of worker_ids "sn_workers s" j k] dis k that i by (simp add: tokens_def)
    then have "worker_ok env (sn_sent s') (sn_workers s ! j) = worker_ok env (sn_sent s) (sn_workers s ! j)"
      unfolding s' by (intro worker_ok_cong) auto
    with inv that show ?thesis unfolding sender_inv_def by (metis nth_mem)
  qed
  have "worker_ok env (sn_sent s') v" if "v \<in> set (sn_workers s')" for v
  proof -
    from that obtain j where j: "j < length (sn_workers s)" "v = (sn_workers s)[k := w] ! j"
      by (metis in_set_conv_nth length_list_update s'(1))
    with rest [of j] w(3) s'(2) show ?thesis by (cases "j = k") auto
  qed
  with inv d other ok show ?thesis unfolding sender_inv_def s' by auto
qed

lemma worker_step_inv:
  assumes inv: "sender_inv env s" and k: "k < length (sn_workers s)" and step: "s' \<in> set (worker_step env k s)"
  shows "sender_inv env s'"
proof -
  let ?w = "sn_workers s ! k"
  have wok: "worker_ok env (sn_sent s) ?w" using inv k unfolding sender_inv_def by (metis nth_mem)
  have stop: "sender_inv env (worker_return k r s)" for r
    by (rule sender_inv_worker [OF inv k, where w = WorkerDone and ws = "waiting s"])
      (auto simp: worker_return_def Let_def waiting_def worker_ok_def split: option.splits)
  show ?thesis
  proof (cases ?w)
    case WorkerIdle
    show ?thesis
    proof (cases "sn_pipeline s")
      case Nil
      with WorkerIdle step stop show ?thesis by (auto simp: worker_step_def)
    next
      case (Cons h q)
      with WorkerIdle step have "s' = worker_goto k (WorkerGot h) (s\<lparr>sn_pipeline := q\<rparr>)" by (simp add: worker_step_def)
      moreover have "h \<in> set (waiting s)" using Cons by (simp add: waiting_def)
      ultimately show ?thesis
        using inv WorkerIdle Cons
        by (intro sender_inv_worker [OF inv k, where w = "WorkerGot h"
              and ws = "sn_files s @ q @ receiver_holds (sn_recv s) @ walk_pending (sn_walk s)"])
          (auto simp: worker_goto_def waiting_def worker_ok_def sender_inv_def)
    qed
  next
    case (WorkerGot h)
    show ?thesis
    proof (cases "sn_canceled s \<or> (\<exists>e. file_chunks env (snd h) = Inl e)")
      case True
      with WorkerGot step stop show ?thesis by (auto simp: worker_step_def split: if_splits)
    next
      case False
      then obtain cs e where c: "file_chunks env (snd h) = Inr (cs, e)" "\<not> sn_canceled s"
        by (metis sum.exhaust surj_pair)
      with WorkerGot step have s': "s' = worker_goto k (WorkerSend (fst h) cs e) s" by (simp add: worker_step_def)
      from wok WorkerGot c have "worker_ok env (sn_sent s) (WorkerSend (fst h) cs e)"
        by (cases h) (auto simp: worker_ok_def)
      with WorkerGot show ?thesis unfolding s'
        by (intro sender_inv_worker [OF inv k, where w = "WorkerSend (fst h) cs e" and ws = "waiting s"])
          (auto simp: worker_goto_def waiting_def)
    qed
  next
    case (WorkerSend i cs e)
    from wok WorkerSend obtain p ds where p: "(i, p) \<in> set (announced 0 (se_walk env))" "file_chunks env p = Inr (ds @ cs, e)"
        "data_of i (sn_sent s) = ds" by (auto simp: worker_ok_def)
    have send: "sender_inv env (worker_goto k w (conn_SendMsg (PacketData i d) s))"
      if "set (worker_ids w) \<subseteq> {i}" "length (worker_ids w) \<le> 1" "worker_ok env (sn_sent s @ [PacketData i d]) w" "data_ok env i (ds @ [d])" for w d
      by (rule sender_inv_send [OF inv k _ _ _ _ that(1-3)])
        (use WorkerSend that(4) p(3) in \<open>auto simp: worker_goto_def conn_SendMsg_def waiting_def\<close>)
    show ?thesis
    proof (cases cs)
      case Nil
      then have "data_ok env i (ds @ [[]])" if "e = None" using p that by (auto simp: data_ok_def)
      with send [of WorkerIdle "[]"] WorkerSend Nil step stop show ?thesis
        by (cases e) (auto simp: worker_step_def worker_ok_def)
    next
      case (Cons c cs')
      have "data_ok env i (ds @ [c])" using p Cons by (auto simp: data_ok_def)
      moreover have "worker_ok env (sn_sent s @ [PacketData i c]) (WorkerSend i cs' e)" using p Cons by (auto simp: worker_ok_def)
      ultimately show ?thesis using send [of "WorkerSend i cs' e" c] WorkerSend Cons step stop by (auto simp: worker_step_def)
    qed
  next
    case WorkerDone
    with step show ?thesis by (simp add: worker_step_def)
  qed
qed

lemma announced_range:
  "(j, p) \<in> set (announced i es) \<Longrightarrow> \<exists>k < length es. j = i + of_nat k"
proof (induction es arbitrary: i)
  case (Cons e es)
  obtain path r where e: "e = (path, r)" by fastforce
  from Cons.prems e consider "j = i" | "(j, p) \<in> set (announced (i + 1) es)"
    by (auto split: sum.splits option.splits if_splits)
  then show ?case
  proof cases
    case 1
    then show ?thesis by (intro exI [of _ 0]) simp
  next
    case 2
    from Cons.IH [OF this] obtain k where "k < length es" "j = i + 1 + of_nat k" by blast
    then show ?thesis by (intro exI [of _ "Suc k"]) simp
  qed
qed simp

lemma announced_distinct:
  "length es \<le> 2 ^ 32 \<Longrightarrow> distinct (map fst (announced i es))"
proof (induction es arbitrary: i)
  case (Cons e es)
  obtain path r where e: "e = (path, r)" by fastforce
  have "(i, p) \<notin> set (announced (i + 1) es)" for p
  proof
    assume "(i, p) \<in> set (announced (i + 1) es)"
    then obtain k where k: "k < length es" "i = i + 1 + of_nat k" using announced_range by blast
    then have "of_nat (Suc k) = (0 :: 32 word)" by simp
    then have "2 ^ 32 dvd Suc k" by (simp only: word_of_nat_eq_0_iff) simp
    with k(1) Cons.prems show False by (auto dest!: dvd_imp_le)
  qed
  with Cons e show ?case by (auto split: sum.splits option.splits)
qed simp

lemma sender_reachable_inv:
  assumes "sender_reachable env cap workers script s" "length (se_walk env) \<le> 2 ^ 32"
  shows "sender_inv env s"
  using assms(1)
proof induction
  case start
  have "concat (map worker_ids (replicate workers WorkerIdle)) = []" by simp
  then show ?case
    using announced_distinct [OF assms(2), of 0]
    by (simp add: sender_inv_def sender_init_def tokens_def waiting_def worker_ok_def data_ok_def)
next
  case (step s s')
  from step(2) show ?case
  proof cases
    case walking
    have "distinct (tokens s)" using step.IH unfolding sender_inv_def by blast
    from sender_inv_quiet [OF step.IH walk_step_tokens [OF walking this]] show ?thesis .
  next
    case (working k)
    with worker_step_inv step.IH show ?thesis by blast
  next
    case receiving
    have "distinct (tokens s)" using step.IH unfolding sender_inv_def by blast
    from sender_inv_quiet [OF step.IH receiver_step_tokens [OF receiving this]] show ?thesis .
  next
    case canceling
    then show ?thesis by (intro sender_inv_quiet [OF step.IH]) (simp add: tokens_def waiting_def)
  qed
qed

section \<open>The announcements\<close>

fun stats_of :: "sent_packet list \<Rightarrow> stat option list" where
  "stats_of [] = []"
| "stats_of (PacketStat st # ps) = st # stats_of ps"
| "stats_of (_ # ps) = stats_of ps"

lemma stats_of_append [simp]: "stats_of (ps @ qs) = stats_of ps @ stats_of qs"
  by (induction ps rule: stats_of.induct) auto

text \<open>The stats of the entries before the first failing one.\<close>

fun walk_stats :: "walk_entry list \<Rightarrow> stat list" where
  "walk_stats ((path, Inr (Some st)) # es) = st # walk_stats es"
| "walk_stats es = []"

fun stats_left :: "swalk_pc \<Rightarrow> stat list" where
  "stats_left (WalkNext i es) = walk_stats es"
| "stats_left (WalkSend i path st es) = st # walk_stats es"
| "stats_left pc = []"

text \<open>All entries are good and the walk reports no error.\<close>

definition walk_clean :: "sender_env \<Rightarrow> bool" where
  "walk_clean env \<longleftrightarrow> length (walk_stats (se_walk env)) = length (se_walk env) \<and> se_walk_result env = None"

definition stats_inv :: "sender_env \<Rightarrow> sender \<Rightarrow> bool" where
  "stats_inv env s =
     (let sent = stats_of (sn_sent s); all = map Some (walk_stats (se_walk env))
      in case sn_walk s of
           WalkNext i es \<Rightarrow> sent @ map Some (walk_stats es) = all \<and> suffix es (se_walk env)
             \<and> length sent + length es = length (se_walk env)
         | WalkSend i path st es \<Rightarrow> sent @ map Some (st # walk_stats es) = all \<and> suffix es (se_walk env)
             \<and> Suc (length sent) + length es = length (se_walk env)
         | WalkLast \<Rightarrow> sent = all \<and> walk_clean env
         | WalkFail e \<Rightarrow> prefix sent all
         | WalkDone \<Rightarrow> prefix sent all \<or> sent = all @ [None] \<and> walk_clean env)"

lemma walk_step_stats:
  assumes inv: "stats_inv env s" and step: "s' \<in> set (walk_step env s)"
  shows "stats_inv env s'"
proof (cases "sn_walk s")
  case (WalkNext i es)
  show ?thesis
  proof (cases es)
    case Nil
    with WalkNext inv have all: "stats_of (sn_sent s) = map Some (walk_stats (se_walk env))"
        "length (walk_stats (se_walk env)) = length (se_walk env)"
      by (auto simp: stats_inv_def Let_def)
    with WalkNext Nil step show ?thesis by (auto simp: walk_step_def stats_inv_def walk_clean_def split: option.splits)
  next
    case (Cons e es')
    obtain path r where e: "e = (path, r)" by fastforce
    have suf: "suffix es' (se_walk env)" using inv WalkNext Cons by (auto simp: stats_inv_def Let_def dest: suffix_ConsD)
    consider (err) x where "r = Inl x" | (bad) "r = Inr None" | (ok) st where "r = Inr (Some st)"
      by (cases r) (auto simp: not_None_eq [symmetric])
    then show ?thesis
    proof cases
      case ok
      with WalkNext Cons e inv step suf show ?thesis
        by (auto simp: walk_step_def walk_register_def stats_inv_def Let_def)
    qed (use WalkNext Cons e inv step in \<open>auto simp: walk_step_def stats_inv_def Let_def intro: prefixI\<close>)
  qed
next
  case (WalkSend i path st es)
  with inv step show ?thesis by (auto simp: walk_step_def conn_SendMsg_def stats_inv_def Let_def intro: prefixI [OF sym])
next
  case WalkLast
  with inv step show ?thesis by (auto simp: walk_step_def conn_SendMsg_def stats_inv_def Let_def)
next
  case (WalkFail e)
  with inv step show ?thesis by (auto simp: walk_step_def conn_SendMsg_def stats_inv_def Let_def)
next
  case WalkDone
  with step show ?thesis by (simp add: walk_step_def)
qed

lemma other_steps_stats:
  "s' \<in> set (worker_step env k s) \<Longrightarrow> stats_of (sn_sent s') = stats_of (sn_sent s) \<and> sn_walk s' = sn_walk s"
  "s' \<in> set (receiver_step env cap s) \<Longrightarrow> stats_of (sn_sent s') = stats_of (sn_sent s) \<and> sn_walk s' = sn_walk s"
  by (auto simp: sender_defs split: worker_pc.splits list.splits option.splits if_splits sum.splits prod.splits receiver_pc.splits in_packet.splits)

lemma sender_reachable_stats: "sender_reachable env cap workers script s \<Longrightarrow> stats_inv env s"
proof (induction rule: sender_reachable.induct)
  case start
  show ?case by (simp add: stats_inv_def sender_init_def)
next
  case (step s s')
  have same: "stats_inv env s'" if "stats_of (sn_sent s') = stats_of (sn_sent s) \<and> sn_walk s' = sn_walk s"
    using step.IH that by (simp add: stats_inv_def)
  from step(2) show ?case
  proof cases
    case walking
    with walk_step_stats step.IH show ?thesis by blast
  next
    case canceling
    then show ?thesis by (intro same) simp
  qed (use same other_steps_stats in blast)+
qed

section \<open>Properties\<close>

text \<open>An executable scheduler for concrete runs.\<close>

datatype sender_pick = PickWalk nat | PickWorker nat nat | PickReceiver nat

fun pick_step :: "sender_env \<Rightarrow> nat \<Rightarrow> sender \<Rightarrow> sender_pick \<Rightarrow> sender option" where
  "pick_step env cap s (PickWalk j) = (let xs = walk_step env s in if j < length xs then Some (xs ! j) else None)"
| "pick_step env cap s (PickWorker k j) =
     (if k < length (sn_workers s) then (let xs = worker_step env k s in if j < length xs then Some (xs ! j) else None) else None)"
| "pick_step env cap s (PickReceiver j) = (let xs = receiver_step env cap s in if j < length xs then Some (xs ! j) else None)"

fun sender_exec :: "sender_env \<Rightarrow> nat \<Rightarrow> sender_pick list \<Rightarrow> sender \<Rightarrow> sender option" where
  "sender_exec env cap [] s = Some s"
| "sender_exec env cap (x # xs) s = (case pick_step env cap s x of None \<Rightarrow> None | Some t \<Rightarrow> sender_exec env cap xs t)"

lemma pick_step_sound: "pick_step env cap s x = Some t \<Longrightarrow> sender_step env cap s t"
  by (cases x) (auto simp: Let_def split: if_splits intro: sender_step.intros)

lemma sender_exec_sound:
  "sender_reachable env cap workers script s \<Longrightarrow> sender_exec env cap xs s = Some t \<Longrightarrow> sender_reachable env cap workers script t"
proof (induction xs arbitrary: s)
  case (Cons x xs)
  from Cons.prems(2) obtain u where u: "pick_step env cap s x = Some u" "sender_exec env cap xs u = Some t"
    by (auto split: option.splits)
  with Cons.IH sender_reachable.step [OF Cons.prems(1) pick_step_sound [OF u(1)]] show ?case by blast
qed simp


definition demo_stat :: "string \<Rightarrow> 32 word \<Rightarrow> stat" where
  "demo_stat p m = \<lparr>st_Path = p, st_Mode = m, st_Uid = 0, st_Gid = 0, st_ModTime = 0, st_Linkname = []\<rparr>"

fun demo_open :: "string \<Rightarrow> goerr + (bytes list \<times> goerr option)" where
  "demo_open p = Inr ([p, ''!''], None)"

definition demo_sender_env :: sender_env where
  "demo_sender_env = \<lparr>se_walk = [(''d'', Inr (Some (demo_stat ''d'' ModeDir))), (''d/a'', Inr (Some (demo_stat ''d/a'' 420)))],
     se_walk_result = None, se_open = demo_open, se_proxy = demo_proxy, se_send_error = External ''send''\<rparr>"

definition demo_picks :: "sender_pick list" where
  "demo_picks = replicate 6 (PickWalk 0) @ replicate 3 (PickReceiver 0) @ replicate 5 (PickWorker 1 0) @
     replicate 3 (PickReceiver 0) @ [ PickWorker 0 0, PickWorker 1 0]"

definition demo_final :: "sender option" where
  "demo_final = sender_exec demo_sender_env 2 demo_picks (sender_init demo_sender_env 2 [Inr (InReq 1), Inr InFin])"

lemma demo_final_sent:
  "map_option sn_sent demo_final = Some [PacketStat (Some (demo_stat ''d'' ModeDir)), PacketStat (Some (demo_stat ''d/a'' 420)),
      PacketStat None, PacketData 1 ''d/a'', PacketData 1 ''!'', PacketData 1 [], PacketFin] \<and>
   map_option run_returned demo_final = Some True"
  by code_simp


text \<open>
  A receiver that waits for room in the pipeline when the last worker has failed waits forever: the workers are gone,
  and the send does not watch the context.
\<close>

lemma sender_stuck:
  assumes "sn_recv s = ReceiverQueue h" "cap \<le> length (sn_pipeline s)" "sn_walk s = WalkDone"
    "list_all (\<lambda>w. w = WorkerDone) (sn_workers s)" "sender_step env cap s s'"
  shows "s' = s\<lparr>sn_canceled := True\<rparr> \<and> \<not> run_returned s"
proof -
  have "sn_workers s ! k = WorkerDone" if "k < length (sn_workers s)" for k using assms(4) that by (simp add: list_all_length)
  with assms show ?thesis
    by (auto elim!: sender_step.cases simp: walk_step_def worker_step_def receiver_step_def run_returned_def)
qed

definition hang_env :: sender_env where
  "hang_env = demo_sender_env\<lparr>se_walk := [(''a'', Inr (Some (demo_stat ''a'' 420))), (''b'', Inr (Some (demo_stat ''b'' 420))),
     (''c'', Inr (Some (demo_stat ''c'' 420)))]\<rparr>"

definition hang_final :: "sender option" where
  "hang_final = sender_exec hang_env 1 (replicate 8 (PickWalk 0) @ replicate 3 (PickReceiver 0) @ replicate 2 (PickWorker 0 0) @
     replicate 5 (PickReceiver 0) @ [PickWorker 0 1]) (sender_init hang_env 1 [Inr (InReq 0), Inr (InReq 1), Inr (InReq 2)])"

lemma hang_final_state:
  "map_option (\<lambda>s. (sn_recv s, length (sn_pipeline s), sn_walk s, sn_workers s, sn_err s)) hang_final =
     Some (ReceiverQueue (2, ''c''), 1, WalkDone, [WorkerDone], Some (External ''send''))"
  by code_simp


end
