(* ===== verification/Build_Utils.thy ===== *)
theory Build_Utils
  imports Prelude Api_Messages "HOL-Library.List_Lexorder" "HOL-Library.Char_ord" "HOL-Library.Multiset"
begin

text \<open>
  The helpers of the build (\<open>pkg/build/utils\<close>): the capability list that the frontend announces
  (\<open>caps.go\<close>), the ordered getter over a string map (\<open>map_getter.go\<close>) and the order of the
  build platforms (\<open>platform.go\<close>). The platform of the machine is an argument.
\<close>

section \<open>Capabilities\<close>

text \<open>The identifiers, constants of BuildKit's \<open>solver/pb\<close>.\<close>

datatype cap_id =
    CapSourceOCILayout
  | CapSourceImageResolveMode
  | CapSourceImageLayerLimit
  | CapSourceLocal
  | CapSourceLocalUnique
  | CapSourceLocalSessionID
  | CapSourceLocalIncludePatterns
  | CapSourceLocalFollowPaths
  | CapSourceLocalExcludePatterns
  | CapSourceLocalSharedKeyHint
  | CapSourceLocalDiffer
  | CapSourceGit
  | CapSourceGitKeepDir
  | CapSourceGitFullURL
  | CapSourceGitHTTPAuth
  | CapSourceGitKnownSSHHosts
  | CapSourceGitMountSSHSock
  | CapSourceGitSubdir
  | CapSourceHTTP
  | CapSourceHTTPChecksum
  | CapSourceHTTPPerm
  | CapSourceHTTPUIDGID
  | CapBuildOpLLBFileName
  | CapExecMetaBase
  | CapExecMetaCgroupParent
  | CapExecMetaProxy
  | CapExecMetaNetwork
  | CapExecMetaSetsDefaultPath
  | CapExecMetaSecurity
  | CapExecMetaSecurityDeviceWhitelistV1
  | CapExecMetaUlimit
  | CapExecMountBind
  | CapExecMountBindReadWriteNoOutput
  | CapExecMountCache
  | CapExecMountCacheSharing
  | CapExecMountSelector
  | CapExecMountTmpfs
  | CapExecMountTmpfsSize
  | CapExecMountSecret
  | CapExecMountSSH
  | CapExecCgroupsMounted
  | CapExecSecretEnv
  | CapFileBase
  | CapFileRmWildcard
  | CapFileRmNoFollowSymlink
  | CapFileCopyIncludeExcludePatterns
  | CapConstraints
  | CapPlatform
  | CapMetaIgnoreCache
  | CapMetaDescription
  | CapMetaExportCache
  | CapRemoteCacheGHA
  | CapRemoteCacheS3
  | CapRemoteCacheAzBlob
  | CapMergeOp
  | CapDiffOp
  | CapAnnotations
  | CapAttestations
  | CapSourceDateEpoch
  | CapSourcePolicy

datatype cap_status = CapStatusStable | CapStatusExperimental | CapStatusPrerelease

record cap =
  cap_ID :: cap_id
  cap_Name :: string
  cap_Enabled :: bool
  cap_Status :: cap_status
  cap_SupportedHint :: smap

abbreviation experimental :: "cap_id \<Rightarrow> cap" where
  "experimental i \<equiv> \<lparr>cap_ID = i, cap_Name = [], cap_Enabled = True, cap_Status = CapStatusExperimental, cap_SupportedHint = []\<rparr>"

text \<open>The calls of \<open>Caps.Init\<close>, in their order.\<close>

definition source_caps :: "cap list" where
  "source_caps =
     [experimental CapSourceOCILayout,
      experimental CapSourceImageResolveMode,
      experimental CapSourceImageLayerLimit,
      experimental CapSourceLocal,
      experimental CapSourceLocalUnique,
      experimental CapSourceLocalSessionID,
      experimental CapSourceLocalIncludePatterns,
      experimental CapSourceLocalFollowPaths,
      experimental CapSourceLocalExcludePatterns,
      experimental CapSourceLocalSharedKeyHint,
      experimental CapSourceLocalDiffer,
      experimental CapSourceGit,
      experimental CapSourceGitKeepDir,
      experimental CapSourceGitFullURL,
      experimental CapSourceGitHTTPAuth,
      experimental CapSourceGitKnownSSHHosts,
      experimental CapSourceGitMountSSHSock,
      experimental CapSourceGitSubdir,
      experimental CapSourceHTTP,
      experimental CapSourceHTTPChecksum,
      experimental CapSourceHTTPPerm,
      experimental CapSourceOCILayout,
      experimental CapSourceHTTPUIDGID]"

definition exec_caps :: "cap list" where
  "exec_caps =
     [experimental CapBuildOpLLBFileName,
      experimental CapExecMetaBase,
      experimental CapExecMetaCgroupParent,
      experimental CapExecMetaProxy,
      experimental CapExecMetaNetwork,
      experimental CapExecMetaSetsDefaultPath,
      experimental CapExecMetaSecurity,
      experimental CapExecMetaSecurityDeviceWhitelistV1,
      experimental CapExecMetaUlimit,
      experimental CapExecMountBind,
      experimental CapExecMountBindReadWriteNoOutput,
      experimental CapExecMountCache,
      experimental CapExecMountCacheSharing,
      experimental CapExecMountSelector,
      experimental CapExecMountTmpfs,
      experimental CapExecMountTmpfsSize,
      experimental CapExecMountSecret,
      experimental CapExecMountSSH,
      experimental CapExecCgroupsMounted,
      experimental CapExecSecretEnv]"

definition file_meta_caps :: "cap list" where
  "file_meta_caps =
     [\<lparr>cap_ID = CapFileBase, cap_Name = '''', cap_Enabled = True, cap_Status = CapStatusPrerelease, cap_SupportedHint = [(''docker'', ''Docker v19.03''), (''buildkit'', ''BuildKit v0.5.0'')]\<rparr>,
      experimental CapFileRmWildcard,
      experimental CapFileRmNoFollowSymlink,
      experimental CapFileCopyIncludeExcludePatterns,
      experimental CapConstraints,
      experimental CapPlatform,
      experimental CapMetaIgnoreCache,
      experimental CapMetaDescription,
      experimental CapMetaExportCache,
      experimental CapRemoteCacheGHA,
      experimental CapRemoteCacheS3,
      experimental CapRemoteCacheAzBlob,
      experimental CapMergeOp,
      experimental CapDiffOp,
      experimental CapAnnotations,
      experimental CapAttestations,
      \<lparr>cap_ID = CapSourceDateEpoch, cap_Name = ''source date epoch'', cap_Enabled = True, cap_Status = CapStatusExperimental, cap_SupportedHint = []\<rparr>,
      experimental CapSourcePolicy]"

definition Caps :: "cap list" where
  "Caps = source_caps @ exec_caps @ file_meta_caps"

text \<open>
  \<open>apicaps.CapList.Init\<close> stores a capability under its identifier, so a later call for the same
  identifier replaces an earlier one; \<open>CapList.All\<close> gives the identifiers with their capability.
\<close>

definition cap_init :: "cap \<Rightarrow> (cap_id \<times> cap) list \<Rightarrow> (cap_id \<times> cap) list" where
  "cap_init c l = AList.update (cap_ID c) c l"

definition Caps_list :: "(cap_id \<times> cap) list" where
  "Caps_list = fold cap_init Caps []"

section \<open>The getter over a map\<close>

definition getter_Keys :: "smap \<Rightarrow> string list" where
  "getter_Keys m = sort (map fst m)"

definition getter_Get :: "smap \<Rightarrow> string \<Rightarrow> string \<times> bool" where
  "getter_Get m key = (case map_of m key of Some v \<Rightarrow> (v, True) | None \<Rightarrow> ([], False))"

section \<open>Platforms\<close>

definition linux_platform :: "string \<Rightarrow> string \<Rightarrow> platform" where
  "linux_platform arch variant =
     \<lparr>pl_architecture = arch, pl_os = ''linux'', pl_os_version = [], pl_os_features = [], pl_variant = variant\<rparr>"

definition known_platforms :: "platform list" where
  "known_platforms =
     [linux_platform ''arm64'' ''v8'', linux_platform ''arm'' ''v7'', linux_platform ''arm'' ''v6'',
      linux_platform ''amd64'' [], linux_platform ''mips64'' [], linux_platform ''mips64el'' [],
      linux_platform ''ppc64le'' [], linux_platform ''riscv64'' [], linux_platform ''s390x'' []]"

fun rank_in :: "string list \<Rightarrow> string \<Rightarrow> nat" where
  "rank_in [] arch = 0"
| "rank_in (candidate # order) arch = (if arch = candidate then 0 else Suc (rank_in order arch))"

definition platformRank :: "string \<Rightarrow> string \<Rightarrow> nat" where
  "platformRank architecture currentArchitecture =
     rank_in
       (if currentArchitecture = ''arm64''
        then [''arm64'', ''arm'', ''amd64'', ''mips64'', ''mips64el'', ''ppc64le'', ''riscv64'', ''s390x'']
        else [''amd64'', ''arm64'', ''arm'', ''mips64'', ''mips64el'', ''ppc64le'', ''riscv64'', ''s390x''])
       architecture"

text \<open>\<open>sort.SliceStable\<close> with a comparison by a key is the stable sort by that key.\<close>

definition BuildPlatforms :: "platform \<Rightarrow> platform list" where
  "BuildPlatforms currentPlatform =
     (let cur = pl_architecture currentPlatform
      in if cur \<noteq> ''amd64'' \<and> cur \<noteq> ''arm64'' then sort_key pl_architecture known_platforms
         else sort_key (\<lambda>p. platformRank (pl_architecture p) cur) known_platforms)"

section \<open>Properties\<close>

lemma getter_Keys_sorted: "sorted (getter_Keys m)" "set (getter_Keys m) = fst ` set m"
  by (simp_all add: getter_Keys_def)

text \<open>
  The getter over a map lists exactly the keys it can get, sorted and each once, so the
  lexer sees the same environment whatever the order of the map.
\<close>

theorem getter_consistent:
  assumes "distinct (map fst m)"
  shows "sorted (getter_Keys m) \<and> distinct (getter_Keys m) \<and> (\<forall>k. k \<in> set (getter_Keys m) \<longleftrightarrow> snd (getter_Get m k))"
proof -
  have "k \<in> fst ` set m \<longleftrightarrow> snd (getter_Get m k)" for k
    by (auto simp: getter_Get_def map_of_eq_None_iff split: option.split dest: map_of_SomeD) (metis fst_conv imageI map_of_SomeD)
  with assms show ?thesis by (simp add: getter_Keys_def)
qed

theorem getter_consistent_witness:
  "getter_Keys [(''b'', ''2''), (''a'', ''1'')] = [''a'', ''b''] \<and> distinct (getter_Keys [(''b'', ''2''), (''a'', ''1'')])"
proof -
  have "getter_Keys [(''b'', ''2''), (''a'', ''1'')] = [''a'', ''b'']" by code_simp
  then show ?thesis using getter_consistent [of "[(''b'', ''2''), (''a'', ''1'')]"] by simp
qed

text \<open>
  The build platforms are a reordering of the nine known ones, and on the two supported hosts the
  platform of the host comes first, so that BuildKit prefers native dependencies.
\<close>

theorem BuildPlatforms_host_first:
  "mset (BuildPlatforms cur) = mset known_platforms \<and>
   (pl_architecture cur \<in> {''amd64'', ''arm64''} \<longrightarrow> pl_architecture (hd (BuildPlatforms cur)) = pl_architecture cur)"
proof (intro conjI impI)
  show "mset (BuildPlatforms cur) = mset known_platforms" by (simp add: BuildPlatforms_def Let_def)
  assume "pl_architecture cur \<in> {''amd64'', ''arm64''}"
  then show "pl_architecture (hd (BuildPlatforms cur)) = pl_architecture cur"
    by (auto simp: BuildPlatforms_def known_platforms_def linux_platform_def platformRank_def Let_def)
qed

theorem BuildPlatforms_host_first_witness:
  "pl_architecture (hd (BuildPlatforms (linux_platform ''arm64'' ''v8''))) = ''arm64''"
  using BuildPlatforms_host_first [of "linux_platform ''arm64'' ''v8''"] by (simp add: linux_platform_def)

text \<open>
  The capability list announces every capability of the list as enabled, under its own identifier, each once,
  although one of them is initialised twice.
\<close>

theorem Caps_enabled_once:
  "distinct (map fst Caps_list) \<and> length Caps = Suc (length Caps_list) \<and>
   list_all (\<lambda>(i, c). cap_ID c = i \<and> cap_Enabled c) Caps_list"
  by code_simp

end
