(* ===== verification/Proxies.thy ===== *)
theory Proxies
  imports Stream_Pipeline Content_Store Fs_Sync
begin

text \<open>
  The remaining stages of a build: terminal output (\<open>pkg/stdio\<close>), image resolution (\<open>pkg/resolver\<close>)
  and image export (\<open>pkg/exporter\<close>), and the routing of packets to the stages of \<open>PerformBuild\<close>.
  Decoding a terminal command from JSON and resizing a console are arguments.
\<close>

section \<open>Standard output\<close>

record TerminalCommand =
  tc_CommandType :: string
  tc_Code :: string
  tc_Rows :: int
  tc_Cols :: int

record win_size =
  ws_Height :: "16 word"
  ws_Width :: "16 word"

record StdioProxy =
  sp_console :: "win_size option" \<comment> \<open>the console with its size; None when the proxy has none\<close>
  sp_buf :: bytes

record stdio_env =
  sd_NewPty :: "goerr + win_size"
  sd_Unmarshal :: "bytes \<Rightarrow> goerr + TerminalCommand"
  sd_Resize :: "win_size \<Rightarrow> goerr option"

definition NewStdioProxy :: "stdio_env \<Rightarrow> bool \<Rightarrow> goerr + StdioProxy" where
  "NewStdioProxy env tty =
     res_bind (if tty then res_bind (sd_NewPty env) (\<lambda>c. Inr (Some c)) else Inr None) (\<lambda>c.
       Inr \<lparr>sp_console = c, sp_buf = replicate (2 ^ 20) (CHR 0x00)\<rparr>)"

definition decodeTerminalCommand :: "stdio_env \<Rightarrow> string \<Rightarrow> goerr + TerminalCommand" where
  "decodeTerminalCommand env encoded = res_bind (RawStdEncoding_DecodeString encoded) (sd_Unmarshal env)"

definition resizeTerminal :: "stdio_env \<Rightarrow> StdioProxy \<Rightarrow> int \<Rightarrow> int \<Rightarrow> goerr option \<times> StdioProxy" where
  "resizeTerminal env r rows columns =
     (case sp_console r of
        None \<Rightarrow> (Some (StreamError ErrNotATTY), r)
      | Some _ \<Rightarrow>
          if rows \<le> 0 \<or> columns \<le> 0 then (None, r)
          else
            let sz = \<lparr>ws_Height = of_int rows, ws_Width = of_int columns\<rparr>
            in case sd_Resize env sz of
                 Some e \<Rightarrow> (Some e, r)
               | None \<Rightarrow> (None, r\<lparr>sp_console := Some sz\<rparr>))"

definition handleTerminalCommand :: "stdio_env \<Rightarrow> StdioProxy \<Rightarrow> TerminalCommand \<Rightarrow> goerr option \<times> StdioProxy" where
  "handleTerminalCommand env r command =
     (if tc_Code command = ''winch'' then resizeTerminal env r (tc_Rows command) (tc_Cols command)
      else if tc_Code command = ''ack'' then (None, r)
      else (Some (Errorf (''invalid terminal command: '' @ tc_Code command)), r))"

definition StdioProxy_Filter :: "stdio_env \<Rightarrow> StdioProxy \<Rightarrow> client_stream \<Rightarrow> goerr option \<times> StdioProxy" where
  "StdioProxy_Filter env r c =
     (case GetCommand c of
        None \<Rightarrow> (Some ignore_packet, r)
      | Some command \<Rightarrow>
          (case decodeTerminalCommand env (run_cmd command) of
             Inl _ \<Rightarrow> (Some ignore_packet, r)
           | Inr tc \<Rightarrow>
               if tc_CommandType tc \<noteq> ''terminal'' then (Some ignore_packet, r)
               else handleTerminalCommand env r tc))"

definition StdioProxy_Read :: "bytes \<Rightarrow> goerr + nat" where
  "StdioProxy_Read p = Inl ErrWriteOnlyStream"

definition slice_out_of_range :: goerr where
  "slice_out_of_range = Errorf ''slice bounds out of range''"

definition StdioProxy_Write :: "round_trip \<Rightarrow> string \<Rightarrow> StdioProxy \<Rightarrow> bytes \<Rightarrow> (goerr + nat) \<times> StdioProxy" where
  "StdioProxy_Write rt uuid r p =
     (let n = min (length (sp_buf r)) (length p);
          r' = r\<lparr>sp_buf := take n p @ drop n (sp_buf r)\<rparr>
      in if length (sp_buf r') < length p then (Inl slice_out_of_range, r')
         else
           (res_bind (rt \<lparr>ss_build_id = uuid, ss_packet = SIo \<lparr>io_type = STDERR, io_data = take (length p) (sp_buf r')\<rparr>\<rparr>) (\<lambda>_.
              Inr (length (take (length p) (sp_buf r')))), r'))"

section \<open>Image resolution\<close>

definition ResolverProxy_Filter :: "client_stream \<Rightarrow> goerr option" where
  "ResolverProxy_Filter c =
     (case GetImageTransfer c of
        Some it \<Rightarrow> if go_get (it_metadata it) ''stage'' = ''resolver'' then None else Some ignore_packet
      | None \<Rightarrow> Some ignore_packet)"

definition resolver_request :: "round_trip \<Rightarrow> string \<Rightarrow> image_transfer \<Rightarrow> goerr + image_transfer option" where
  \<comment> \<open>the answer's image transfer, nil when it carries another packet\<close>
  "resolver_request rt uuid packet =
     res_bind (rt \<lparr>ss_build_id = uuid, ss_packet = SImageTransfer (packet\<lparr>it_id := uuid\<rparr>)\<rparr>) (\<lambda>resp.
       Inr (GetImageTransfer resp))"

definition ResolveImageConfig ::
    "(platform \<Rightarrow> string) \<Rightarrow> round_trip \<Rightarrow> string \<Rightarrow> string \<Rightarrow> platform \<Rightarrow> goerr + (string \<times> string \<times> bytes)" where
  "ResolveImageConfig platforms_Format rt uuid ref pl =
     res_bind (resolver_request rt uuid
       (empty_image_transfer\<lparr>it_direction := INTO,
          it_metadata := [(''os'', ''linux''), (''stage'', ''resolver''), (''method'', ''/resolve''), (''ref'', ref),
            (''platform'', platforms_Format pl)]\<rparr>)) (\<lambda>resp.
       case resp of
         None \<Rightarrow> Inl nil_dereference
       | Some it \<Rightarrow>
           (case map_of (it_metadata it) ''error'' of
              Some err \<Rightarrow> Inl (Errorf err)
            | None \<Rightarrow> Inr (ref, it_tag it, it_data it)))"

section \<open>Image export\<close>

record ExporterProxy =
  ex_closed :: bool

definition ExporterProxy_Filter :: "client_stream \<Rightarrow> goerr option" where
  "ExporterProxy_Filter c =
     (case GetBuildTransfer c of
        Some bt \<Rightarrow> if go_get (bt_metadata bt) ''stage'' = ''exporter'' then None else Some ignore_packet
      | None \<Rightarrow> Some ignore_packet)"

definition export_packet :: "string \<Rightarrow> bytes \<Rightarrow> server_stream" where
  "export_packet uuid p =
     \<lparr>ss_build_id = uuid, ss_packet = SBuildTransfer
        (empty_build_transfer\<lparr>bt_id := uuid, bt_direction := OUTOF,
           bt_metadata := [(''os'', ''linux''), (''stage'', ''exporter''), (''method'', ''Write'')],
           bt_data := p, bt_complete := (p = [])\<rparr>)\<rparr>"

definition ExporterProxy_Write :: "round_trip \<Rightarrow> string \<Rightarrow> bytes \<Rightarrow> nat \<times> goerr option" where
  "ExporterProxy_Write rt uuid p =
     (case rt (export_packet uuid p) of Inl e \<Rightarrow> (0, Some e) | Inr _ \<Rightarrow> (length p, None))"

definition ExporterProxy_Close :: "round_trip \<Rightarrow> string \<Rightarrow> ExporterProxy \<Rightarrow> (goerr + unit) \<times> ExporterProxy" where
  \<comment> \<open>closing the channel a second time panics\<close>
  "ExporterProxy_Close rt uuid e =
     (case ExporterProxy_Write rt uuid [] of
        (_, Some err) \<Rightarrow> (Inl err, e)
      | (_, None) \<Rightarrow>
          if ex_closed e then (Inl (Errorf ''close of closed channel''), e) else (Inr (), e\<lparr>ex_closed := True\<rparr>))"

text \<open>
  \<open>NewBufferedWriteCloser\<close>: a \<open>bufio.Writer\<close> in front of a writer. \<open>wr\<close> is the underlying
  writer's \<open>Write\<close> on its state, \<open>cf\<close> its \<open>Close\<close> when it has one.
\<close>

type_synonym 's write_fn = "bytes \<Rightarrow> 's \<Rightarrow> (nat \<times> goerr option) \<times> 's"

record bufferedWriteCloser =
  bw_size :: nat
  bw_buf :: bytes
  bw_err :: "goerr option"

definition NewBufferedWriteCloser :: "int \<Rightarrow> bufferedWriteCloser" where
  "NewBufferedWriteCloser sz = \<lparr>bw_size = (if sz \<le> 0 then 2 ^ 15 else nat sz), bw_buf = [], bw_err = None\<rparr>"

definition bufio_Flush :: "'s write_fn \<Rightarrow> bufferedWriteCloser \<times> 's \<Rightarrow> goerr option \<times> bufferedWriteCloser \<times> 's" where
  "bufio_Flush wr bs =
     (case bs of (b, s) \<Rightarrow>
        (case bw_err b of
           Some e \<Rightarrow> (Some e, b, s)
         | None \<Rightarrow>
             if bw_buf b = [] then (None, b, s)
             else
               (case wr (bw_buf b) s of ((n, err), s') \<Rightarrow>
                  let err' = (if n < length (bw_buf b) \<and> err = None then Some (Errorf ''short write'') else err)
                  in case err' of
                       Some e \<Rightarrow> (Some e, b\<lparr>bw_buf := drop n (bw_buf b), bw_err := Some e\<rparr>, s')
                     | None \<Rightarrow> (None, b\<lparr>bw_buf := []\<rparr>, s'))))"

fun bufio_Write ::
    "'s write_fn \<Rightarrow> nat \<Rightarrow> bytes \<Rightarrow> nat \<Rightarrow> bufferedWriteCloser \<times> 's \<Rightarrow> ((nat \<times> goerr option) \<times> bufferedWriteCloser \<times> 's) option" where
  \<comment> \<open>the loop of \<open>bufio.Writer.Write\<close> with the count so far; None when it needs more than the fuel\<close>
  "bufio_Write wr 0 p nn bs = None"
| "bufio_Write wr (Suc k) p nn (b, s) =
     (if bw_size b - length (bw_buf b) < length p \<and> bw_err b = None then
        (if bw_buf b = [] then
           (case wr p s of ((n, err), s') \<Rightarrow> bufio_Write wr k (drop n p) (nn + n) (b\<lparr>bw_err := err\<rparr>, s'))
         else
           (let n = min (bw_size b - length (bw_buf b)) (length p)
            in bufio_Write wr k (drop n p) (nn + n) (snd (bufio_Flush wr (b\<lparr>bw_buf := bw_buf b @ take n p\<rparr>, s)))))
      else
        (case bw_err b of
           Some e \<Rightarrow> Some ((nn, Some e), (b, s))
         | None \<Rightarrow> Some ((nn + length p, None), (b\<lparr>bw_buf := bw_buf b @ p\<rparr>, s))))"

definition bufferedWriteCloser_Close ::
    "'s write_fn \<Rightarrow> ('s \<Rightarrow> goerr option \<times> 's) option \<Rightarrow> bufferedWriteCloser \<times> 's \<Rightarrow> goerr option \<times> bufferedWriteCloser \<times> 's" where
  "bufferedWriteCloser_Close wr cf bs =
     (case bufio_Flush wr bs of
        (Some e, bs') \<Rightarrow> (Some e, bs')
      | (None, (b, s)) \<Rightarrow> (case cf of None \<Rightarrow> (None, b, s) | Some close \<Rightarrow> (case close s of (r, s') \<Rightarrow> (r, b, s'))))"

section \<open>Buffered writers\<close>

text \<open>
  What \<open>bufio\<close> relies on, the contract of \<open>io.Writer\<close>: a short count comes with an error, and a write without
  error appends the bytes to what the writer has taken so far. \<open>ok\<close> is an invariant that writes of some bytes keep.
\<close>

locale writer =
  fixes wr :: "'s write_fn" and out :: "'s \<Rightarrow> bytes" and ok :: "'s \<Rightarrow> bool"
  assumes write_contract: "p \<noteq> [] \<Longrightarrow> ok s \<Longrightarrow> wr p s = ((n, err), s') \<Longrightarrow>
      n \<le> length p \<and> (n < length p \<longrightarrow> err \<noteq> None) \<and> (err = None \<longrightarrow> out s' = out s @ p \<and> ok s')"
begin

lemma Flush_ok:
  assumes "bufio_Flush wr (b, s) = (None, b', s')" "ok s"
  shows "out s' = out s @ bw_buf b \<and> bw_buf b' = [] \<and> bw_err b' = None \<and> bw_size b' = bw_size b \<and> ok s'"
proof -
  from assms(1) have e: "bw_err b = None" by (auto simp: bufio_Flush_def split: option.splits)
  show ?thesis
  proof (cases "bw_buf b = []")
    case True
    with assms e show ?thesis by (auto simp: bufio_Flush_def)
  next
    case False
    obtain n err t where w: "wr (bw_buf b) s = ((n, err), t)" by (metis surj_pair)
    with assms e False write_contract [OF False assms(2) w] show ?thesis
      by (auto simp: bufio_Flush_def Let_def split: if_splits option.splits)
  qed
qed

lemma Write_failed: "bw_err b = Some e \<Longrightarrow> bufio_Write wr (Suc k) p nn (b, s) = Some ((nn, Some e), (b, s))"
  by simp

lemma Write_ok:
  assumes "bufio_Write wr k p nn (b, s) = Some ((n, None), (b', s'))" "ok s" "length (bw_buf b) \<le> bw_size b"
  shows "out s' @ bw_buf b' = out s @ bw_buf b @ p \<and> n = nn + length p \<and> bw_err b' = None \<and> bw_size b' = bw_size b \<and>
    length (bw_buf b') \<le> bw_size b' \<and> ok s'"
  using assms
proof (induction k arbitrary: p nn b s)
  case (Suc k)
  show ?case
  proof (cases "bw_size b - length (bw_buf b) < length p \<and> bw_err b = None")
    case False
    with Suc.prems show ?thesis by (auto split: option.splits)
  next
    case True
    then have ne: "p \<noteq> []" by auto
    show ?thesis
    proof (cases "bw_buf b = []")
      case empty: True
      obtain m err t where w: "wr p s = ((m, err), t)" by (metis surj_pair)
      with Suc.prems(1) True empty
      have run: "bufio_Write wr k (drop m p) (nn + m) (b\<lparr>bw_err := err\<rparr>, t) = Some ((n, None), (b', s'))" by simp
      have "err = None"
      proof (rule ccontr)
        assume "err \<noteq> None"
        with run show False by (cases k) auto
      qed
      with write_contract [OF ne Suc.prems(2) w] have "m = length p" "out t = out s @ p" "ok t" by auto
      with Suc.IH [OF run] Suc.prems(3) empty show ?thesis by simp
    next
      case False
      let ?m = "min (bw_size b - length (bw_buf b)) (length p)"
      obtain r b1 t where f: "bufio_Flush wr (b\<lparr>bw_buf := bw_buf b @ take ?m p\<rparr>, s) = (r, b1, t)" by (metis surj_pair)
      with Suc.prems(1) True False have run: "bufio_Write wr k (drop ?m p) (nn + ?m) (b1, t) = Some ((n, None), (b', s'))"
        by (simp add: Let_def)
      have "r = None"
      proof (rule ccontr)
        assume "r \<noteq> None"
        with f have "bw_err b1 \<noteq> None" by (auto simp: bufio_Flush_def Let_def split: option.splits if_splits prod.splits)
        with run show False by (cases k) auto
      qed
      with f Flush_ok [OF _ Suc.prems(2)] have
        fl: "out t = out s @ bw_buf b @ take ?m p" "bw_buf b1 = []" "bw_size b1 = bw_size b" "ok t" by fastforce+
      have "?m + length (drop ?m p) = length p" by simp
      with Suc.IH [OF run fl(4)] fl show ?thesis by (simp add: add.assoc)
    qed
  qed
qed simp

text \<open>Three rounds are enough: filling the buffer, one direct write, and the rest.\<close>

lemma Write_direct_ends:
  assumes "bw_buf b = []" "ok s"
  shows "\<exists>r. bufio_Write wr (Suc (Suc k)) p nn (b, s) = Some r"
proof (cases "bw_size b < length p \<and> bw_err b = None")
  case True
  then have ne: "p \<noteq> []" by auto
  obtain m err t where w: "wr p s = ((m, err), t)" by (metis surj_pair)
  from write_contract [OF ne assms(2) w] have "err \<noteq> None \<or> drop m p = []" by auto
  with w True assms(1) show ?thesis by (cases err) auto
next
  case False
  with assms(1) show ?thesis by (auto split: option.splits)
qed

lemma Write_ends:
  assumes "ok s"
  shows "\<exists>r. bufio_Write wr 3 p nn (b, s) = Some r"
proof (cases "bw_size b - length (bw_buf b) < length p \<and> bw_err b = None \<and> bw_buf b \<noteq> []")
  case True
  let ?m = "min (bw_size b - length (bw_buf b)) (length p)"
  obtain r b1 t where f: "bufio_Flush wr (b\<lparr>bw_buf := bw_buf b @ take ?m p\<rparr>, s) = (r, b1, t)" by (metis surj_pair)
  have step: "bufio_Write wr 3 p nn (b, s) = bufio_Write wr (Suc (Suc 0)) (drop ?m p) (nn + ?m) (b1, t)"
    using True f by (simp add: eval_nat_numeral Let_def)
  show ?thesis
  proof (cases r)
    case None
    with f Flush_ok [OF _ assms] have "bw_buf b1 = []" "ok t" by fastforce+
    with Write_direct_ends step show ?thesis by metis
  next
    case (Some e)
    with f have "bw_err b1 = Some e" using True by (auto simp: bufio_Flush_def Let_def split: if_splits option.splits prod.splits)
    with step Write_failed show ?thesis by metis
  qed
next
  case False
  then consider "bw_buf b = []" | "\<not> (bw_size b - length (bw_buf b) < length p \<and> bw_err b = None)" by blast
  then show ?thesis
  proof cases
    case 1
    from Write_direct_ends [OF this assms, of "Suc 0"] show ?thesis by (simp only: eval_nat_numeral) simp
  next
    case 2
    then show ?thesis by (auto simp: eval_nat_numeral split: option.splits)
  qed
qed

end

section \<open>An export through the buffer\<close>

record export_state =
  es_sent :: "server_stream list"
  es_proxy :: ExporterProxy

definition exporter_write :: "round_trip \<Rightarrow> (nat \<Rightarrow> string) \<Rightarrow> export_state write_fn" where
  "exporter_write rt uuids p s =
     (let u = uuids (length (es_sent s))
      in (ExporterProxy_Write rt u p, s\<lparr>es_sent := es_sent s @ [export_packet u p]\<rparr>))"

definition exporter_close :: "round_trip \<Rightarrow> (nat \<Rightarrow> string) \<Rightarrow> export_state \<Rightarrow> goerr option \<times> export_state" where
  "exporter_close rt uuids s =
     (let u = uuids (length (es_sent s))
      in case ExporterProxy_Close rt u (es_proxy s) of
           (r, e) \<Rightarrow> (case r of Inl err \<Rightarrow> Some err | Inr _ \<Rightarrow> None,
                      \<lparr>es_sent = es_sent s @ [export_packet u []], es_proxy = e\<rparr>))"

definition packet_data :: "server_stream \<Rightarrow> bytes" where
  "packet_data ss = (case ss_packet ss of SBuildTransfer bt \<Rightarrow> bt_data bt | _ \<Rightarrow> [])"

definition packet_complete :: "server_stream \<Rightarrow> bool" where
  "packet_complete ss = (case ss_packet ss of SBuildTransfer bt \<Rightarrow> bt_complete bt | _ \<Rightarrow> False)"

definition exported :: "export_state \<Rightarrow> bytes" where
  "exported s = concat (map packet_data (es_sent s))"

definition export_open :: "export_state \<Rightarrow> bool" where
  \<comment> \<open>only packets with data so far\<close>
  "export_open s = list_all (\<lambda>pk. packet_data pk \<noteq> [] \<and> \<not> packet_complete pk) (es_sent s)"

lemma export_packet_simps [simp]:
  "packet_data (export_packet u p) = p" "packet_complete (export_packet u p) \<longleftrightarrow> p = []"
  by (simp_all add: export_packet_def packet_data_def packet_complete_def)

interpretation export: writer "exporter_write rt uuids" exported export_open for rt uuids
proof
  fix p s n err s'
  assume "p \<noteq> []" "export_open s" "exporter_write rt uuids p s = ((n, err), s')"
  then show "n \<le> length p \<and> (n < length p \<longrightarrow> err \<noteq> None) \<and> (err = None \<longrightarrow> exported s' = exported s @ p \<and> export_open s')"
    by (auto simp: exporter_write_def ExporterProxy_Write_def exported_def export_open_def Let_def split: sum.splits)
qed

fun write_each :: "'s write_fn \<Rightarrow> bytes list \<Rightarrow> bufferedWriteCloser \<times> 's \<Rightarrow> (goerr option \<times> bufferedWriteCloser \<times> 's) option" where
  \<comment> \<open>a caller that writes the pieces and stops at the first error\<close>
  "write_each wr [] bs = Some (None, bs)"
| "write_each wr (p # ps) bs =
     (case bufio_Write wr 3 p 0 bs of
        None \<Rightarrow> None
      | Some ((n, Some e), bs') \<Rightarrow> Some (Some e, bs')
      | Some ((n, None), bs') \<Rightarrow> write_each wr ps bs')"

definition export_session :: "round_trip \<Rightarrow> (nat \<Rightarrow> string) \<Rightarrow> int \<Rightarrow> bytes list \<Rightarrow> (goerr option \<times> server_stream list) option" where
  \<comment> \<open>the pieces written through \<open>NewBufferedWriteCloser(exporter, sz)\<close>, and its \<open>Close\<close>\<close>
  "export_session rt uuids sz ps =
     (case write_each (exporter_write rt uuids) ps (NewBufferedWriteCloser sz, \<lparr>es_sent = [], es_proxy = \<lparr>ex_closed = False\<rparr>\<rparr>) of
        None \<Rightarrow> None
      | Some (Some e, (b, s)) \<Rightarrow> Some (Some e, es_sent s)
      | Some (None, bs) \<Rightarrow>
          (case bufferedWriteCloser_Close (exporter_write rt uuids) (Some (exporter_close rt uuids)) bs of
             (r, (b, s)) \<Rightarrow> Some (r, es_sent s)))"

lemma write_each_ok:
  assumes "export_open s" "bw_err b = None" "length (bw_buf b) \<le> bw_size b"
  shows "\<exists>r b' s'. write_each (exporter_write rt uuids) ps (b, s) = Some (r, (b', s')) \<and>
    (r = None \<longrightarrow> exported s' @ bw_buf b' = exported s @ bw_buf b @ concat ps \<and> export_open s' \<and> bw_err b' = None)"
  using assms
proof (induction ps arbitrary: b s)
  case (Cons p ps)
  obtain n e b1 s1 where w: "bufio_Write (exporter_write rt uuids) 3 p 0 (b, s) = Some ((n, e), (b1, s1))"
    using export.Write_ends [OF Cons.prems(1)] by (metis surj_pair)
  show ?case
  proof (cases e)
    case None
    from export.Write_ok [OF w [unfolded None] Cons.prems(1,3)] have
      "exported s1 @ bw_buf b1 = exported s @ bw_buf b @ p" "export_open s1" "bw_err b1 = None" "length (bw_buf b1) \<le> bw_size b1" by auto
    with Cons.IH [of s1 b1] w None show ?thesis by auto
  next
    case (Some e')
    with w show ?thesis by simp
  qed
qed simp


fun acking_host :: round_trip where
  "acking_host ss = Inr \<lparr>cs_build_id = ss_build_id ss, cs_packet = CNone\<rparr>"

fun packet_uuids :: "nat \<Rightarrow> string" where "packet_uuids n = ''u''"


text \<open>Closing the exporter twice panics after it has announced completion again.\<close>

lemma ExporterProxy_Close_twice:
  "ExporterProxy_Close rt u e = (Inr (), e') \<Longrightarrow> fst (ExporterProxy_Close rt v e') \<noteq> Inr ()"
  by (auto simp: ExporterProxy_Close_def split: prod.splits option.splits if_splits)

section \<open>Terminal output\<close>

text \<open>
  A write to the terminal of at most the buffer's size, which is a mebibyte for a new proxy, sends exactly the written bytes, whatever
  was written before, and reports their number; a longer one panics and sends nothing. The buffer keeps its size, so this holds for
  every write of a build.
\<close>

theorem StdioProxy_Write_exact:
  assumes "StdioProxy_Write rt uuid r p = (res, r')"
  shows "length (sp_buf r') = length (sp_buf r) \<and>
    (length p \<le> length (sp_buf r) \<longrightarrow>
       res = res_bind (rt \<lparr>ss_build_id = uuid, ss_packet = SIo \<lparr>io_type = STDERR, io_data = p\<rparr>\<rparr>) (\<lambda>_. Inr (length p))) \<and>
    (length (sp_buf r) < length p \<longrightarrow> res = Inl slice_out_of_range)"
  using assms by (auto simp: StdioProxy_Write_def Let_def split: if_splits)

theorem StdioProxy_Write_exact_witness:
  "fst (StdioProxy_Write acking_host ''u'' \<lparr>sp_console = None, sp_buf = ''zzzz''\<rparr> ''abc'') = Inr 3 \<and>
   fst (StdioProxy_Write acking_host ''u'' \<lparr>sp_console = None, sp_buf = ''zzzz''\<rparr> ''abcde'') = Inl slice_out_of_range"
proof -
  let ?r = "\<lparr>sp_console = None, sp_buf = ''zzzz''\<rparr>"
  show ?thesis
    using StdioProxy_Write_exact [OF prod.collapse [symmetric], of acking_host "''u''" ?r "''abc''"]
      StdioProxy_Write_exact [OF prod.collapse [symmetric], of acking_host "''u''" ?r "''abcde''"]
    by simp
qed

text \<open>A new proxy has a buffer of a mebibyte.\<close>

lemma NewStdioProxy_buf: "NewStdioProxy env tty = Inr r \<Longrightarrow> length (sp_buf r) = 2 ^ 20"
  by (auto simp: NewStdioProxy_def result_simps)

text \<open>Sizes are cut to 16 bits: 65536 rows make a console of height 0.\<close>

lemma resizeTerminal_truncates:
  "sp_console r = Some w \<Longrightarrow> sd_Resize env \<lparr>ws_Height = 0, ws_Width = 80\<rparr> = None \<Longrightarrow>
     resizeTerminal env r 65536 80 = (None, r\<lparr>sp_console := Some \<lparr>ws_Height = 0, ws_Width = 80\<rparr>\<rparr>)"
proof -
  have cut: "of_int 65536 = (0 :: 16 word)" "of_int 80 = (80 :: 16 word)" by code_simp+
  show "sp_console r = Some w \<Longrightarrow> sd_Resize env \<lparr>ws_Height = 0, ws_Width = 80\<rparr> = None \<Longrightarrow>
      resizeTerminal env r 65536 80 = (None, r\<lparr>sp_console := Some \<lparr>ws_Height = 0, ws_Width = 80\<rparr>\<rparr>)"
    unfolding resizeTerminal_def Let_def cut by simp
qed

lemma resizeTerminal_exact:
  assumes "sp_console r = Some w" "0 < rows" "rows < 65536" "0 < cols" "cols < 65536" "resizeTerminal env r rows cols = (None, r')"
  shows "\<exists>sz. sp_console r' = Some sz \<and> uint (ws_Height sz) = rows \<and> uint (ws_Width sz) = cols"
  using assms by (auto simp: resizeTerminal_def Let_def uint_word_of_int split: option.splits)

section \<open>Routing\<close>

text \<open>
  The contract between the pipeline and a stage: the stage claims some packets, says \<open>ErrIgnorePacket\<close> to all others,
  and passes only packets it claims.
\<close>

locale stage_filter =
  fixes flt :: filter_fn and claims :: "client_stream \<Rightarrow> bool"
  assumes ignores: "\<not> claims c \<Longrightarrow> flt c = Some ignore_packet"
begin

lemma passes_claimed: "flt c = None \<Longrightarrow> claims c"
  using ignores by (cases "claims c") auto

end

text \<open>Stages whose claims are disjoint: the order of the stages does not matter to dispatch.\<close>

locale stage_list =
  fixes fs :: "filter_fn list" and claims :: "nat \<Rightarrow> client_stream \<Rightarrow> bool"
  assumes stages: "i < length fs \<Longrightarrow> stage_filter (fs ! i) (claims i)"
    and disjoint: "i < length fs \<Longrightarrow> j < length fs \<Longrightarrow> claims i c \<Longrightarrow> claims j c \<Longrightarrow> i = j"
begin

lemma routes_to_passing: "routes_to fs i c \<longleftrightarrow> i < length fs \<and> (fs ! i) c = None"
proof -
  have "(fs ! j) c \<noteq> None" if "i < length fs" "(fs ! i) c = None" "j < i" for j
    using that stages [of i] stages [of j] disjoint [of i j c] stage_filter.passes_claimed by (metis less_trans nat_neq_iff)
  then show ?thesis unfolding routes_to_iff by blast
qed

lemma others_ignore: "i < length fs \<Longrightarrow> claims i c \<Longrightarrow> j < length fs \<Longrightarrow> j \<noteq> i \<Longrightarrow> (fs ! j) c = Some ignore_packet"
  using stages [of j] disjoint [of i j c] stage_filter.ignores by metis

end

definition image_stage :: "string \<Rightarrow> client_stream \<Rightarrow> bool" where
  "image_stage name c = (case GetImageTransfer c of None \<Rightarrow> False | Some it \<Rightarrow> go_get (it_metadata it) ''stage'' = name)"

definition build_stage :: "string \<Rightarrow> client_stream \<Rightarrow> bool" where
  "build_stage name c = (case GetBuildTransfer c of None \<Rightarrow> False | Some bt \<Rightarrow> go_get (bt_metadata bt) ''stage'' = name)"

definition terminal_command :: "stdio_env \<Rightarrow> client_stream \<Rightarrow> bool" where
  "terminal_command env c =
     (case GetCommand c of
        None \<Rightarrow> False
      | Some r \<Rightarrow> (case decodeTerminalCommand env (run_cmd r) of Inl _ \<Rightarrow> False | Inr tc \<Rightarrow> tc_CommandType tc = ''terminal''))"

abbreviation stdio_filter :: "stdio_env \<Rightarrow> StdioProxy \<Rightarrow> filter_fn" where
  "stdio_filter env r \<equiv> (\<lambda>c. fst (StdioProxy_Filter env r c))"

interpretation content_stage: stage_filter ContentStoreProxy_Filter "image_stage ''content-store''"
  by unfold_locales (auto simp: ContentStoreProxy_Filter_def image_stage_def split: option.splits)

interpretation fssync_stage: stage_filter FSSyncProxy_Filter "build_stage ''fssync''"
  by unfold_locales (auto simp: FSSyncProxy_Filter_def build_stage_def split: option.splits)

interpretation resolver_stage: stage_filter ResolverProxy_Filter "image_stage ''resolver''"
  by unfold_locales (auto simp: ResolverProxy_Filter_def image_stage_def split: option.splits)

interpretation exporter_stage: stage_filter ExporterProxy_Filter "build_stage ''exporter''"
  by unfold_locales (auto simp: ExporterProxy_Filter_def build_stage_def split: option.splits)

interpretation stdio_stage: stage_filter "stdio_filter env r" "terminal_command env" for env r
  by unfold_locales (auto simp: StdioProxy_Filter_def terminal_command_def split: option.splits sum.splits)

text \<open>The stages of \<open>PerformBuild\<close>, in their order.\<close>

definition build_filters :: "stdio_env \<Rightarrow> StdioProxy \<Rightarrow> filter_fn list" where
  "build_filters env r = [ContentStoreProxy_Filter, FSSyncProxy_Filter, ResolverProxy_Filter, stdio_filter env r]"

fun build_claims :: "stdio_env \<Rightarrow> nat \<Rightarrow> client_stream \<Rightarrow> bool" where
  "build_claims env i c =
     (if i = 0 then image_stage ''content-store'' c else if i = 1 then build_stage ''fssync'' c
      else if i = 2 then image_stage ''resolver'' c else i = 3 \<and> terminal_command env c)"

declare build_claims.simps [simp del]

lemma build_claims_disjoint: "build_claims env i c \<Longrightarrow> build_claims env j c \<Longrightarrow> i = j"
  by (auto simp: build_claims.simps image_stage_def build_stage_def terminal_command_def getter_defs
      split: option.splits client_packet.splits if_splits)

interpretation build_stages: stage_list "build_filters env r" "build_claims env" for env r
proof (rule stage_list.intro)
  fix i
  assume "i < length (build_filters env r)"
  then have "i = 0 \<or> i = 1 \<or> i = 2 \<or> i = 3" by (auto simp: build_filters_def)
  then show "stage_filter (build_filters env r ! i) (build_claims env i)"
    using content_stage.stage_filter_axioms fssync_stage.stage_filter_axioms resolver_stage.stage_filter_axioms
      stdio_stage.stage_filter_axioms by (auto simp: build_filters_def build_claims.simps [abs_def])
next
  fix i j c
  assume "build_claims env i c" "build_claims env j c"
  then show "i = j" by (rule build_claims_disjoint)
qed

text \<open>
  C25. A packet goes to the one stage of a build that it is meant for, independently of the order of the stages: the pipeline routes it to
  a stage exactly when that stage's filter passes it, it reaches no stage exactly when all refuse it, and every stage but the one that
  claims it ignores it without a warning, so no filter hides packets from another.
\<close>

theorem build_routing_exclusive:
  "(routes_to (build_filters env r) i c \<longleftrightarrow> i < 4 \<and> (build_filters env r ! i) c = None) \<and>
   (fst (dispatch (build_filters env r) c) = None \<longleftrightarrow> list_all (\<lambda>f. f c \<noteq> None) (build_filters env r)) \<and>
   (i < 4 \<and> j < 4 \<and> i \<noteq> j \<and> build_claims env i c \<longrightarrow> (build_filters env r ! j) c = Some ignore_packet)"
proof -
  have len: "length (build_filters env r) = 4" by (simp add: build_filters_def)
  show ?thesis
    using build_stages.routes_to_passing [of env r i c] build_stages.others_ignore [of i env r c j]
    by (auto simp: len dispatch_def dispatch_loop_None list_all_iff)
qed

fun json_none :: "bytes \<Rightarrow> goerr + TerminalCommand" where "json_none p = Inl SyntaxError"
fun resize_ok :: "win_size \<Rightarrow> goerr option" where "resize_ok w = None"

definition plain_stdio_env :: stdio_env where
  "plain_stdio_env = \<lparr>sd_NewPty = Inl NotExist, sd_Unmarshal = json_none, sd_Resize = resize_ok\<rparr>"

definition resolver_answer :: client_stream where
  "resolver_answer = \<lparr>cs_build_id = ''u'', cs_packet = CImageTransfer (empty_image_transfer\<lparr>it_metadata := [(''stage'', ''resolver'')]\<rparr>)\<rparr>"

theorem build_routing_exclusive_witness:
  "routes_to (build_filters plain_stdio_env \<lparr>sp_console = None, sp_buf = []\<rparr>) 2 resolver_answer \<and>
   ContentStoreProxy_Filter resolver_answer = Some ignore_packet"
proof -
  let ?r = "\<lparr>sp_console = None, sp_buf = []\<rparr>"
  have "build_claims plain_stdio_env 2 resolver_answer" by code_simp
  moreover have "ResolverProxy_Filter resolver_answer = None" by code_simp
  ultimately show ?thesis
    using build_routing_exclusive [of plain_stdio_env ?r 2 resolver_answer 0] by (simp add: build_filters_def)
qed

end
