(* ===== verification/Build_Opts.thy ===== *)
theory Build_Opts
  imports Build_Utils Proxies
begin

text \<open>
  The options of a build (\<open>pkg/build/buildopts.go\<close>): the metadata that the host sends with a build
  request is parsed and validated into a \<open>parsedBuildRequest\<close>, the services of the build are created from it, and
  both become the \<open>BOpts\<close> that the build and its frontend read.

  What other packages provide is a record of functions: platform strings, attestations, entitlements,
  the Dockerfile parser with its instructions and its shell lexer, the progress printer.
\<close>

abbreviation KeyContentStoreName :: string where "KeyContentStoreName \<equiv> ''container''"
abbreviation KeyDockerfile :: string where "KeyDockerfile \<equiv> ''dockerfile''"
abbreviation KeyDockerignore :: string where "KeyDockerignore \<equiv> ''dockerignore''"
abbreviation KeyTag :: string where "KeyTag \<equiv> ''tag''"
abbreviation KeyPlatforms :: string where "KeyPlatforms \<equiv> ''platforms''"
abbreviation KeyProgress :: string where "KeyProgress \<equiv> ''progress''"
abbreviation KeyNoCache :: string where "KeyNoCache \<equiv> ''no-cache''"
abbreviation KeyContext :: string where "KeyContext \<equiv> ''context''"
abbreviation KeyTarget :: string where "KeyTarget \<equiv> ''target''"
abbreviation KeyLabels :: string where "KeyLabels \<equiv> ''labels''"
abbreviation KeyBuildArgs :: string where "KeyBuildArgs \<equiv> ''build-args''"
abbreviation KeyBuildContexts :: string where "KeyBuildContexts \<equiv> ''build-contexts''"
abbreviation KeySecrets :: string where "KeySecrets \<equiv> ''secrets''"
abbreviation KeySSH :: string where "KeySSH \<equiv> ''ssh''"
abbreviation KeyEntitlements :: string where "KeyEntitlements \<equiv> ''entitlements''"
abbreviation KeyAddHosts :: string where "KeyAddHosts \<equiv> ''add-hosts''"
abbreviation KeyNetwork :: string where "KeyNetwork \<equiv> ''network''"
abbreviation KeyPrivileged :: string where "KeyPrivileged \<equiv> ''privileged''"
abbreviation KeyShmSize :: string where "KeyShmSize \<equiv> ''shm-size''"
abbreviation KeyUlimit :: string where "KeyUlimit \<equiv> ''ulimit''"
abbreviation KeyCacheIn :: string where "KeyCacheIn \<equiv> ''cache-in''"
abbreviation KeyCacheOut :: string where "KeyCacheOut \<equiv> ''cache-out''"
abbreviation KeyOutput :: string where "KeyOutput \<equiv> ''outputs''"
abbreviation KeyCheck :: string where "KeyCheck \<equiv> ''check''"
abbreviation KeyBuildID :: string where "KeyBuildID \<equiv> ''build-id''"
abbreviation KeyAttestProvenance :: string where "KeyAttestProvenance \<equiv> ''attest-provenance''"
abbreviation KeyAttestSBOM :: string where "KeyAttestSBOM \<equiv> ''attest-sbom''"
abbreviation KeyFrontendAttestProvenance :: string where "KeyFrontendAttestProvenance \<equiv> ''attest:provenance''"
abbreviation KeyFrontendAttestSBOM :: string where "KeyFrontendAttestSBOM \<equiv> ''attest:sbom''"
abbreviation GlobalExportPath :: string where "GlobalExportPath \<equiv> ''/var/lib/container-builder-shim/exports''"

section \<open>What other packages provide\<close>

record mount =
  mt_is_bind :: bool
  mt_Source :: string
  mt_From :: string

text \<open>A node of the Dockerfile's syntax tree: its keyword, the value of the next node, and its source text.\<close>

record dockerfile_node =
  nd_Value :: string
  nd_Next :: "string option"
  nd_Original :: string

datatype command =
    RunCommand string
  | CopyCommand string \<comment> \<open>the \<open>From\<close> of a COPY\<close>
  | OtherCommand

record stage =
  sg_Name :: string
  sg_BaseName :: string
  sg_Platform :: string
  sg_Commands :: "command list"

text \<open>An ARG instruction: its keys with the strings of their default values.\<close>

type_synonym arg_command = "(string \<times> string) list"

record dockerfile =
  df_Children :: "dockerfile_node list"
  df_EscapeToken :: char

record build_ext =
  be_parser_Parse :: "bytes \<Rightarrow> goerr + dockerfile"
  be_instructions_Parse :: "dockerfile \<Rightarrow> goerr + (stage list \<times> arg_command list)"
  be_ParseInstruction :: "dockerfile_node \<Rightarrow> goerr + command"
  be_ExpandMounts :: "(string \<Rightarrow> goerr + string) \<Rightarrow> string \<Rightarrow> goerr + mount list"
  be_ProcessWord :: "char \<Rightarrow> string \<Rightarrow> smap \<Rightarrow> goerr + string"
  be_platforms_Parse :: "string \<Rightarrow> goerr + platform"
  be_DefaultSpec :: platform
  be_attestations_Parse :: "smap \<Rightarrow> goerr + unit"
  be_entitlements_Parse :: "string \<Rightarrow> goerr + unit"
  be_EntitlementNetworkHost :: string
  be_EntitlementSecurityInsecure :: string
  be_NewPrinter :: "string \<Rightarrow> goerr + unit"
  be_stdio :: stdio_env

section \<open>Values of the metadata\<close>

definition firstMetadataValue :: "metadata \<Rightarrow> string \<Rightarrow> string option" where
  "firstMetadataValue md key = (case map_of md key of Some (v # _) \<Rightarrow> Some v | _ \<Rightarrow> None)"

definition lastMetadataValue :: "string list \<Rightarrow> string" where
  "lastMetadataValue values = (if values = [] then [] else last values)"

definition hasMetadataFlag :: "metadata \<Rightarrow> string \<Rightarrow> bool" where
  "hasMetadataFlag md key = go_has md key"

section \<open>SSH agents\<close>

record agent_config =
  ag_ID :: string
  ag_Paths :: "string list"

abbreviation socketDirectory :: string where "socketDirectory \<equiv> ''/var/host-services/''"

definition isForwardedSSHSocketPath :: "string \<Rightarrow> bool" where
  "isForwardedSSHSocketPath path =
     (if \<not> HasPrefix path socketDirectory then False
      else
        let name = TrimPrefix path socketDirectory
        in if name = [] \<or> Contains name [slash] then False
           else HasPrefix name ''ssh-auth'' \<and> HasSuffix name ''.sock'')"

definition parse_agent :: "string list \<Rightarrow> string \<Rightarrow> goerr + agent_config" where
  \<comment> \<open>one turn of the loop, with the identifiers seen so far\<close>
  "parse_agent seenIDs raw =
     (let value = TrimSpace raw
      in if value = ''default'' then
           (if ''default'' \<in> set seenIDs then Inl (BuildError ErrUnsupportedSSH) else Inr \<lparr>ag_ID = ''default'', ag_Paths = []\<rparr>)
         else
           (case Cut value ''='' of (i, p, hasPath) \<Rightarrow>
              let ident = TrimSpace i; path = TrimSpace p
              in if \<not> hasPath \<or> ident = [] \<or> \<not> isForwardedSSHSocketPath path then Inl (BuildError ErrUnsupportedSSH)
                 else if ident \<in> set seenIDs then Inl (BuildError ErrUnsupportedSSH)
                 else Inr \<lparr>ag_ID = ident, ag_Paths = [path]\<rparr>))"

fun agents_loop :: "string list \<Rightarrow> string list \<Rightarrow> goerr + agent_config list" where
  "agents_loop seenIDs [] = Inr []"
| "agents_loop seenIDs (v # vs) =
     res_bind (parse_agent seenIDs v) (\<lambda>c.
     res_bind (agents_loop (ag_ID c # seenIDs) vs) (\<lambda>cs. Inr (c # cs)))"

definition extractSSHAgentConfigs :: "string list \<Rightarrow> goerr + agent_config list" where
  "extractSSHAgentConfigs values = (if values = [] then Inr [] else agents_loop [] values)"

section \<open>Attestations, contexts, network and entitlements\<close>

definition attest_value :: "metadata \<Rightarrow> string \<times> string \<Rightarrow> smap" where
  "attest_value md kf =
     (case map_of md (fst kf) of None \<Rightarrow> [] | Some raw \<Rightarrow> if raw = [] then [] else [(snd kf, last raw)])"

definition extractAttestations :: "build_ext \<Rightarrow> metadata \<Rightarrow> goerr + smap" where
  "extractAttestations env md =
     (let values = concat (map (attest_value md)
            [(KeyAttestProvenance, KeyFrontendAttestProvenance), (KeyAttestSBOM, KeyFrontendAttestSBOM)])
      in if values = [] then Inr []
         else res_bind (be_attestations_Parse env values) (\<lambda>_. Inr values))"

fun contexts_loop :: "smap \<Rightarrow> string list \<Rightarrow> goerr + smap" where
  "contexts_loop contexts [] = Inr contexts"
| "contexts_loop contexts (value # vs) =
     (case Cut value ''='' of (n, s, ok) \<Rightarrow>
        let name = TrimSpace n; source = TrimSpace s
        in if \<not> ok \<or> name = [] \<or> source = [] then Inl (BuildError ErrInvalidBuildContext)
           else contexts_loop (AList.update name source contexts) vs)"

definition extractBuildContexts :: "string list \<Rightarrow> goerr + smap" where
  "extractBuildContexts values = (if values = [] then Inr [] else contexts_loop [] values)"

definition normalizedNetworkMode :: "string \<Rightarrow> goerr + string" where
  "normalizedNetworkMode value =
     (let mode = ToLower (TrimSpace value)
      in if mode = [] \<or> mode = ''default'' then Inr []
         else if mode = ''none'' \<or> mode = ''host'' \<or> mode = ''sandbox'' then Inr mode
         else Inl (BuildError ErrInvalidNetworkMode))"

fun entitlements_loop :: "build_ext \<Rightarrow> string list \<Rightarrow> string list \<Rightarrow> goerr + string list" where
  "entitlements_loop env seen [] = Inr []"
| "entitlements_loop env seen (raw # vs) =
     (let value = TrimSpace raw
      in if value = [] then entitlements_loop env seen vs
         else res_bind (be_entitlements_Parse env value) (\<lambda>_.
           if value \<in> set seen then entitlements_loop env seen vs
           else res_bind (entitlements_loop env (value # seen) vs) (\<lambda>r. Inr (value # r))))"

definition entitlement_values :: "build_ext \<Rightarrow> string list \<Rightarrow> string \<Rightarrow> bool \<Rightarrow> string list" where
  "entitlement_values env values network privileged =
     values @ (if network = ''host'' then [be_EntitlementNetworkHost env] else [])
     @ (if privileged then [be_EntitlementSecurityInsecure env] else [])"

definition extractEntitlements :: "build_ext \<Rightarrow> string list \<Rightarrow> string \<Rightarrow> bool \<Rightarrow> goerr + string list" where
  "extractEntitlements env values network privileged = entitlements_loop env [] (entitlement_values env values network privileged)"

section \<open>Maps of strings and of bytes\<close>

fun string_map_loop :: "smap \<Rightarrow> string list \<Rightarrow> smap" where
  "string_map_loop result [] = result"
| "string_map_loop result (value # vs) =
     (case Cut value ''='' of (key, mapped, found) \<Rightarrow>
        string_map_loop (AList.update key (if found then mapped else []) result) vs)"

definition extractStringMap :: "string list \<Rightarrow> smap" where
  "extractStringMap values = string_map_loop [] values"

fun base64_map_loop :: "(string \<times> bytes) list \<Rightarrow> string list \<Rightarrow> goerr + (string \<times> bytes) list" where
  "base64_map_loop result [] = Inr result"
| "base64_map_loop result (value # vs) =
     (case Cut value ''='' of (key, encoded, found) \<Rightarrow>
        if \<not> found then base64_map_loop (AList.update key [] result) vs
        else res_bind (StdEncoding_DecodeString encoded) (\<lambda>decoded.
          base64_map_loop (AList.update key decoded result) vs))"

definition extractBase64Map :: "string list \<Rightarrow> goerr + (string \<times> bytes) list" where
  "extractBase64Map values = base64_map_loop [] values"

section \<open>Dockerfile, progress and platforms\<close>

definition decodeDockerfileInputs :: "metadata \<Rightarrow> goerr + (bytes \<times> bytes)" where
  "decodeDockerfileInputs md =
     (case firstMetadataValue md KeyDockerfile of
        None \<Rightarrow> Inl (BuildError ErrMissingContextDockerfile)
      | Some encodedDockerfile \<Rightarrow>
          res_bind (StdEncoding_DecodeString encodedDockerfile) (\<lambda>dockerfile.
          (case firstMetadataValue md KeyDockerignore of
             None \<Rightarrow> Inr (dockerfile, DockerfileStaging)
           | Some encodedIgnore \<Rightarrow>
               res_bind (StdEncoding_DecodeString encodedIgnore) (\<lambda>dockerignore.
                 Inr (dockerfile, dockerignore @ CHR 0x0A # DockerfileStaging)))))"

definition parseProgress :: "metadata \<Rightarrow> goerr + string" where
  "parseProgress md =
     (case firstMetadataValue md KeyProgress of
        None \<Rightarrow> Inr ''auto''
      | Some prog \<Rightarrow>
          if prog \<in> set [''auto'', ''tty'', ''plain''] then Inr prog else Inl (BuildError ErrInvalidProgress))"

definition parseTargetPlatforms :: "build_ext \<Rightarrow> string list \<Rightarrow> goerr + platform list" where
  "parseTargetPlatforms env values =
     (if values = [] then Inr [be_DefaultSpec env] else traverse (be_platforms_Parse env) values)"

section \<open>Dockerfile arguments and globs\<close>

fun meta_arg_loop :: "build_ext \<Rightarrow> arg_command \<Rightarrow> smap \<Rightarrow> goerr + smap" where
  "meta_arg_loop env [] buildArgs = Inr buildArgs"
| "meta_arg_loop env ((key, value) # args) buildArgs =
     (if go_has buildArgs key then meta_arg_loop env args buildArgs
      else res_bind (be_ProcessWord env (CHR 0x5C) value buildArgs) (\<lambda>resolved.
        meta_arg_loop env args (AList.update key resolved buildArgs)))"

fun applyDockerfileMetaArgs :: "build_ext \<Rightarrow> arg_command list \<Rightarrow> smap \<Rightarrow> goerr + smap" where
  "applyDockerfileMetaArgs env [] buildArgs = Inr buildArgs"
| "applyDockerfileMetaArgs env (metaArg # rest) buildArgs =
     res_bind (meta_arg_loop env metaArg buildArgs) (applyDockerfileMetaArgs env rest)"

definition mount_word :: "string \<Rightarrow> goerr + string" where
  "mount_word word = Inr (Clean (TrimPrefix word [slash]))"

definition runMountGlobs :: "build_ext \<Rightarrow> dockerfile_node \<Rightarrow> goerr + string list" where
  "runMountGlobs env node =
     (case be_ParseInstruction env node of
        Inr (RunCommand c) \<Rightarrow>
          res_bind (be_ExpandMounts env mount_word c) (\<lambda>mounts.
            Inr (map mt_Source (filter (\<lambda>m. mt_is_bind m \<and> mt_Source m \<noteq> [] \<and> mt_From m = []) mounts)))
      | _ \<Rightarrow> Inr [])"

definition node_globs :: "build_ext \<Rightarrow> dockerfile_node \<Rightarrow> goerr + string list" where
  \<comment> \<open>what one turn of the loop adds\<close>
  "node_globs env node =
     res_bind (if EqualFold (nd_Value node) ''COPY'' \<or> EqualFold (nd_Value node) ''ADD''
               then (case nd_Next node of None \<Rightarrow> Inl nil_dereference | Some v \<Rightarrow> Inr [v]) else Inr []) (\<lambda>copied.
     res_bind (if EqualFold (nd_Value node) ''RUN'' then runMountGlobs env node else Inr []) (\<lambda>mounted.
       Inr (copied @ mounted)))"

definition dockerfileAddedGlobs :: "build_ext \<Rightarrow> dockerfile \<Rightarrow> goerr + string list" where
  "dockerfileAddedGlobs env df = res_bind (traverse (node_globs env) (df_Children df)) (\<lambda>gs. Inr (concat gs))"

section \<open>The request\<close>

record parsedBuildFeatures =
  pf_noCache :: "string option"
  pf_labels :: smap
  pf_buildArgs :: smap
  pf_buildContexts :: smap
  pf_secrets :: "(string \<times> bytes) list"
  pf_ssh :: "agent_config list"
  pf_entitlements :: "string list"
  pf_attestations :: smap
  pf_network :: string

definition parseBuildFeatures :: "build_ext \<Rightarrow> metadata \<Rightarrow> goerr + parsedBuildFeatures" where
  "parseBuildFeatures env md =
     res_bind (extractBuildContexts (md_values md KeyBuildContexts)) (\<lambda>buildContexts.
     res_bind (extractBase64Map (md_values md KeySecrets)) (\<lambda>secrets.
     res_bind (extractSSHAgentConfigs (md_values md KeySSH)) (\<lambda>ssh.
     res_bind (normalizedNetworkMode (lastMetadataValue (md_values md KeyNetwork))) (\<lambda>network.
     res_bind (extractEntitlements env (md_values md KeyEntitlements) network (hasMetadataFlag md KeyPrivileged)) (\<lambda>entitlements.
     res_bind (extractAttestations env md) (\<lambda>attestations.
       Inr \<lparr>pf_noCache = map_option lastMetadataValue (map_of md KeyNoCache),
            pf_labels = extractStringMap (md_values md KeyLabels), pf_buildArgs = extractStringMap (md_values md KeyBuildArgs),
            pf_buildContexts = buildContexts, pf_secrets = secrets, pf_ssh = ssh, pf_entitlements = entitlements,
            pf_attestations = attestations, pf_network = network\<rparr>))))))"

record parsedBuildRequest =
  rq_buildID :: string
  rq_tag :: string
  rq_contextDir :: string
  rq_target :: string
  rq_progress :: string
  rq_dockerfile :: bytes
  rq_dockerignore :: bytes
  rq_buildPlatforms :: "platform list"
  rq_platforms :: "platform list"
  rq_features :: parsedBuildFeatures
  rq_check :: bool

definition parseBuildRequest :: "build_ext \<Rightarrow> metadata \<Rightarrow> goerr + parsedBuildRequest" where
  "parseBuildRequest env md =
     (case firstMetadataValue md KeyBuildID of
        None \<Rightarrow> Inl (BuildError ErrMissingBuildID)
      | Some buildID \<Rightarrow>
     (case firstMetadataValue md KeyTag of
        None \<Rightarrow> Inl (BuildError ErrMissingContextRef)
      | Some tag \<Rightarrow>
          res_bind (decodeDockerfileInputs md) (\<lambda>(dockerfile, dockerignore).
          res_bind (parseProgress md) (\<lambda>prog.
          res_bind (parseTargetPlatforms env (md_values md KeyPlatforms)) (\<lambda>platformValues.
          res_bind (parseBuildFeatures env md) (\<lambda>features.
            let buildPlatforms = BuildPlatforms (be_DefaultSpec env);
                buildPlatforms = (if buildPlatforms = [] then [be_DefaultSpec env] else buildPlatforms);
                contextDir = (case firstMetadataValue md KeyContext of None \<Rightarrow> [] | Some d \<Rightarrow> d)
            in Inr \<lparr>rq_buildID = buildID, rq_tag = tag,
                    rq_contextDir = (if contextDir = [] then ''.'' else contextDir),
                    rq_target = (case firstMetadataValue md KeyTarget of None \<Rightarrow> [] | Some t \<Rightarrow> t),
                    rq_progress = prog, rq_dockerfile = dockerfile, rq_dockerignore = dockerignore,
                    rq_buildPlatforms = buildPlatforms, rq_platforms = platformValues, rq_features = features,
                    rq_check = (firstMetadataValue md KeyCheck \<noteq> None)\<rparr>))))))"

section \<open>Services and options\<close>

record buildServices =
  sv_stdio :: StdioProxy
  sv_fssync :: FSSyncProxy

definition createBuildServices :: "build_ext \<Rightarrow> string \<Rightarrow> parsedBuildRequest \<Rightarrow> goerr + (buildServices \<times> smap)" where
  \<comment> \<open>with the request's build arguments, which the call updates in place\<close>
  "createBuildServices env basePath request =
     res_bind (NewStdioProxy (be_stdio env) (rq_progress request = ''tty'')) (\<lambda>stdioProxy.
     res_bind (be_parser_Parse env (rq_dockerfile request)) (\<lambda>dockerfile.
     res_bind (be_instructions_Parse env dockerfile) (\<lambda>(_, metaArgs).
     res_bind (applyDockerfileMetaArgs env metaArgs (pf_buildArgs (rq_features request))) (\<lambda>buildArgs.
     res_bind (be_NewPrinter env (rq_progress request)) (\<lambda>_.
     res_bind (dockerfileAddedGlobs env dockerfile) (\<lambda>addedGlobs.
     res_bind (NewFSSyncProxy ''.'' basePath addedGlobs (rq_dockerfile request) (rq_dockerignore request)) (\<lambda>fssyncProxy.
       Inr (\<lparr>sv_stdio = stdioProxy, sv_fssync = fssyncProxy\<rparr>, buildArgs))))))))"

record BOpts =
  bo_BuildID :: string
  bo_Dockerfile :: bytes
  bo_Dockerignore :: bytes
  bo_Tag :: string
  bo_ContextDir :: string
  bo_BuildPlatforms :: "platform list"
  bo_Platforms :: "platform list"
  bo_NoCache :: "string option"
  bo_Target :: string
  bo_BuildArgs :: smap
  bo_BuildContexts :: smap
  bo_Secrets :: "(string \<times> bytes) list"
  bo_SSH :: "agent_config list"
  bo_Entitlements :: "string list"
  bo_Attestations :: smap
  bo_AddHosts :: "string list"
  bo_Network :: string
  bo_ShmSize :: string
  bo_Ulimits :: "string list"
  bo_CacheIn :: "string list"
  bo_CacheOut :: "string list"
  bo_Outputs :: "string list"
  bo_Labels :: smap
  bo_Check :: bool
  bo_FSSync :: FSSyncProxy
  bo_Stdio :: StdioProxy
  bo_basePath :: string

definition NewBuildOpts :: "build_ext \<Rightarrow> string \<Rightarrow> metadata \<Rightarrow> goerr + BOpts" where
  "NewBuildOpts env basePath md =
     res_bind (parseBuildRequest env md) (\<lambda>request.
     res_bind (createBuildServices env basePath request) (\<lambda>(services, buildArgs).
       let features = rq_features request
       in Inr \<lparr>bo_BuildID = rq_buildID request, bo_Dockerfile = rq_dockerfile request, bo_Dockerignore = rq_dockerignore request,
               bo_Tag = rq_tag request, bo_ContextDir = rq_contextDir request, bo_BuildPlatforms = rq_buildPlatforms request,
               bo_Platforms = rq_platforms request, bo_NoCache = pf_noCache features, bo_Target = rq_target request,
               bo_BuildArgs = buildArgs, bo_BuildContexts = pf_buildContexts features, bo_Secrets = pf_secrets features,
               bo_SSH = pf_ssh features, bo_Entitlements = pf_entitlements features, bo_Attestations = pf_attestations features,
               bo_AddHosts = md_values md KeyAddHosts, bo_Network = pf_network features,
               bo_ShmSize = lastMetadataValue (md_values md KeyShmSize), bo_Ulimits = md_values md KeyUlimit,
               bo_CacheIn = md_values md KeyCacheIn, bo_CacheOut = md_values md KeyCacheOut, bo_Outputs = md_values md KeyOutput,
               bo_Labels = pf_labels features, bo_Check = rq_check request, bo_FSSync = sv_fssync services,
               bo_Stdio = sv_stdio services, bo_basePath = path_Join [basePath, rq_buildID request]\<rparr>))"

definition dockerfileFrontendAttrs :: "BOpts \<Rightarrow> smap" where
  "dockerfileFrontendAttrs b =
     (let attrs = [(''filename'', path_Join [DockerfileStaging, ''Dockerfile''])];
          attrs = go_put_all (map (\<lambda>(name, source). (''context:'' @ name, source)) (bo_BuildContexts b)) attrs;
          attrs = (if bo_AddHosts b = [] then attrs else AList.update ''add-hosts'' (Join (bo_AddHosts b) '','') attrs);
          attrs = (if bo_Network b = [] then attrs else AList.update ''force-network-mode'' (bo_Network b) attrs);
          attrs = (if bo_ShmSize b = [] then attrs else AList.update ''shm-size'' (bo_ShmSize b) attrs);
          attrs = (if bo_Ulimits b = [] then attrs else AList.update ''ulimit'' (Join (bo_Ulimits b) '','') attrs)
      in case bo_NoCache b of None \<Rightarrow> attrs | Some v \<Rightarrow> AList.update ''no-cache'' v attrs)"

text \<open>The value that a Go context holds under the key of the options.\<close>

datatype context_value = NoValue | OptsValue BOpts | OtherValue

definition BOpts_Context :: "BOpts \<Rightarrow> context_value" where
  "BOpts_Context b = OptsValue b"

fun newBOptsFromContext :: "context_value \<Rightarrow> goerr + BOpts" where
  "newBOptsFromContext NoValue = Inl (BuildError ErrMissingContext)"
| "newBOptsFromContext OtherValue = Inl (BuildError ErrTypeAssertionFail)"
| "newBOptsFromContext (OptsValue b) = Inr b"

section \<open>SSH agents are forwarded sockets\<close>

lemma isForwardedSSHSocketPath_iff:
  "isForwardedSSHSocketPath path \<longleftrightarrow>
     (\<exists>name. path = socketDirectory @ name \<and> slash \<notin> set name \<and> HasPrefix name ''ssh-auth'' \<and> HasSuffix name ''.sock'')"
proof
  assume fwd: "isForwardedSSHSocketPath path"
  then obtain name where p: "path = socketDirectory @ name"
    by (auto simp only: isForwardedSSHSocketPath_def HasPrefix_iff split: if_splits)
  with fwd show "\<exists>name. path = socketDirectory @ name \<and> slash \<notin> set name \<and> HasPrefix name ''ssh-auth'' \<and> HasSuffix name ''.sock''"
    by (intro exI [of _ name])
      (simp only: isForwardedSSHSocketPath_def p HasPrefix_append TrimPrefix_append Let_def Contains_char simp_thms if_True if_False de_Morgan_disj split: if_splits)
next
  assume "\<exists>name. path = socketDirectory @ name \<and> slash \<notin> set name \<and> HasPrefix name ''ssh-auth'' \<and> HasSuffix name ''.sock''"
  then obtain name where n: "path = socketDirectory @ name" "slash \<notin> set name" "HasPrefix name ''ssh-auth''" "HasSuffix name ''.sock''"
    by blast
  moreover from n(3) have "name \<noteq> []" by (auto simp: HasPrefix_iff)
  ultimately show "isForwardedSSHSocketPath path"
    by (simp only: isForwardedSSHSocketPath_def HasPrefix_append TrimPrefix_append Let_def Contains_char) simp
qed

definition agent_ok :: "agent_config \<Rightarrow> bool" where
  "agent_ok c \<longleftrightarrow> ag_ID c \<noteq> [] \<and>
     (ag_ID c = ''default'' \<and> ag_Paths c = [] \<or> (\<exists>p. ag_Paths c = [p] \<and> isForwardedSSHSocketPath p))"

lemma parse_agent_ok: "parse_agent seen v = Inr c \<Longrightarrow> agent_ok c \<and> ag_ID c \<notin> set seen"
  by (auto simp: parse_agent_def agent_ok_def Let_def split: if_splits prod.splits)

lemma agents_loop_ok:
  "agents_loop seen vs = Inr cs \<Longrightarrow>
     length cs = length vs \<and> list_all agent_ok cs \<and> distinct (map ag_ID cs) \<and> set (map ag_ID cs) \<inter> set seen = {}"
proof (induction vs arbitrary: seen cs)
  case (Cons v vs)
  then obtain c cs' where c: "parse_agent seen v = Inr c" "agents_loop (ag_ID c # seen) vs = Inr cs'" "cs = c # cs'"
    by (auto simp: result_simps)
  with Cons.IH [OF c(2)] parse_agent_ok [OF c(1)] show ?case by auto
qed simp

lemma extractSSHAgentConfigs_ok:
  "extractSSHAgentConfigs vs = Inr cs \<Longrightarrow> length cs = length vs \<and> list_all agent_ok cs \<and> distinct (map ag_ID cs)"
  using agents_loop_ok [of "[]" vs cs] by (auto simp: extractSSHAgentConfigs_def split: if_splits)



section \<open>Entitlements\<close>

lemma entitlements_loop_ok:
  "entitlements_loop env seen vs = Inr r \<Longrightarrow>
     distinct r \<and> set r = TrimSpace ` set vs - {[]} - set seen \<and> (\<forall>v \<in> TrimSpace ` set vs - {[]}. \<exists>u. be_entitlements_Parse env v = Inr u)"
proof (induction vs arbitrary: seen r)
  case (Cons raw vs)
  let ?v = "TrimSpace raw"
  show ?case
  proof (cases "?v = []")
    case True
    with Cons show ?thesis by (auto simp: Let_def)
  next
    case False
    with Cons.prems obtain u where u: "be_entitlements_Parse env ?v = Inr u" by (auto simp: Let_def result_simps)
    show ?thesis
    proof (cases "?v \<in> set seen")
      case True
      with False u Cons.prems have "entitlements_loop env seen vs = Inr r" by (simp add: Let_def)
      from Cons.IH [OF this] True u show ?thesis by auto
    next
      case new: False
      with False u Cons.prems obtain r' where r': "entitlements_loop env (?v # seen) vs = Inr r'" "r = ?v # r'"
        by (auto simp: Let_def result_simps)
      from Cons.IH [OF r'(1)] new False u show ?thesis unfolding r'(2) by auto
    qed
  qed
qed simp


section \<open>Build arguments\<close>

lemma meta_arg_loop_ok:
  "meta_arg_loop env args b = Inr b' \<Longrightarrow> map_of b \<subseteq>\<^sub>m map_of b' \<and> dom (map_of b') = dom (map_of b) \<union> fst ` set args"
proof (induction env args b rule: meta_arg_loop.induct)
  case (2 env key val args b)
  show ?case
  proof (cases "go_has b key")
    case True
    with 2 show ?thesis by (auto simp: go_has_def)
  next
    case False
    with "2.prems" obtain v where v: "be_ProcessWord env (CHR 0x5C) val b = Inr v" "meta_arg_loop env args (AList.update key v b) = Inr b'"
      by (auto simp: result_simps)
    from "2.IH"(2) [OF False v] False show ?thesis
      by (auto simp: go_has_def map_le_def dom_def split: if_splits)
  qed
qed (auto simp: map_le_def)

lemma applyDockerfileMetaArgs_ok:
  "applyDockerfileMetaArgs env ms b = Inr b' \<Longrightarrow>
     map_of b \<subseteq>\<^sub>m map_of b' \<and> dom (map_of b') = dom (map_of b) \<union> fst ` set (concat ms)"
proof (induction env ms b rule: applyDockerfileMetaArgs.induct)
  case (2 env m ms b)
  then obtain b1 where b1: "meta_arg_loop env m b = Inr b1" "applyDockerfileMetaArgs env ms b1 = Inr b'" by (auto simp: result_simps)
  from meta_arg_loop_ok [OF b1(1)] "2.IH" [OF b1] show ?case
    by (auto intro: map_le_trans)
qed (auto simp: map_le_def)

section \<open>Inputs survive their encoding\<close>

definition encode_pair :: "(bytes \<Rightarrow> string) \<Rightarrow> string \<times> bytes \<Rightarrow> string" where
  \<comment> \<open>how the host writes an entry of a map\<close>
  "encode_pair enc kv = fst kv @ CHR ''='' # enc (snd kv)"

lemma string_map_loop_encode:
  "list_all (\<lambda>kv. CHR ''='' \<notin> set (fst kv)) kvs \<Longrightarrow> string_map_loop acc (map (encode_pair id) kvs) = go_put_all kvs acc"
  by (induction kvs arbitrary: acc) (auto simp: encode_pair_def)

lemma base64_map_loop_encode:
  "list_all (\<lambda>kv. CHR ''='' \<notin> set (fst kv)) kvs \<Longrightarrow>
     base64_map_loop acc (map (encode_pair StdEncoding_EncodeToString) kvs) = Inr (go_put_all kvs acc)"
  by (induction kvs arbitrary: acc) (auto simp: encode_pair_def StdEncoding_roundtrip)

text \<open>
  C23. What the host encodes is what the build sees: the Dockerfile byte for byte, the ignore file followed by a line that keeps the staging
  directory out of the context, and every secret and build argument under its name, the last of several with the same name.
\<close>

theorem build_inputs_roundtrip:
  assumes "firstMetadataValue md KeyDockerfile = Some (StdEncoding_EncodeToString dockerfile)"
    and "firstMetadataValue md KeyDockerignore = map_option StdEncoding_EncodeToString ignore"
    and "list_all (\<lambda>kv. CHR ''='' \<notin> set (fst kv)) secrets" and "list_all (\<lambda>kv. CHR ''='' \<notin> set (fst kv)) args"
  shows "decodeDockerfileInputs md = Inr (dockerfile, (case ignore of None \<Rightarrow> [] | Some d \<Rightarrow> d @ [CHR 0x0A]) @ DockerfileStaging) \<and>
    extractBase64Map (map (encode_pair StdEncoding_EncodeToString) secrets) = Inr (go_put_all secrets []) \<and>
    extractStringMap (map (encode_pair id) args) = go_put_all args []"
  using assms
  by (auto simp: decodeDockerfileInputs_def StdEncoding_roundtrip extractBase64Map_def extractStringMap_def
      string_map_loop_encode base64_map_loop_encode split: option.splits)

theorem build_inputs_roundtrip_witness:
  "decodeDockerfileInputs [(''dockerfile'', [''RlJPTQ=='']), (''dockerignore'', [''LmdpdA==''])] =
     Inr (''FROM'', ''.git'' @ [CHR 0x0A] @ DockerfileStaging) \<and>
   extractBase64Map [''k=RlJPTQ=='', ''k=LmdpdA==''] = Inr [(''k'', ''.git'')] \<and> extractStringMap [''a=b=c''] = [(''a'', ''b=c'')]"
proof -
  let ?md = "[(''dockerfile'', [''RlJPTQ=='']), (''dockerignore'', [''LmdpdA==''])]"
  have enc: "StdEncoding_EncodeToString ''FROM'' = ''RlJPTQ==''" "StdEncoding_EncodeToString ''.git'' = ''LmdpdA==''" by code_simp+
  have "firstMetadataValue ?md KeyDockerfile = Some (StdEncoding_EncodeToString ''FROM'')"
    "firstMetadataValue ?md KeyDockerignore = map_option StdEncoding_EncodeToString (Some ''.git'')"
    by (simp_all only: enc option.map) (code_simp)+
  from build_inputs_roundtrip [OF this, of "[(''k'', ''FROM''), (''k'', ''.git'')]" "[(''a'', ''b=c'')]"] enc show ?thesis
    by (simp add: encode_pair_def)
qed

section \<open>Well-formed options\<close>

text \<open>What the build and its frontend may rely on without checking it again.\<close>

definition opts_wf :: "build_ext \<Rightarrow> string \<Rightarrow> BOpts \<Rightarrow> bool" where
  "opts_wf env basePath b \<longleftrightarrow>
     bo_Platforms b \<noteq> [] \<and> bo_BuildPlatforms b \<noteq> [] \<and> bo_ContextDir b \<noteq> [] \<and>
     bo_Network b \<in> {[], ''none'', ''host'', ''sandbox''} \<and>
     (bo_Network b = ''host'' \<longrightarrow> TrimSpace (be_EntitlementNetworkHost env) \<in> {[]} \<union> set (bo_Entitlements b)) \<and>
     distinct (bo_Entitlements b) \<and> list_all agent_ok (bo_SSH b) \<and> distinct (map ag_ID (bo_SSH b)) \<and>
     distinct (map fst (bo_BuildArgs b)) \<and> distinct (map fst (bo_BuildContexts b)) \<and> distinct (map fst (bo_Labels b)) \<and>
     distinct (map fst (bo_Secrets b)) \<and> distinct (map fst (bo_Attestations b)) \<and>
     set (map fst (bo_Attestations b)) \<subseteq> {KeyFrontendAttestProvenance, KeyFrontendAttestSBOM} \<and>
     HasSuffix (bo_Dockerignore b) DockerfileStaging \<and> length (sp_buf (bo_Stdio b)) = 2 ^ 20 \<and>
     fp_dockerfile (bo_FSSync b) = bo_Dockerfile b \<and> fp_dockerignore (bo_FSSync b) = bo_Dockerignore b \<and>
     fp_basePath (bo_FSSync b) = path_Join [basePath, ''fssync'']"

lemma string_map_loop_distinct: "distinct (map fst acc) \<Longrightarrow> distinct (map fst (string_map_loop acc vs))"
  by (induction acc vs rule: string_map_loop.induct) (auto split: prod.splits)

lemma base64_map_loop_distinct: "base64_map_loop acc vs = Inr r \<Longrightarrow> distinct (map fst acc) \<Longrightarrow> distinct (map fst r)"
  by (induction acc vs rule: base64_map_loop.induct) (auto simp: result_simps split: prod.splits if_splits)

lemma contexts_loop_distinct: "contexts_loop acc vs = Inr r \<Longrightarrow> distinct (map fst acc) \<Longrightarrow> distinct (map fst r)"
  by (induction acc vs rule: contexts_loop.induct) (auto simp: Let_def split: prod.splits if_splits)

lemma meta_arg_loop_distinct: "meta_arg_loop env args b = Inr b' \<Longrightarrow> distinct (map fst b) \<Longrightarrow> distinct (map fst b')"
  by (induction env args b rule: meta_arg_loop.induct) (auto simp: result_simps split: if_splits)

lemma applyDockerfileMetaArgs_distinct:
  "applyDockerfileMetaArgs env ms b = Inr b' \<Longrightarrow> distinct (map fst b) \<Longrightarrow> distinct (map fst b')"
  by (induction env ms b rule: applyDockerfileMetaArgs.induct) (auto simp: result_simps dest: meta_arg_loop_distinct)

lemma extractAttestations_ok:
  "extractAttestations env md = Inr r \<Longrightarrow>
     distinct (map fst r) \<and> set (map fst r) \<subseteq> {KeyFrontendAttestProvenance, KeyFrontendAttestSBOM}"
  by (auto simp: extractAttestations_def attest_value_def Let_def result_simps split: if_splits option.splits)

lemma decodeDockerfileInputs_suffix: "decodeDockerfileInputs md = Inr (d, i) \<Longrightarrow> HasSuffix i DockerfileStaging"
  by (auto simp: decodeDockerfileInputs_def HasSuffix_iff result_simps split: option.splits)

lemma normalizedNetworkMode_ok: "normalizedNetworkMode v = Inr m \<Longrightarrow> m \<in> {[], ''none'', ''host'', ''sandbox''}"
  by (auto simp: normalizedNetworkMode_def Let_def split: if_splits)

lemma parseTargetPlatforms_ok: "parseTargetPlatforms env vs = Inr ps \<Longrightarrow> ps \<noteq> []"
  by (auto simp: parseTargetPlatforms_def result_simps split: if_splits)

lemma parseBuildFeatures_ok:
  assumes "parseBuildFeatures env md = Inr f"
  shows "pf_network f \<in> {[], ''none'', ''host'', ''sandbox''}"
    and "pf_network f = ''host'' \<Longrightarrow> TrimSpace (be_EntitlementNetworkHost env) \<in> {[]} \<union> set (pf_entitlements f)"
    and "distinct (pf_entitlements f)" "list_all agent_ok (pf_ssh f)" "distinct (map ag_ID (pf_ssh f))"
    and "distinct (map fst (pf_buildContexts f))" "distinct (map fst (pf_labels f))" "distinct (map fst (pf_secrets f))"
    and "distinct (map fst (pf_attestations f))" "set (map fst (pf_attestations f)) \<subseteq> {KeyFrontendAttestProvenance, KeyFrontendAttestSBOM}"
    and "pf_buildArgs f = extractStringMap (md_values md KeyBuildArgs)"
proof -
  from assms obtain ctxs secrets ssh net ents atts where f: "extractBuildContexts (md_values md KeyBuildContexts) = Inr ctxs"
      "extractBase64Map (md_values md KeySecrets) = Inr secrets" "extractSSHAgentConfigs (md_values md KeySSH) = Inr ssh"
      "normalizedNetworkMode (lastMetadataValue (md_values md KeyNetwork)) = Inr net"
      "extractEntitlements env (md_values md KeyEntitlements) net (hasMetadataFlag md KeyPrivileged) = Inr ents"
      "extractAttestations env md = Inr atts"
      "pf_network f = net" "pf_entitlements f = ents" "pf_ssh f = ssh" "pf_buildContexts f = ctxs" "pf_secrets f = secrets"
      "pf_attestations f = atts" "pf_labels f = extractStringMap (md_values md KeyLabels)"
      "pf_buildArgs f = extractStringMap (md_values md KeyBuildArgs)"
    by (auto simp: parseBuildFeatures_def result_simps)
  note ents = entitlements_loop_ok [OF f(5) [unfolded extractEntitlements_def]]
  show "pf_network f \<in> {[], ''none'', ''host'', ''sandbox''}" using normalizedNetworkMode_ok [OF f(4)] f(7) by simp
  show "TrimSpace (be_EntitlementNetworkHost env) \<in> {[]} \<union> set (pf_entitlements f)" if "pf_network f = ''host''"
    using ents that f(7,8) by (auto simp: entitlement_values_def)
  show "distinct (pf_entitlements f)" using ents f(8) by blast
  show "list_all agent_ok (pf_ssh f)" "distinct (map ag_ID (pf_ssh f))" using extractSSHAgentConfigs_ok [OF f(3)] f(9) by blast+
  show "distinct (map fst (pf_buildContexts f))"
    using f(1,10) contexts_loop_distinct [of "[]"] by (auto simp: extractBuildContexts_def split: if_splits)
  show "distinct (map fst (pf_labels f))" using f(13) string_map_loop_distinct [of "[]"] by (simp add: extractStringMap_def)
  show "distinct (map fst (pf_secrets f))" using f(2,11) base64_map_loop_distinct [of "[]"] by (auto simp: extractBase64Map_def)
  show "distinct (map fst (pf_attestations f))" "set (map fst (pf_attestations f)) \<subseteq> {KeyFrontendAttestProvenance, KeyFrontendAttestSBOM}"
    using extractAttestations_ok [OF f(6)] f(12) by blast+
  show "pf_buildArgs f = extractStringMap (md_values md KeyBuildArgs)" by (rule f(14))
qed

lemma parseBuildRequest_ok:
  assumes "parseBuildRequest env md = Inr r"
  shows "rq_platforms r \<noteq> [] \<and> rq_buildPlatforms r \<noteq> [] \<and> rq_contextDir r \<noteq> [] \<and> HasSuffix (rq_dockerignore r) DockerfileStaging \<and>
    parseBuildFeatures env md = Inr (rq_features r)"
proof -
  from assms obtain bid tag d i prog ps f where "firstMetadataValue md KeyBuildID = Some bid" "firstMetadataValue md KeyTag = Some tag"
      "decodeDockerfileInputs md = Inr (d, i)" "parseProgress md = Inr prog"
      "parseTargetPlatforms env (md_values md KeyPlatforms) = Inr ps" "parseBuildFeatures env md = Inr f"
      "rq_dockerignore r = i" "rq_platforms r = ps" "rq_features r = f" "rq_contextDir r \<noteq> []" "rq_buildPlatforms r \<noteq> []"
    by (auto simp: parseBuildRequest_def result_simps Let_def split: option.splits if_splits)
  then show ?thesis using parseTargetPlatforms_ok decodeDockerfileInputs_suffix by blast
qed

lemma NewBuildOpts_opts_wf:
  assumes "NewBuildOpts env basePath md = Inr b"
  shows "opts_wf env basePath b \<and> map_of (extractStringMap (md_values md KeyBuildArgs)) \<subseteq>\<^sub>m map_of (bo_BuildArgs b)"
proof -
  from assms obtain r sv args where r: "parseBuildRequest env md = Inr r" and sv: "createBuildServices env basePath r = Inr (sv, args)"
    and b: "bo_Platforms b = rq_platforms r" "bo_BuildPlatforms b = rq_buildPlatforms r" "bo_ContextDir b = rq_contextDir r"
      "bo_Network b = pf_network (rq_features r)" "bo_Entitlements b = pf_entitlements (rq_features r)" "bo_SSH b = pf_ssh (rq_features r)"
      "bo_BuildArgs b = args" "bo_BuildContexts b = pf_buildContexts (rq_features r)" "bo_Labels b = pf_labels (rq_features r)"
      "bo_Secrets b = pf_secrets (rq_features r)" "bo_Attestations b = pf_attestations (rq_features r)" "bo_Dockerignore b = rq_dockerignore r"
      "bo_Dockerfile b = rq_dockerfile r" "bo_FSSync b = sv_fssync sv" "bo_Stdio b = sv_stdio sv"
    by (auto simp: NewBuildOpts_def result_simps Let_def)
  note rq = parseBuildRequest_ok [OF r]
  note ft = parseBuildFeatures_ok [OF rq [THEN conjunct2, THEN conjunct2, THEN conjunct2, THEN conjunct2]]
  from sv obtain ms tty where ms: "applyDockerfileMetaArgs env ms (pf_buildArgs (rq_features r)) = Inr args"
    and st: "NewStdioProxy (be_stdio env) tty = Inr (sv_stdio sv)"
    and fs: "fp_dockerfile (sv_fssync sv) = rq_dockerfile r" "fp_dockerignore (sv_fssync sv) = rq_dockerignore r"
      "fp_basePath (sv_fssync sv) = path_Join [basePath, ''fssync'']"
    by (auto simp: createBuildServices_def result_simps NewFSSyncProxy_def)
  have keys: "distinct (map fst (pf_buildArgs (rq_features r)))"
    using string_map_loop_distinct [of "[]"] by (simp add: ft(11) extractStringMap_def)
  have "length (sp_buf (bo_Stdio b)) = 2 ^ 20" using st NewStdioProxy_buf b(15) by metis
  moreover have "distinct (map fst (bo_BuildArgs b))" using applyDockerfileMetaArgs_distinct [OF ms keys] b(7) by simp
  ultimately have "opts_wf env basePath b" unfolding opts_wf_def using rq ft b fs by simp
  moreover have "map_of (extractStringMap (md_values md KeyBuildArgs)) \<subseteq>\<^sub>m map_of (bo_BuildArgs b)"
    using applyDockerfileMetaArgs_ok [OF ms] b(7) ft(11) by simp
  ultimately show ?thesis ..
qed

text \<open>
  C17. Options that a build is created with are well-formed: there is a target platform and a build platform, the network mode is one
  of the known ones and host networking comes with its entitlement, agents and map keys are unique, the ignore file hides the staging directory, the
  terminal buffer has its size, and the file synchronisation serves this request's Dockerfile from the shared cache directory. The build
  arguments of the request are kept as given and only extended by defaults of the Dockerfile.
\<close>

theorem NewBuildOpts_wf:
  assumes "NewBuildOpts env basePath md = Inr b"
  shows "opts_wf env basePath b \<and> map_of (extractStringMap (md_values md KeyBuildArgs)) \<subseteq>\<^sub>m map_of (bo_BuildArgs b)"
  using assms by (rule NewBuildOpts_opts_wf)

text \<open>
  C38. A request that lacks something is refused with the error for what is missing, in a fixed order whatever else it holds: build
  identifier, image reference, Dockerfile; and a request with a progress mode that does not exist is refused once those three are there.
\<close>

theorem NewBuildOpts_errors:
  "(firstMetadataValue md KeyBuildID = None \<longrightarrow> NewBuildOpts env basePath md = Inl (BuildError ErrMissingBuildID)) \<and>
   (firstMetadataValue md KeyBuildID \<noteq> None \<and> firstMetadataValue md KeyTag = None \<longrightarrow>
      NewBuildOpts env basePath md = Inl (BuildError ErrMissingContextRef)) \<and>
   (firstMetadataValue md KeyBuildID \<noteq> None \<and> firstMetadataValue md KeyTag \<noteq> None \<and> firstMetadataValue md KeyDockerfile = None \<longrightarrow>
      NewBuildOpts env basePath md = Inl (BuildError ErrMissingContextDockerfile)) \<and>
   (firstMetadataValue md KeyBuildID \<noteq> None \<and> firstMetadataValue md KeyTag \<noteq> None \<and> decodeDockerfileInputs md = Inr (d, i) \<and>
      firstMetadataValue md KeyProgress = Some mode \<and> mode \<notin> {''auto'', ''tty'', ''plain''} \<longrightarrow>
      NewBuildOpts env basePath md = Inl (BuildError ErrInvalidProgress))"
  by (auto simp: NewBuildOpts_def parseBuildRequest_def decodeDockerfileInputs_def parseProgress_def)

section \<open>A concrete request\<close>

fun demo_platform :: "string \<Rightarrow> goerr + platform" where "demo_platform s = Inr (linux_platform ''arm64'' s)"
fun demo_entitlement :: "string \<Rightarrow> goerr + unit" where
  "demo_entitlement s = (if s = ''network.host'' \<or> s = ''security.insecure'' then Inr () else Inl (External ''entitlement''))"
fun demo_parse :: "bytes \<Rightarrow> goerr + dockerfile" where
  "demo_parse d = Inr \<lparr>df_Children = [\<lparr>nd_Value = ''Copy'', nd_Next = Some ''src'', nd_Original = ''Copy src dst''\<rparr>], df_EscapeToken = CHR 0x5C\<rparr>"
fun demo_instructions :: "dockerfile \<Rightarrow> goerr + (stage list \<times> arg_command list)" where
  "demo_instructions d = Inr ([\<lparr>sg_Name = [], sg_BaseName = ''alpine'', sg_Platform = [], sg_Commands = [CopyCommand []]\<rparr>], [[(''A'', ''1''), (''B'', ''2'')]])"
fun demo_instruction :: "dockerfile_node \<Rightarrow> goerr + command" where "demo_instruction n = Inr (CopyCommand [])"
fun demo_mounts :: "(string \<Rightarrow> goerr + string) \<Rightarrow> string \<Rightarrow> goerr + mount list" where "demo_mounts f c = Inr []"
fun demo_word :: "char \<Rightarrow> string \<Rightarrow> smap \<Rightarrow> goerr + string" where "demo_word esc w env = Inr w"
fun demo_attest :: "smap \<Rightarrow> goerr + unit" where "demo_attest m = Inr ()"
fun demo_printer :: "string \<Rightarrow> goerr + unit" where "demo_printer m = Inr ()"

definition demo_ext :: build_ext where
  "demo_ext = \<lparr>be_parser_Parse = demo_parse, be_instructions_Parse = demo_instructions, be_ParseInstruction = demo_instruction,
     be_ExpandMounts = demo_mounts, be_ProcessWord = demo_word, be_platforms_Parse = demo_platform,
     be_DefaultSpec = linux_platform ''arm64'' ''v8'', be_attestations_Parse = demo_attest, be_entitlements_Parse = demo_entitlement,
     be_EntitlementNetworkHost = ''network.host'', be_EntitlementSecurityInsecure = ''security.insecure'',
     be_NewPrinter = demo_printer, be_stdio = plain_stdio_env\<rparr>"

definition demo_md :: metadata where
  "demo_md = [(''build-id'', [''b1'']), (''tag'', [''img'']), (''dockerfile'', [''RlJPTQ=='']), (''network'', ['' HOST'']),
     (''build-args'', [''A=x''])]"


lemma demo_opts_ok: "\<exists>b. NewBuildOpts demo_ext ''/base'' demo_md = Inr b \<and> bo_BuildArgs b = [(''A'', ''x''), (''B'', ''2'')]
    \<and> bo_Platforms b = [linux_platform ''arm64'' ''v8''] \<and> bo_Network b = ''host'' \<and> \<not> bo_Check b \<and> bo_Outputs b = []
    \<and> bo_BuildID b = ''b1'' \<and> bo_Tag b = ''img'' \<and> bo_BuildContexts b = []"
proof -
  obtain r where r: "parseBuildRequest demo_ext demo_md = Inr r" "rq_dockerfile r = ''FROM''" "rq_progress r = ''auto''"
      "pf_buildArgs (rq_features r) = [(''A'', ''x'')]" "rq_platforms r = [linux_platform ''arm64'' ''v8'']"
      "pf_network (rq_features r) = ''host''" "\<not> rq_check r" "rq_buildID r = ''b1''" "rq_tag r = ''img''"
      "pf_buildContexts (rq_features r) = []"
  proof -
    have "case parseBuildRequest demo_ext demo_md of Inl _ \<Rightarrow> False | Inr r \<Rightarrow> rq_dockerfile r = ''FROM'' \<and> rq_progress r = ''auto'' \<and>
        pf_buildArgs (rq_features r) = [(''A'', ''x'')] \<and> rq_platforms r = [linux_platform ''arm64'' ''v8''] \<and>
        pf_network (rq_features r) = ''host'' \<and> \<not> rq_check r \<and> rq_buildID r = ''b1'' \<and>
        rq_tag r = ''img'' \<and> pf_buildContexts (rq_features r) = []" by code_simp
    with that show thesis by (auto split: sum.splits)
  qed
  define df where "df = projr (demo_parse [])"
  obtain io where st: "NewStdioProxy (be_stdio demo_ext) (''auto'' = ''tty'') = Inr io" by (simp add: NewStdioProxy_def)
  have ext: "be_parser_Parse demo_ext ''FROM'' = Inr df"
      "be_instructions_Parse demo_ext df = Inr (fst (projr (demo_instructions df)), [[(''A'', ''1''), (''B'', ''2'')]])"
      "be_NewPrinter demo_ext ''auto'' = Inr ()" by (simp_all add: demo_ext_def df_def)
  have globs: "dockerfileAddedGlobs demo_ext df = Inr [''src'']" unfolding df_def by code_simp
  have args: "applyDockerfileMetaArgs demo_ext [[(''A'', ''1''), (''B'', ''2'')]] [(''A'', ''x'')] = Inr [(''A'', ''x''), (''B'', ''2'')]"
    by code_simp
  show ?thesis
    unfolding NewBuildOpts_def createBuildServices_def NewFSSyncProxy_def r ext st globs args res_bind.simps prod.case Let_def
    by (simp add: r demo_md_def md_values_def)
qed

theorem NewBuildOpts_wf_witness:
  "\<exists>b. NewBuildOpts demo_ext ''/base'' demo_md = Inr b \<and> opts_wf demo_ext ''/base'' b \<and> map_of (bo_BuildArgs b) ''A'' = Some ''x'' \<and>
     ''network.host'' \<in> set (bo_Entitlements b)"
proof -
  obtain b where b: "NewBuildOpts demo_ext ''/base'' demo_md = Inr b" "bo_BuildArgs b = [(''A'', ''x''), (''B'', ''2'')]" "bo_Network b = ''host''"
    using demo_opts_ok by blast
  have "TrimSpace (be_EntitlementNetworkHost demo_ext) = ''network.host''" by code_simp
  with NewBuildOpts_wf [OF b(1)] b(3) have "''network.host'' \<in> set (bo_Entitlements b)" by (simp add: opts_wf_def)
  with NewBuildOpts_wf [OF b(1)] b show ?thesis by auto
qed

theorem NewBuildOpts_errors_witness:
  "NewBuildOpts demo_ext ''/base'' [] = Inl (BuildError ErrMissingBuildID) \<and>
   NewBuildOpts demo_ext ''/base'' [(''build-id'', [''b''])] = Inl (BuildError ErrMissingContextRef) \<and>
   NewBuildOpts demo_ext ''/base'' [(''build-id'', [''b'']), (''tag'', [''t''])] = Inl (BuildError ErrMissingContextDockerfile) \<and>
   NewBuildOpts demo_ext ''/base'' (demo_md @ [(''progress'', [''loud''])]) = Inl (BuildError ErrInvalidProgress)"
proof -
  have dec: "decodeDockerfileInputs (demo_md @ [(''progress'', [''loud''])]) = Inr (''FROM'', DockerfileStaging)" by code_simp
  show ?thesis
    using NewBuildOpts_errors [of "[]" demo_ext "''/base''" "[]" "[]" "[]"]
      NewBuildOpts_errors [of "[(''build-id'', [''b''])]" demo_ext "''/base''" "[]" "[]" "[]"]
      NewBuildOpts_errors [of "[(''build-id'', [''b'']), (''tag'', [''t''])]" demo_ext "''/base''" "[]" "[]" "[]"]
      NewBuildOpts_errors [of "demo_md @ [(''progress'', [''loud''])]" demo_ext "''/base''" "''FROM''" DockerfileStaging "''loud''"] dec
    by (simp add: firstMetadataValue_def demo_md_def)
qed

lemma BOpts_context_roundtrip: "newBOptsFromContext (BOpts_Context b) = Inr b"
  by (simp add: BOpts_Context_def)

end
