(* ===== verification/Build_Solve.thy ===== *)
theory Build_Solve
  imports Build_Opts
begin

text \<open>
  A build's exports and solve options (\<open>pkg/build/build.go\<close>): output specifications are parsed, every
  export gets its destination below the shared export directory, and the options become the attributes that
  BuildKit's frontend reads. The exported archive is buffered in a temporary file and copied to its destination when the writer
  is closed. Parsing of CSV lines and cache options, the platform formatter, the SSH provider and the
  BuildKit client are in a record.
\<close>

abbreviation ExporterLocal :: string where "ExporterLocal \<equiv> ''local''"

record wrappedWriteCloser =
  ww_f :: string
  ww_dest :: string

record export_entry =
  xe_Type :: string
  xe_Attrs :: smap
  xe_OutputDir :: string
  xe_Output :: "wrappedWriteCloser option"

record solve_opt =
  so_Exports :: "export_entry list"
  so_CacheImports :: "string list"
  so_CacheExports :: "string list"
  so_Secrets :: "(string \<times> bytes) list"
  so_SSH :: "agent_config list"
  so_OCIStores :: "string list"
  so_FrontendAttrs :: smap
  so_AllowedEntitlements :: "string list"
  so_Frontend :: string

record solve_ext =
  sx_csv_Fields :: "string \<Rightarrow> goerr + string list"
  sx_ParseImportCache :: "string list \<Rightarrow> goerr + string list"
  sx_ParseExportCache :: "string list \<Rightarrow> goerr + string list"
  sx_Format :: "platform \<Rightarrow> string" \<comment> \<open>\<open>platforms.Format\<close> of the normalised platform\<close>
  sx_NewSSHAgentProvider :: "agent_config list \<Rightarrow> goerr + unit"
  sx_client :: "goerr + unit"
  sx_Build :: "solve_opt \<Rightarrow> context_value \<Rightarrow> goerr + unit"

section \<open>Output specifications\<close>

fun output_fields :: "string list \<Rightarrow> export_entry \<Rightarrow> goerr + export_entry" where
  "output_fields [] entry = Inr entry"
| "output_fields (field # fs_list) entry =
     (case Cut field ''='' of (k, v, ok) \<Rightarrow>
        if \<not> ok then Inl (Errorf (''invalid field format: '' @ field))
        else
          let key = ToLower (TrimSpace k); val = TrimSpace v
          in output_fields fs_list
               (if key = ''type'' then entry\<lparr>xe_Type := val\<rparr> else entry\<lparr>xe_Attrs := AList.update key val (xe_Attrs entry)\<rparr>))"

definition parseOutputCSV :: "solve_ext \<Rightarrow> string \<Rightarrow> goerr + export_entry" where
  "parseOutputCSV env output =
     (case sx_csv_Fields env output of
        Inl e \<Rightarrow> Inl (Wrapf ''failed to parse CSV'' e)
      | Inr fs_list \<Rightarrow>
          res_bind (output_fields fs_list \<lparr>xe_Type = [], xe_Attrs = [], xe_OutputDir = [], xe_Output = None\<rparr>) (\<lambda>entry.
            if xe_Type entry = [] then Inl (Errorf ''output type is required (type=<type>)'')
            else if xe_Type entry \<in> set [''oci'', ''tar'', ''local''] then Inr entry
            else Inl (Errorf (''unsupported output type: '' @ xe_Type entry))))"

definition parseOutput :: "solve_ext \<Rightarrow> string list \<Rightarrow> goerr + export_entry list" where
  "parseOutput env outputs = traverse (parseOutputCSV env) outputs"

section \<open>The export writer\<close>

definition wrapped_Write :: "wrappedWriteCloser \<Rightarrow> bytes \<Rightarrow> unit io" where
  "wrapped_Write w p = sys_append (ww_f w) p"

definition wrapped_Close :: "wrappedWriteCloser \<Rightarrow> unit io" where
  "wrapped_Close w =
     io_defer (io_bind (sys_ReadFile (ww_f w)) (\<lambda>d. sys_WriteFile (ww_dest w) d 438)) (sys_RemoveAll (ww_f w))"

definition discardExportWriter :: "wrappedWriteCloser option \<Rightarrow> unit io" where
  "discardExportWriter w = (case w of None \<Rightarrow> io_return () | Some x \<Rightarrow> io_bind (io_try (sys_Remove (ww_f x))) (\<lambda>_. io_return ()))"

text \<open>\<open>rnd\<close> are the names that \<open>os.CreateTemp\<close> tries.\<close>

fun exportWriter :: "string list \<Rightarrow> export_entry list \<Rightarrow> string \<Rightarrow> wrappedWriteCloser option io" where
  "exportWriter rnd [] buildID = io_return None"
| "exportWriter rnd (export # exports) buildID =
     (if xe_Type export = ExporterLocal then exportWriter rnd exports buildID
      else io_bind (sys_temp (Reg 384 []) rnd) (\<lambda>f.
        io_return (Some \<lparr>ww_f = f, ww_dest = path_Join [GlobalExportPath, buildID, ''out.tar'']\<rparr>)))"

section \<open>Configured exports\<close>

abbreviation imageNameAnnotation :: string where
  "imageNameAnnotation \<equiv> ''annotation-index-descriptor.com.apple.containerization.image.name''"

definition setDefaultExportAttributes :: "smap \<Rightarrow> string \<Rightarrow> smap" where
  "setDefaultExportAttributes attributes tag =
     (let attributes = (if go_has attributes ''name'' then attributes else AList.update ''name'' tag attributes)
      in if go_has attributes imageNameAnnotation then attributes else AList.update imageNameAnnotation tag attributes)"

definition configureExport :: "export_entry \<Rightarrow> BOpts \<Rightarrow> wrappedWriteCloser option \<Rightarrow> export_entry io" where
  "configureExport export opts w =
     (if xe_Type export = ExporterLocal then
        (let localDest = path_Join [GlobalExportPath, bo_BuildID opts, ''local'']
         in io_then (sys_MkdirAll localDest)
              (io_return (export\<lparr>xe_OutputDir := (if xe_OutputDir export = [] then localDest else xe_OutputDir export),
                 xe_Attrs := setDefaultExportAttributes (AList.update ''dest'' localDest (xe_Attrs export)) (bo_Tag opts)\<rparr>)))
      else
        io_return (export\<lparr>xe_Output := w,
          xe_Attrs := setDefaultExportAttributes
            (AList.update ''output'' (path_Join [GlobalExportPath, bo_BuildID opts, ''out.tar'']) (xe_Attrs export)) (bo_Tag opts)\<rparr>))"

fun configure_all :: "export_entry list \<Rightarrow> BOpts \<Rightarrow> wrappedWriteCloser option \<Rightarrow> export_entry list io" where
  "configure_all [] opts w = io_return []"
| "configure_all (export # exports) opts w =
     io_bind (configureExport export opts w) (\<lambda>x. io_bind (configure_all exports opts w) (\<lambda>xs. io_return (x # xs)))"

definition configuredExports :: "solve_ext \<Rightarrow> string list \<Rightarrow> BOpts \<Rightarrow> export_entry list io" where
  "configuredExports env rnd opts =
     (if bo_Check opts then io_return []
      else
        io_bind (io_lift (parseOutput env (bo_Outputs opts))) (\<lambda>parsed.
          let exports = (if parsed = [] then [\<lparr>xe_Type = ''oci'', xe_Attrs = [], xe_OutputDir = [], xe_Output = None\<rparr>] else parsed)
          in io_bind (exportWriter rnd exports (bo_BuildID opts)) (\<lambda>w.
               io_on_error (configure_all exports opts w) (discardExportWriter w))))"

section \<open>Solve options\<close>

definition prefixed :: "string \<Rightarrow> (string \<times> 'v) list \<Rightarrow> (string \<times> 'v) list" where
  "prefixed p m = map (\<lambda>(k, v). (p @ k, v)) m"

definition solve_attrs :: "solve_ext \<Rightarrow> BOpts \<Rightarrow> smap" where
  "solve_attrs env opts =
     (let attrs = go_put_all (dockerfileFrontendAttrs opts) [];
          attrs = go_put_all (prefixed ''build-arg:'' (bo_BuildArgs opts)) attrs;
          attrs = (if bo_Platforms opts \<noteq> [] then AList.update ''platform'' (Join (map (sx_Format env) (bo_Platforms opts)) '','') attrs else attrs);
          attrs = (if 1 < length (bo_Platforms opts) then AList.update ''multi-platform'' ''true'' attrs else attrs);
          attrs = (if bo_Target opts \<noteq> [] then AList.update ''target'' (bo_Target opts) attrs else attrs);
          attrs = go_put_all (prefixed ''label:'' (bo_Labels opts)) attrs
      in go_put_all (bo_Attestations opts) attrs)"

definition newSolveOptions :: "solve_ext \<Rightarrow> BOpts \<Rightarrow> export_entry list \<Rightarrow> goerr + solve_opt" where
  "newSolveOptions env opts exports =
     res_bind (sx_ParseImportCache env (bo_CacheIn opts)) (\<lambda>cacheImports.
     res_bind (sx_ParseExportCache env (bo_CacheOut opts)) (\<lambda>cacheExports.
     let so = \<lparr>so_Exports = exports, so_CacheImports = cacheImports, so_CacheExports = cacheExports, so_Secrets = bo_Secrets opts,
               so_SSH = [], so_OCIStores = [KeyContentStoreName], so_FrontendAttrs = solve_attrs env opts,
               so_AllowedEntitlements = bo_Entitlements opts, so_Frontend = ''dockerfile.v1''\<rparr>
     in if bo_SSH opts \<noteq> [] then res_bind (sx_NewSSHAgentProvider env (bo_SSH opts)) (\<lambda>_. Inr (so\<lparr>so_SSH := bo_SSH opts\<rparr>))
        else Inr so))"

definition Build :: "solve_ext \<Rightarrow> string list \<Rightarrow> BOpts \<Rightarrow> unit io" where
  "Build env rnd opts =
     io_bind (io_lift (sx_client env)) (\<lambda>_.
     io_bind (configuredExports env rnd opts) (\<lambda>exports.
     io_bind (io_lift (newSolveOptions env opts exports)) (\<lambda>solveOpt.
       io_lift (sx_Build env solveOpt (BOpts_Context opts)))))"

section \<open>Attributes\<close>

fun or_else :: "'v option \<Rightarrow> 'v option \<Rightarrow> 'v option" where
  \<comment> \<open>a lookup that falls back to another\<close>
  "or_else None d = d"
| "or_else (Some v) d = Some v"

lemma or_else_None [simp]: "or_else m None = m"
  by (cases m) auto

lemma map_of_put_all_at: "distinct (map fst src) \<Longrightarrow> map_of (go_put_all src dst) x = or_else (map_of src x) (map_of dst x)"
  by (cases "map_of src x") (simp_all add: map_of_put_all map_add_def)

lemma map_of_prefixed: "map_of (prefixed p m) (p @ k) = map_of m k"
  by (induction m) (auto simp: prefixed_def)

lemma map_of_prefixed_None: "\<forall>k. x \<noteq> p @ k \<Longrightarrow> map_of (prefixed p m) x = None"
  by (induction m) (auto simp: prefixed_def)

lemma map_of_update_if: "map_of (if c then m else AList.update k v m) x = (if x = k \<and> \<not> c then Some v else map_of m x)"
  by simp

lemma map_of_update_if': "map_of (if c then AList.update k v m else m) x = (if x = k \<and> c then Some v else map_of m x)"
  by simp

lemma distinct_prefixed [simp]: "distinct (map fst (prefixed p m)) = distinct (map fst m)"
  by (induction m) (auto simp: prefixed_def image_iff)

lemma distinct_dockerfileFrontendAttrs: "distinct (map fst (bo_BuildContexts b)) \<Longrightarrow> distinct (map fst (dockerfileFrontendAttrs b))"
  by (simp add: dockerfileFrontendAttrs_def prefixed_def [symmetric] Let_def split: option.split)

lemma map_of_frontend_attrs:
  assumes "distinct (map fst (bo_BuildContexts b))"
  shows "map_of (dockerfileFrontendAttrs b) x =
    (if x = ''no-cache'' \<and> bo_NoCache b \<noteq> None then bo_NoCache b
     else if x = ''ulimit'' \<and> bo_Ulimits b \<noteq> [] then Some (Join (bo_Ulimits b) '','')
     else if x = ''shm-size'' \<and> bo_ShmSize b \<noteq> [] then Some (bo_ShmSize b)
     else if x = ''force-network-mode'' \<and> bo_Network b \<noteq> [] then Some (bo_Network b)
     else if x = ''add-hosts'' \<and> bo_AddHosts b \<noteq> [] then Some (Join (bo_AddHosts b) '','')
     else or_else (map_of (prefixed ''context:'' (bo_BuildContexts b)) x)
            (if x = ''filename'' then Some (path_Join [DockerfileStaging, ''Dockerfile'']) else None))"
proof -
  define m0 where "m0 = go_put_all (prefixed ''context:'' (bo_BuildContexts b)) [(''filename'', path_Join [DockerfileStaging, ''Dockerfile''])]"
  have m0: "map_of m0 x = or_else (map_of (prefixed ''context:'' (bo_BuildContexts b)) x)
      (if x = ''filename'' then Some (path_Join [DockerfileStaging, ''Dockerfile'']) else None)"
    unfolding m0_def by (subst map_of_put_all_at) (simp_all add: assms)
  show ?thesis
    unfolding dockerfileFrontendAttrs_def Let_def prefixed_def [symmetric] m0_def [symmetric] m0 [symmetric]
    by (cases "bo_NoCache b") (simp_all only: option.case map_of_update map_of_update_if fun_upd_apply option.distinct simp_thms if_False if_True)
qed

lemma frontend_attrs_other:
  assumes "distinct (map fst (bo_BuildContexts b))"
    and "x \<notin> set [''no-cache'', ''ulimit'', ''shm-size'', ''force-network-mode'', ''add-hosts'', ''filename'']" and "\<forall>k. x \<noteq> ''context:'' @ k"
  shows "map_of (dockerfileFrontendAttrs b) x = None"
  using assms(2) by (simp only: map_of_frontend_attrs [OF assms(1), of x] map_of_prefixed_None [OF assms(3)]) simp

text \<open>The lookups of an option's key in the attributes, one lemma per step of their construction.\<close>

lemma map_of_solve_attrs:
  assumes "distinct (map fst (bo_BuildContexts b))" "distinct (map fst (bo_BuildArgs b))" "distinct (map fst (bo_Labels b))"
    "distinct (map fst (bo_Attestations b))"
  shows "map_of (solve_attrs env b) x =
    or_else (map_of (bo_Attestations b) x) (or_else (map_of (prefixed ''label:'' (bo_Labels b)) x)
      (if x = ''target'' \<and> bo_Target b \<noteq> [] then Some (bo_Target b)
       else if x = ''multi-platform'' \<and> 1 < length (bo_Platforms b) then Some ''true''
       else if x = ''platform'' \<and> bo_Platforms b \<noteq> [] then Some (Join (map (sx_Format env) (bo_Platforms b)) '','')
       else or_else (map_of (prefixed ''build-arg:'' (bo_BuildArgs b)) x) (map_of (dockerfileFrontendAttrs b) x)))"
  using assms distinct_dockerfileFrontendAttrs [OF assms(1)]
  by (simp only: solve_attrs_def Let_def map_of_put_all_at distinct_prefixed map_of_update_if' map_of.simps or_else_None)

section \<open>Properties of the solve options\<close>

lemma attest_None: "opts_wf ext base b \<Longrightarrow> x \<notin> {KeyFrontendAttestProvenance, KeyFrontendAttestSBOM} \<Longrightarrow> map_of (bo_Attestations b) x = None"
  unfolding opts_wf_def map_of_eq_None_iff by auto

lemma newSolveOptions_fields:
  "newSolveOptions env b exports = Inr so \<Longrightarrow>
     so_FrontendAttrs so = solve_attrs env b \<and> so_AllowedEntitlements so = bo_Entitlements b \<and> so_SSH so = bo_SSH b \<and>
     so_Exports so = exports \<and> so_Secrets so = bo_Secrets b"
  by (auto simp: newSolveOptions_def Let_def result_simps split: if_splits)

text \<open>
  C9. BuildKit is asked for the build that the request describes. For the options of any accepted request every build argument, label and named context is
  passed under its own attribute and no other is, the target, the platforms and the network mode are those of the request, attestations
  are passed as given, the Dockerfile is the staged one, and no key of one kind can shadow one of another; the
  entitlements, agents and secrets are exactly those of the options.
\<close>

theorem newSolveOptions_exact:
  assumes new: "NewBuildOpts ext base md = Inr b" and so: "newSolveOptions env b exports = Inr so"
  shows "map_of (so_FrontendAttrs so) (''build-arg:'' @ k) = map_of (bo_BuildArgs b) k \<and>
    map_of (so_FrontendAttrs so) (''label:'' @ k) = map_of (bo_Labels b) k \<and>
    map_of (so_FrontendAttrs so) (''context:'' @ k) = map_of (bo_BuildContexts b) k \<and>
    map_of (so_FrontendAttrs so) ''target'' = (if bo_Target b = [] then None else Some (bo_Target b)) \<and>
    map_of (so_FrontendAttrs so) ''platform'' = Some (Join (map (sx_Format env) (bo_Platforms b)) '','') \<and>
    map_of (so_FrontendAttrs so) ''force-network-mode'' = (if bo_Network b = [] then None else Some (bo_Network b)) \<and>
    map_of (so_FrontendAttrs so) ''filename'' = Some (path_Join [DockerfileStaging, ''Dockerfile'']) \<and>
    map_of (so_FrontendAttrs so) KeyFrontendAttestSBOM = map_of (bo_Attestations b) KeyFrontendAttestSBOM \<and>
    so_AllowedEntitlements so = bo_Entitlements b \<and> so_SSH so = bo_SSH b \<and> so_Secrets so = bo_Secrets b"
proof -
  from NewBuildOpts_opts_wf [OF new] have wf: "opts_wf ext base b" ..
  have d: "distinct (map fst (bo_BuildContexts b))" "distinct (map fst (bo_BuildArgs b))" "distinct (map fst (bo_Labels b))"
    "distinct (map fst (bo_Attestations b))" and ps: "bo_Platforms b \<noteq> []" using wf unfolding opts_wf_def by blast+
  note [simp] = map_of_solve_attrs [OF d, of env] attest_None [OF wf] map_of_prefixed_None frontend_attrs_other [OF d(1)]
  note fe = map_of_frontend_attrs [OF d(1)]
  have "map_of (solve_attrs env b) (''build-arg:'' @ k) = map_of (bo_BuildArgs b) k"
    using map_of_prefixed [of "''build-arg:''" "bo_BuildArgs b" k] by simp
  moreover have "map_of (solve_attrs env b) (''label:'' @ k) = map_of (bo_Labels b) k"
    using map_of_prefixed [of "''label:''" "bo_Labels b" k] by simp
  moreover have "map_of (solve_attrs env b) (''context:'' @ k) = map_of (bo_BuildContexts b) k"
    using map_of_prefixed [of "''context:''" "bo_BuildContexts b" k] fe [of "''context:'' @ k"] by simp
  moreover have "map_of (solve_attrs env b) ''target'' = (if bo_Target b = [] then None else Some (bo_Target b))" by simp
  moreover have "map_of (solve_attrs env b) ''platform'' = Some (Join (map (sx_Format env) (bo_Platforms b)) '','')" using ps by simp
  moreover have "map_of (solve_attrs env b) ''force-network-mode'' = (if bo_Network b = [] then None else Some (bo_Network b))"
    using fe [of "''force-network-mode''"] by simp
  moreover have "map_of (solve_attrs env b) ''filename'' = Some (path_Join [DockerfileStaging, ''Dockerfile''])" using fe [of "''filename''"] by simp
  moreover have "map_of (solve_attrs env b) KeyFrontendAttestSBOM = map_of (bo_Attestations b) KeyFrontendAttestSBOM" by simp
  ultimately show ?thesis using newSolveOptions_fields [OF so] by simp
qed

section \<open>Properties of the exports\<close>

lemma parseOutputCSV_type: "parseOutputCSV env s = Inr e \<Longrightarrow> xe_Type e \<in> {''oci'', ''tar'', ''local''}"
  by (auto simp: parseOutputCSV_def result_simps split: sum.splits if_splits)

lemma output_fields_dir: "output_fields fds e = Inr e' \<Longrightarrow> xe_OutputDir e' = xe_OutputDir e \<and> xe_Output e' = xe_Output e"
  by (induction fds e rule: output_fields.induct) (auto simp: Let_def split: prod.splits if_splits)

lemma parseOutputCSV_dir: "parseOutputCSV env s = Inr e \<Longrightarrow> xe_OutputDir e = []"
  by (auto simp: parseOutputCSV_def result_simps split: sum.splits if_splits dest!: output_fields_dir)

lemma parseOutput_entries:
  assumes "parseOutput env outs = Inr parsed"
  shows "\<forall>e \<in> set parsed. xe_Type e \<in> {''oci'', ''tar'', ''local''} \<and> xe_OutputDir e = []"
proof
  fix e
  assume "e \<in> set parsed"
  with assms obtain i where "parseOutputCSV env (outs ! i) = Inr e"
    unfolding parseOutput_def traverse_eq_Inr by (auto simp: in_set_conv_nth list_all2_conv_all_nth)
  then show "xe_Type e \<in> {''oci'', ''tar'', ''local''} \<and> xe_OutputDir e = []" by (metis parseOutputCSV_type parseOutputCSV_dir)
qed

lemma exportWriter_ok:
  "exportWriter rnd es bid fs = (Inr w, fs') \<Longrightarrow>
     (w = None \<longleftrightarrow> list_all (\<lambda>e. xe_Type e = ExporterLocal) es) \<and> (\<forall>x. w = Some x \<longrightarrow> ww_dest x = path_Join [GlobalExportPath, bid, ''out.tar''])"
  by (induction es) (auto simp: io_return_def io_bind_def split: if_splits prod.splits sum.splits)

definition export_ok :: "BOpts \<Rightarrow> wrappedWriteCloser option \<Rightarrow> export_entry \<Rightarrow> bool" where
  "export_ok b w x \<longleftrightarrow> xe_Type x \<in> {''oci'', ''tar'', ''local''} \<and> go_has (xe_Attrs x) ''name'' \<and> go_has (xe_Attrs x) imageNameAnnotation \<and>
     (if xe_Type x = ExporterLocal
      then xe_OutputDir x = path_Join [GlobalExportPath, bo_BuildID b, ''local''] \<and>
           map_of (xe_Attrs x) ''dest'' = Some (path_Join [GlobalExportPath, bo_BuildID b, ''local''])
      else xe_Output x = w \<and> map_of (xe_Attrs x) ''output'' = Some (path_Join [GlobalExportPath, bo_BuildID b, ''out.tar'']))"

lemma default_attributes:
  "go_has (setDefaultExportAttributes m t) ''name''" "go_has (setDefaultExportAttributes m t) imageNameAnnotation"
  "map_of m ''dest'' = Some v \<Longrightarrow> map_of (setDefaultExportAttributes m t) ''dest'' = Some v"
  "map_of m ''output'' = Some v \<Longrightarrow> map_of (setDefaultExportAttributes m t) ''output'' = Some v"
  by (auto simp: setDefaultExportAttributes_def go_has_def Let_def)

lemma configureExport_ok:
  "configureExport e b w fs = (Inr x, fs') \<Longrightarrow> xe_Type e \<in> {''oci'', ''tar'', ''local''} \<Longrightarrow> xe_OutputDir e = [] \<Longrightarrow> export_ok b w x \<and> xe_Type x = xe_Type e"
  by (auto simp: configureExport_def export_ok_def Let_def io_then_def io_bind_def io_return_def default_attributes
      split: if_splits prod.splits sum.splits)

lemma configure_all_ok:
  "configure_all es b w fs = (Inr xs, fs') \<Longrightarrow> \<forall>e \<in> set es. xe_Type e \<in> {''oci'', ''tar'', ''local''} \<and> xe_OutputDir e = [] \<Longrightarrow>
     list_all (export_ok b w) xs \<and> map xe_Type xs = map xe_Type es"
proof (induction es arbitrary: fs xs)
  case (Cons e es)
  then obtain x ys fs1 where "configureExport e b w fs = (Inr x, fs1)" "configure_all es b w fs1 = (Inr ys, fs')" "xs = x # ys"
    by (auto simp: io_bind_def io_return_def split: prod.splits sum.splits)
  with Cons configureExport_ok [of e b w fs x fs1] show ?case by auto
qed (simp add: io_return_def)

text \<open>
  C27. Every configured export has a supported type, a name and the image-name annotation, and goes below the build's own directory: a local
  export to its local directory whatever destination the request named, every other one to the build's archive. All the archive exports
  share one writer, so a build with an OCI and a tar output writes both streams into one file.
\<close>

theorem configuredExports_destinations:
  assumes "configuredExports env rnd b fs = (Inr xs, fs')"
  shows "(bo_Check b \<longrightarrow> xs = [] \<and> fs' = fs) \<and> (\<not> bo_Check b \<longrightarrow> xs \<noteq> []) \<and>
    (\<exists>w. list_all (export_ok b w) xs \<and>
       (\<forall>x \<in> set xs. xe_Type x \<noteq> ExporterLocal \<longrightarrow> (\<exists>f. xe_Output x = Some \<lparr>ww_f = f, ww_dest = path_Join [GlobalExportPath, bo_BuildID b, ''out.tar'']\<rparr> \<and> w = xe_Output x)))"
proof (cases "bo_Check b")
  case True
  with assms show ?thesis by (simp add: configuredExports_def io_return_def)
next
  case False
  with assms obtain parsed where p: "parseOutput env (bo_Outputs b) = Inr parsed"
    by (auto simp: configuredExports_def io_bind_def io_lift_def split: sum.splits)
  define es where "es = (if parsed = [] then [\<lparr>xe_Type = ''oci'', xe_Attrs = [], xe_OutputDir = [], xe_Output = None\<rparr>] else parsed)"
  from parseOutput_entries [OF p] have parsed_ok: "\<forall>e \<in> set parsed. xe_Type e \<in> {''oci'', ''tar'', ''local''} \<and> xe_OutputDir e = []" .
  then have types: "\<forall>e \<in> set es. xe_Type e \<in> {''oci'', ''tar'', ''local''} \<and> xe_OutputDir e = []" unfolding es_def by simp
  from assms False p obtain w fs1 where w: "exportWriter rnd es (bo_BuildID b) fs = (Inr w, fs1)" "configure_all es b w fs1 = (Inr xs, fs')"
    by (auto simp: configuredExports_def io_bind_def io_lift_def io_on_error_def Let_def es_def [symmetric] split: prod.splits sum.splits)
  note all = configure_all_ok [OF w(2) types]
  from all have ne: "xs \<noteq> []" by (auto simp: es_def split: if_splits)
  have "\<exists>f. xe_Output x = Some \<lparr>ww_f = f, ww_dest = path_Join [GlobalExportPath, bo_BuildID b, ''out.tar'']\<rparr> \<and> w = xe_Output x"
    if x: "x \<in> set xs" "xe_Type x \<noteq> ExporterLocal" for x
  proof -
    from all x have "xe_Output x = w" by (auto simp: list_all_iff export_ok_def)
    moreover have "xe_Type x \<in> set (map xe_Type es)" using all x(1) by (metis image_eqI list.set_map)
    then have "w \<noteq> None" using exportWriter_ok [OF w(1)] x(2) by (auto simp: list_all_iff)
    then obtain v where v: "w = Some v" by blast
    moreover have "ww_dest v = path_Join [GlobalExportPath, bo_BuildID b, ''out.tar'']" using exportWriter_ok [OF w(1)] v by blast
    then have "v = \<lparr>ww_f = ww_f v, ww_dest = path_Join [GlobalExportPath, bo_BuildID b, ''out.tar'']\<rparr>" by simp
    ultimately show ?thesis by metis
  qed
  with all ne False show ?thesis by blast
qed

section \<open>The archive of a build\<close>

lemma resolve_file:
  "list_all proper (q @ [c]) \<Longrightarrow> dirs_to q fs \<Longrightarrow> fs_get fs (q @ [c]) \<in> insert None (range Some \<inter> {Some (Reg m d) | m d. True}) \<Longrightarrow>
     resolve True (abs_path (q @ [c])) fs = Inr (q @ [c])"
  by (rule resolve_dirs) auto

lemma wrapped_Write_dirs:
  assumes "list_all proper (q @ [c])" "dirs_to q fs" "fs_get fs (q @ [c]) = Some (Reg m d)"
  shows "wrapped_Write \<lparr>ww_f = abs_path (q @ [c]), ww_dest = t\<rparr> p fs = (Inr (), fs_put (q @ [c]) (Reg m (d @ p)) fs)"
  using resolve_file [OF assms(1,2)] assms(3) by (simp add: wrapped_Write_def sys_append_def)

lemma dirs_to_overwrite: "dirs_to q fs \<Longrightarrow> fs_get fs p = Some (Reg m d) \<Longrightarrow> p \<noteq> [] \<Longrightarrow> dirs_to q (fs_put p (Reg m' d') fs)"
  unfolding dirs_to_def by (metis fs_get_put node.distinct(1) option.inject)

lemma wrapped_writes:
  assumes "list_all proper (q @ [c])" "dirs_to q fs" "fs_get fs (q @ [c]) = Some (Reg m d)"
  shows "\<exists>fs'. io_each (wrapped_Write \<lparr>ww_f = abs_path (q @ [c]), ww_dest = t\<rparr>) ps fs = (Inr (), fs') \<and>
    fs_get fs' (q @ [c]) = Some (Reg m (d @ concat ps)) \<and> (\<forall>p. p \<noteq> q @ [c] \<longrightarrow> fs_get fs' p = fs_get fs p)"
  using assms(2,3)
proof (induction ps arbitrary: fs d)
  case (Cons p ps)
  let ?fs = "fs_put (q @ [c]) (Reg m (d @ p)) fs"
  have "dirs_to q ?fs" "fs_get ?fs (q @ [c]) = Some (Reg m (d @ p))"
    using dirs_to_overwrite [OF Cons.prems] by (simp_all add: fs_get_put)
  from Cons.IH [OF this] show ?case
    using wrapped_Write_dirs [OF assms(1) Cons.prems] by (auto simp: io_then_def io_bind_def fs_get_put)
qed (simp add: io_return_def)


section \<open>A concrete build\<close>

fun demo_fields :: "string \<Rightarrow> goerr + string list" where
  "demo_fields s = Inr (Split s (CHR '',''))"

fun demo_format :: "platform \<Rightarrow> string" where
  "demo_format p = pl_os p @ ''/'' @ pl_architecture p"

definition demo_solve :: solve_ext where
  "demo_solve = \<lparr>sx_csv_Fields = demo_fields, sx_ParseImportCache = Inr, sx_ParseExportCache = Inr,
     sx_Format = demo_format, sx_NewSSHAgentProvider = (\<lambda>_. Inr ()), sx_client = Inr (), sx_Build = (\<lambda>_ _. Inr ())\<rparr>"

lemma demo_solve_total: "\<exists>so. newSolveOptions demo_solve b xs = Inr so"
  by (simp add: newSolveOptions_def demo_solve_def Let_def)

theorem newSolveOptions_exact_witness:
  "\<exists>b so. NewBuildOpts demo_ext ''/base'' demo_md = Inr b \<and> newSolveOptions demo_solve b [] = Inr so \<and>
     map_of (so_FrontendAttrs so) ''build-arg:A'' = Some ''x'' \<and> map_of (so_FrontendAttrs so) ''build-arg:B'' = Some ''2'' \<and>
     map_of (so_FrontendAttrs so) ''build-arg:C'' = None \<and> map_of (so_FrontendAttrs so) ''force-network-mode'' = Some ''host'' \<and>
     map_of (so_FrontendAttrs so) ''platform'' = Some ''linux/arm64''"
proof -
  obtain b where b: "NewBuildOpts demo_ext ''/base'' demo_md = Inr b" "bo_BuildArgs b = [(''A'', ''x''), (''B'', ''2'')]" "bo_Network b = ''host''"
    "bo_Platforms b = [linux_platform ''arm64'' ''v8'']" using demo_opts_ok by blast
  obtain so where so: "newSolveOptions demo_solve b [] = Inr so" using demo_solve_total by blast
  have p: "Join (map (sx_Format demo_solve) [linux_platform ''arm64'' ''v8'']) '','' = ''linux/arm64''" by code_simp
  note ex = newSolveOptions_exact [OF b(1) so]
  show ?thesis using b so p ex [of "''A''"] ex [of "''B''"] ex [of "''C''"] by auto
qed

lemma demo_exports:
  assumes "\<not> bo_Check b" "bo_Outputs b = []" "bo_BuildID b = ''b1''" "bo_Tag b = ''img''"
  shows "\<exists>xs fs'. configuredExports demo_solve [''/t''] b [] = (Inr xs, fs') \<and> xs \<noteq> [] \<and> xe_Type (hd xs) = ''oci''"
proof -
  have "sys_temp (Reg 384 []) [''/t''] [] = (Inr ''/t'', [([''t''], Reg 384 [])])" by code_simp
  with assms show ?thesis
    by (simp add: configuredExports_def io_bind_def io_lift_def parseOutput_def io_return_def io_on_error_def configureExport_def Let_def)
qed

theorem configuredExports_destinations_witness:
  "\<exists>b xs fs' f. NewBuildOpts demo_ext ''/base'' demo_md = Inr b \<and> configuredExports demo_solve [''/t''] b [] = (Inr xs, fs') \<and> xs \<noteq> [] \<and>
     xe_Output (hd xs) = Some \<lparr>ww_f = f, ww_dest = path_Join [GlobalExportPath, ''b1'', ''out.tar'']\<rparr>"
proof -
  obtain b where b: "NewBuildOpts demo_ext ''/base'' demo_md = Inr b" "\<not> bo_Check b" "bo_Outputs b = []" "bo_BuildID b = ''b1''" "bo_Tag b = ''img''"
    using demo_opts_ok by blast
  from demo_exports [OF b(2-)] obtain xs fs' where xs: "configuredExports demo_solve [''/t''] b [] = (Inr xs, fs')" "xs \<noteq> []" "xe_Type (hd xs) = ''oci''"
    by blast
  have "hd xs \<in> set xs" using xs(2) by simp
  with configuredExports_destinations [OF xs(1)] xs(3) b(4)
  obtain f where "xe_Output (hd xs) = Some \<lparr>ww_f = f, ww_dest = path_Join [GlobalExportPath, ''b1'', ''out.tar'']\<rparr>" by fastforce
  with b(1) xs show ?thesis by blast
qed


lemma Build_keeps_temp_file:
  \<comment> \<open>options that are refused after the exports were configured leave the temporary file behind\<close>
  "sx_client env = Inr () \<Longrightarrow> configuredExports env rnd b fs = (Inr xs, fs') \<Longrightarrow> newSolveOptions env b xs = Inl e \<Longrightarrow> Build env rnd b fs = (Inl e, fs')"
  by (simp add: Build_def io_bind_def io_lift_def)

end
