(* ===== verification/Build_Frontend.thy ===== *)
theory Build_Frontend
  imports Build_Solve
begin

text \<open>
  The gateway frontend of a build (\<open>pkg/build/frontend.go\<close>): the images that a Dockerfile needs are resolved
  on the host and become named inputs, every target platform is solved in its own goroutine, and the results are collected.
  References, platform strings, the stage lookup, BuildKit's Dockerfile conversion and the gateway client are in a record
  of functions. Progress messages are modelled only where a build check prints its outcome.
\<close>

section \<open>What BuildKit and the reference package provide\<close>

text \<open>A parsed image reference: its text and whether it already carries a digest.\<close>

record image_ref =
  rf_String :: string
  rf_Digested :: bool

text \<open>
  The states that the frontend builds: an image of the content store, a file in an empty image, and the output of a
  definition that another frontend sent.
\<close>

datatype llb_state =
    OCILayout string string platform
  | ScratchFile string nat bytes platform
  | DefinitionState bytes

record solve_request =
  sr_Definition :: bytes
  sr_FrontendOpt :: smap
  sr_FrontendInputs :: "(string \<times> bytes) list"

record gateway_client =
  gc_Opts :: smap
  gc_Inputs :: "goerr + (string \<times> llb_state) list"
  gc_Solve :: "solve_request \<Rightarrow> goerr + goerr + string option" \<comment> \<open>the outcome of \<open>Solve\<close>, then of \<open>SingleRef\<close>\<close>

record ui_client =
  ui_ReadEntrypoint :: "string \<Rightarrow> goerr + bytes option option" \<comment> \<open>the source and its source map, either may be nil\<close>
  ui_ExtraHosts :: string
  ui_NetworkMode :: string
  ui_ShmSize :: string
  ui_Ulimits :: string

record convert_opt =
  co_TargetPlatform :: platform
  co_LLBCaps :: "(cap_id \<times> cap) list"
  co_SourceMap :: bytes
  co_BuildPlatforms :: "platform list"
  co_TargetPlatforms :: "platform list"
  co_BuildArgs :: smap
  co_Labels :: smap
  co_Target :: string
  co_MultiPlatformRequested :: bool
  co_ImageResolveMode :: string
  co_ExtraHosts :: string
  co_NetworkMode :: string
  co_ShmSize :: string
  co_Ulimits :: string

text \<open>The result of a Dockerfile's conversion; the image is nil for a build without an image configuration.\<close>

record llb_result =
  lr_Marshal :: "goerr + bytes"
  lr_GetPlatform :: "goerr + unit"
  lr_Image :: "bytes option"

record lint_results =
  lint_Warnings :: "string list"
  lint_Error :: "string option"
  lint_ToResult :: "goerr + smap" \<comment> \<open>the metadata of the result\<close>

record frontend_ext =
  fe_build :: build_ext
  fe_ParseAnyReference :: "string \<Rightarrow> goerr + image_ref"
  fe_ErrObjectRequired :: goerr
  fe_FamiliarString :: "string \<Rightarrow> goerr + string" \<comment> \<open>\<open>FamiliarString\<close> of \<open>ParseNormalizedNamed\<close>\<close>
  fe_Format :: "platform \<Rightarrow> string"
  fe_FormatAll :: "platform \<Rightarrow> string"
  fe_Normalize :: "platform \<Rightarrow> platform"
  fe_HasStage :: "stage list \<Rightarrow> string \<Rightarrow> nat option"
  fe_rt :: round_trip
  fe_uuid :: "string \<Rightarrow> platform \<Rightarrow> string" \<comment> \<open>the identifier drawn for a request\<close>
  fe_Marshal :: "llb_state \<Rightarrow> goerr + bytes"
  fe_NewDefinitionOp :: "bytes \<Rightarrow> goerr + bytes"
  fe_NewClient :: "smap \<Rightarrow> goerr + ui_client"
  fe_Dockerfile2LLB :: "bytes \<Rightarrow> convert_opt \<Rightarrow> goerr + llb_result"
  fe_DockerfileLint :: "bytes \<Rightarrow> convert_opt \<Rightarrow> goerr + lint_results"
  fe_PrintError :: "lint_results \<Rightarrow> string"
  fe_ToState :: "string \<Rightarrow> goerr + unit"
  fe_json_Image :: "bytes option \<Rightarrow> goerr + bytes"
  fe_json_Platforms :: "(string \<times> platform) list \<Rightarrow> goerr + bytes"

abbreviation ExporterImageConfigKey :: string where "ExporterImageConfigKey \<equiv> ''containerimage.config''"
abbreviation ExporterPlatformsKey :: string where "ExporterPlatformsKey \<equiv> ''refs.platforms''"

section \<open>Global arguments\<close>

definition globalArgs :: "frontend_ext \<Rightarrow> platform \<Rightarrow> platform \<Rightarrow> smap \<Rightarrow> string \<Rightarrow> smap" where
  "globalArgs env buildPlatform targetPlatform buildArgs target =
     go_put_all buildArgs
       [(''BUILDPLATFORM'', fe_Format env buildPlatform), (''BUILDOS'', pl_os buildPlatform), (''BUILDOSVERSION'', pl_os_version buildPlatform),
        (''BUILDARCH'', pl_architecture buildPlatform), (''BUILDVARIANT'', pl_variant buildPlatform),
        (''TARGETPLATFORM'', fe_FormatAll env targetPlatform), (''TARGETOS'', pl_os targetPlatform),
        (''TARGETOSVERSION'', pl_os_version targetPlatform), (''TARGETARCH'', pl_architecture targetPlatform),
        (''TARGETVARIANT'', pl_variant targetPlatform), (''TARGETSTAGE'', if target = [] then ''default'' else target)]"

section \<open>Source states\<close>

record stateMeta =
  sm_state :: llb_state
  sm_imgMeta :: bytes

type_synonym source_states = "(string \<times> stateMeta) list"

text \<open>
  \<open>json.Marshal\<close> of a map with one byte slice: base64 in quotes, \<open>null\<close> for the nil slice that an absent
  field decodes to.
\<close>

definition imageMetadata :: "string \<Rightarrow> bytes \<Rightarrow> bytes" where
  "imageMetadata key img =
     ''{'' @ [CHR 0x22] @ key @ [CHR 0x22] @ '':'' @
     (if img = [] then ''null'' else [CHR 0x22] @ StdEncoding_EncodeToString img @ [CHR 0x22]) @ ''}''"

definition resolvedImageState :: "frontend_ext \<Rightarrow> image_ref \<Rightarrow> string \<Rightarrow> bytes \<Rightarrow> platform \<Rightarrow> goerr + (string \<times> stateMeta)" where
  "resolvedImageState env ref imageDigest img pl =
     (let fqdn = (if rf_Digested ref then rf_String ref else rf_String ref @ ''@'' @ imageDigest)
      in case fe_FamiliarString env (rf_String ref) of
           Inl e \<Rightarrow> Inl (Errorf (''invalid context name '' @ rf_String ref))
         | Inr named \<Rightarrow>
             Inr (TrimSuffix named '':latest'' @ ''::'' @ fe_FormatAll env (fe_Normalize env pl),
               \<lparr>sm_state = OCILayout fqdn KeyContentStoreName pl, sm_imgMeta = imageMetadata ExporterImageConfigKey img\<rparr>))"

definition resolveImage :: "frontend_ext \<Rightarrow> string \<Rightarrow> platform \<Rightarrow> goerr + (string \<times> bytes)" where
  "resolveImage env nm pl =
     (case ResolveImageConfig (fe_Format env) (fe_rt env) (fe_uuid env nm pl) nm pl of
        Inl e \<Rightarrow> if e = fe_ErrObjectRequired env then Inr ([], []) else Inl e
      | Inr (_, imageDigest, img) \<Rightarrow> Inr (imageDigest, img))"

text \<open>The entry that resolving a name adds to the states, if any.\<close>

definition source_entry :: "frontend_ext \<Rightarrow> string \<Rightarrow> platform \<Rightarrow> goerr + (string \<times> stateMeta) option" where
  "source_entry env nm pl =
     (if EqualFold nm ''scratch'' \<or> EqualFold nm ''context'' then Inr None
      else
        case fe_ParseAnyReference env nm of
          Inl e \<Rightarrow> if e = fe_ErrObjectRequired env then Inr None else Inl (Errorf (''invalid ref: '' @ nm))
        | Inr ref \<Rightarrow>
            res_bind (resolveImage env nm pl) (\<lambda>(imageDigest, img).
              if imageDigest = [] then Inr None else res_bind (resolvedImageState env ref imageDigest img pl) (\<lambda>x. Inr (Some x))))"

fun put_state :: "(string \<times> stateMeta) option \<Rightarrow> source_states \<Rightarrow> source_states" where
  "put_state None states = states"
| "put_state (Some (k, v)) states = AList.update k v states"

definition resolver_resolve :: "frontend_ext \<Rightarrow> string \<Rightarrow> platform \<Rightarrow> source_states \<Rightarrow> goerr + source_states" where
  "resolver_resolve env nm pl states = res_bind (source_entry env nm pl) (\<lambda>e. Inr (put_state e states))"

definition resolvedStagePlatform :: "frontend_ext \<Rightarrow> char \<Rightarrow> stage \<Rightarrow> smap \<Rightarrow> platform \<Rightarrow> goerr + platform" where
  "resolvedStagePlatform env esc st global fallback =
     (if sg_Platform st = [] then Inr fallback
      else
        case be_ProcessWord (fe_build env) esc (sg_Platform st) global of
          Inl e \<Rightarrow> Inl (Errorf (''invalid platform for stage['' @ sg_BaseName st @ '']''))
        | Inr v \<Rightarrow>
            (case be_platforms_Parse (fe_build env) v of
               Inl e \<Rightarrow> Inl (Errorf (''invalid platform for stage['' @ sg_BaseName st @ '']''))
             | Inr p \<Rightarrow> Inr p))"

text \<open>What the goroutine of one stage resolves: nothing, or a name for a platform.\<close>

definition stage_source :: "frontend_ext \<Rightarrow> BOpts \<Rightarrow> char \<Rightarrow> stage list \<Rightarrow> platform \<Rightarrow> nat \<Rightarrow> goerr + (string \<times> platform) option" where
  "stage_source env opts esc stages pl i =
     (let st = stages ! i
      in case bo_BuildPlatforms opts of
           [] \<Rightarrow> Inl (Errorf ''index out of range'')
         | bp # _ \<Rightarrow>
             (let global = globalArgs env bp pl (bo_BuildArgs opts) (bo_Target opts)
              in case be_ProcessWord (fe_build env) esc (sg_BaseName st) global of
                   Inl e \<Rightarrow> Inl (Errorf (''invalid arg for stage['' @ sg_BaseName st @ '']''))
                 | Inr baseName \<Rightarrow>
                     res_bind (resolvedStagePlatform env esc st global pl) (\<lambda>stagePlatform.
                       case fe_HasStage env stages baseName of
                         Some namedIndex \<Rightarrow> Inr (if namedIndex < i then None else Some (baseName, stagePlatform))
                       | None \<Rightarrow> Inr (Some (baseName, stagePlatform)))))"

definition resolveDockerfileStage ::
    "frontend_ext \<Rightarrow> BOpts \<Rightarrow> char \<Rightarrow> stage list \<Rightarrow> platform \<Rightarrow> nat \<Rightarrow> source_states \<Rightarrow> goerr + source_states" where
  "resolveDockerfileStage env opts esc stages pl i states =
     res_bind (stage_source env opts esc stages pl i) (\<lambda>s.
       case s of None \<Rightarrow> Inr states | Some (nm, p) \<Rightarrow> resolver_resolve env nm p states)"

text \<open>
  The goroutines of the stages share nothing but the locked map and the error channel, which has room for all of them; they
  are run in the order in which they store or report, and all of them run whatever the others report.
\<close>

fun stages_run ::
    "frontend_ext \<Rightarrow> BOpts \<Rightarrow> char \<Rightarrow> stage list \<Rightarrow> platform \<Rightarrow> nat list \<Rightarrow> source_states \<Rightarrow> goerr list \<times> source_states" where
  "stages_run env opts esc stages pl [] states = ([], states)"
| "stages_run env opts esc stages pl (i # order) states =
     (case resolveDockerfileStage env opts esc stages pl i states of
        Inl e \<Rightarrow> (case stages_run env opts esc stages pl order states of (es, s) \<Rightarrow> (e # es, s))
      | Inr states' \<Rightarrow> stages_run env opts esc stages pl order states')"

definition resolveDockerfileStages ::
    "frontend_ext \<Rightarrow> BOpts \<Rightarrow> char \<Rightarrow> stage list \<Rightarrow> platform \<Rightarrow> nat list \<Rightarrow> source_states \<Rightarrow> goerr + source_states" where
  "resolveDockerfileStages env opts esc stages pl order states =
     (case stages_run env opts esc stages pl order states of
        ([], states') \<Rightarrow> Inr states'
      | (e # _, _) \<Rightarrow> Inl e)"

text \<open>The external sources of COPY instructions.\<close>

definition copy_source :: "frontend_ext \<Rightarrow> stage list \<Rightarrow> command \<Rightarrow> string option" where
  "copy_source env stages cmd =
     (case cmd of
        CopyCommand from \<Rightarrow>
          if from = [] then None
          else if (case ParseInt from 64 of Inr _ \<Rightarrow> True | Inl _ \<Rightarrow> False) then None
          else (case fe_HasStage env stages from of Some _ \<Rightarrow> None | None \<Rightarrow> Some from)
      | _ \<Rightarrow> None)"

fun preseed_loop :: "frontend_ext \<Rightarrow> stage list \<Rightarrow> platform \<Rightarrow> command list \<Rightarrow> source_states \<Rightarrow> goerr + source_states" where
  "preseed_loop env stages pl [] states = Inr states"
| "preseed_loop env stages pl (cmd # cmds) states =
     (case copy_source env stages cmd of
        None \<Rightarrow> preseed_loop env stages pl cmds states
      | Some from \<Rightarrow> res_bind (resolver_resolve env from pl states) (preseed_loop env stages pl cmds))"

definition preseedCopyFromSources :: "frontend_ext \<Rightarrow> stage list \<Rightarrow> platform \<Rightarrow> source_states \<Rightarrow> goerr + source_states" where
  "preseedCopyFromSources env stages pl = preseed_loop env stages pl (concat (map sg_Commands stages))"

definition resolveStates :: "frontend_ext \<Rightarrow> BOpts \<Rightarrow> platform \<Rightarrow> nat list \<Rightarrow> goerr + source_states" where
  "resolveStates env opts pl order =
     res_bind (be_parser_Parse (fe_build env) (bo_Dockerfile opts)) (\<lambda>df.
     res_bind (be_instructions_Parse (fe_build env) df) (\<lambda>(stages, _).
     res_bind (resolveDockerfileStages env opts (df_EscapeToken df) stages pl order []) (\<lambda>states.
       preseedCopyFromSources env stages pl states)))"

section \<open>The client that the Dockerfile frontend sees\<close>

record frontendClient =
  fc_Client :: gateway_client
  fc_frontendOpt :: smap
  fc_frontendInputs :: "(string \<times> bytes) list"

text \<open>The order of the list is the order in which the map is ranged over.\<close>

fun opts_loop :: "smap \<Rightarrow> smap \<Rightarrow> smap" where
  "opts_loop [] opts = opts"
| "opts_loop ((k, v) # rest) opts =
     (if go_has opts k then opts_loop rest opts
      else
        let opts' = AList.update k v opts
        in opts_loop rest (case SplitN2 k ''::'' of [a, b] \<Rightarrow> AList.update a v opts' | _ \<Rightarrow> opts'))"

definition frontendClient_BuildOpts :: "frontendClient \<Rightarrow> smap" where
  "frontendClient_BuildOpts fc = opts_loop (fc_frontendOpt fc) (gc_Opts (fc_Client fc))"

fun inputs_loop :: "frontend_ext \<Rightarrow> (string \<times> bytes) list \<Rightarrow> (string \<times> llb_state) list \<Rightarrow> goerr + (string \<times> llb_state) list" where
  "inputs_loop env [] inputs = Inr inputs"
| "inputs_loop env ((k, v) # rest) inputs =
     (if go_has inputs k then inputs_loop env rest inputs
      else res_bind (fe_NewDefinitionOp env v) (\<lambda>d. inputs_loop env rest (AList.update k (DefinitionState d) inputs)))"

definition frontendClient_Inputs :: "frontend_ext \<Rightarrow> frontendClient \<Rightarrow> goerr + (string \<times> llb_state) list" where
  "frontendClient_Inputs env fc = res_bind (gc_Inputs (fc_Client fc)) (inputs_loop env (fc_frontendInputs fc))"

section \<open>Conversion options\<close>

definition setDockerfileSourceMap :: "convert_opt \<Rightarrow> bytes option option \<Rightarrow> goerr + convert_opt" where
  "setDockerfileSourceMap convertOpt source =
     (case source of Some (Some m) \<Rightarrow> Inr (convertOpt\<lparr>co_SourceMap := m\<rparr>) | _ \<Rightarrow> Inl (Errorf ''dockerfile source map missing''))"

fun states_loop :: "frontend_ext \<Rightarrow> source_states \<Rightarrow> smap \<times> (string \<times> bytes) list \<Rightarrow> goerr + smap \<times> (string \<times> bytes) list" where
  "states_loop env [] (fopt, finputs) = Inr (fopt, finputs)"
| "states_loop env ((k, v) # rest) (fopt, finputs) =
     (let fopt' = AList.update (''input-metadata:'' @ k) (sm_imgMeta v) (AList.update (''context:'' @ k) (''input:'' @ k) fopt)
      in res_bind (fe_Marshal env (sm_state v)) (\<lambda>def. states_loop env rest (fopt', AList.update k def finputs)))"

definition dockerfileConvertOpt ::
    "frontend_ext \<Rightarrow> BOpts \<Rightarrow> platform \<Rightarrow> gateway_client \<Rightarrow> source_states \<Rightarrow> goerr + convert_opt \<times> smap \<times> (string \<times> bytes) list" where
  "dockerfileConvertOpt env opts pl c states =
     (let base = go_put_all (dockerfileFrontendAttrs opts) [(''local.metadatatransfer'', ''false''), (''local.differ'', ''none'')]
      in res_bind (states_loop env states (base, [])) (\<lambda>(frontendOpt, frontendInputs).
         res_bind (fe_NewClient env (frontendClient_BuildOpts
             \<lparr>fc_Client = c, fc_frontendOpt = frontendOpt, fc_frontendInputs = frontendInputs\<rparr>)) (\<lambda>cl.
         res_bind (ui_ReadEntrypoint cl ''dockerfile'') (\<lambda>source.
         res_bind (setDockerfileSourceMap
             \<lparr>co_TargetPlatform = pl, co_LLBCaps = Caps_list, co_SourceMap = [], co_BuildPlatforms = [], co_TargetPlatforms = [],
              co_BuildArgs = [], co_Labels = [], co_Target = [], co_MultiPlatformRequested = False, co_ImageResolveMode = [],
              co_ExtraHosts = [], co_NetworkMode = [], co_ShmSize = [], co_Ulimits = []\<rparr> source) (\<lambda>co.
           Inr (co\<lparr>co_BuildPlatforms := bo_BuildPlatforms opts, co_TargetPlatforms := bo_Platforms opts, co_BuildArgs := bo_BuildArgs opts,
                   co_Labels := bo_Labels opts, co_Target := bo_Target opts, co_MultiPlatformRequested := True,
                   co_ImageResolveMode := ''local'', co_ExtraHosts := ui_ExtraHosts cl, co_NetworkMode := ui_NetworkMode cl,
                   co_ShmSize := ui_ShmSize cl, co_Ulimits := ui_Ulimits cl\<rparr>, frontendOpt, frontendInputs))))))"

section \<open>Solving one platform\<close>

definition metadataOnlyState :: "platform \<Rightarrow> llb_state" where
  "metadataOnlyState pl =
     ScratchFile ''/.container-metadata-only'' 420 (''# This image contains only metadata (ENV/ARG/LABEL)'' @ [CHR 0x0A]) pl"

definition client_Solve :: "gateway_client \<Rightarrow> bytes \<Rightarrow> smap \<Rightarrow> (string \<times> bytes) list \<Rightarrow> goerr + string option" where
  \<comment> \<open>\<open>Solve\<close> followed by \<open>SingleRef\<close>\<close>
  "client_Solve c def fopt finputs =
     res_bind (gc_Solve c \<lparr>sr_Definition = def, sr_FrontendOpt = fopt, sr_FrontendInputs = finputs\<rparr>) (\<lambda>r. r)"

definition solvePlatform :: "frontend_ext \<Rightarrow> BOpts \<Rightarrow> platform \<Rightarrow> gateway_client \<Rightarrow> source_states \<Rightarrow> goerr + string \<times> bytes" where
  "solvePlatform env opts pl c states =
     res_bind (dockerfileConvertOpt env opts pl c states) (\<lambda>(convertOpt, frontendOpt, frontendInputs).
     res_bind (fe_Dockerfile2LLB env (bo_Dockerfile opts) convertOpt) (\<lambda>result.
     res_bind (lr_Marshal result) (\<lambda>def.
     res_bind (lr_GetPlatform result) (\<lambda>_.
     res_bind (client_Solve c def frontendOpt frontendInputs) (\<lambda>ref.
     res_bind
       (case ref of
          Some r \<Rightarrow> Inr (Some r)
        | None \<Rightarrow>
            if lr_Image result = None then Inl (BuildError ErrNoBuildDirectives)
            else res_bind (fe_Marshal env (metadataOnlyState pl)) (\<lambda>layerDef. client_Solve c layerDef frontendOpt frontendInputs)) (\<lambda>ref.
     case ref of
       None \<Rightarrow> Inl nil_dereference
     | Some r \<Rightarrow> res_bind (fe_ToState env r) (\<lambda>_. res_bind (fe_json_Image env (lr_Image result)) (\<lambda>cfgJSON. Inr (r, cfgJSON)))))))))"

section \<open>Build checks\<close>

definition checkPlatform :: "frontend_ext \<Rightarrow> BOpts \<Rightarrow> platform \<Rightarrow> gateway_client \<Rightarrow> nat list \<Rightarrow> goerr + lint_results \<times> smap" where
  "checkPlatform env opts pl c order =
     res_bind (resolveStates env opts pl order) (\<lambda>states.
     res_bind (dockerfileConvertOpt env opts pl c states) (\<lambda>(convertOpt, _, _).
     res_bind (fe_DockerfileLint env (bo_Dockerfile opts) convertOpt) (\<lambda>results.
     res_bind (lint_ToResult results) (\<lambda>res. Inr (results, res)))))"

definition check_messages :: "frontend_ext \<Rightarrow> lint_results \<Rightarrow> smap \<Rightarrow> string list" where
  "check_messages env results res =
     (if go_get res ''result.txt'' \<noteq> [] then [go_get res ''result.txt''] else []) @
     (if lint_Error results \<noteq> None
      then [(if lint_Warnings results \<noteq> [] then [CHR 0x0A] else []) @ fe_PrintError env results]
      else if lint_Warnings results = [] then [''Check complete, no warnings found.'' @ [CHR 0x0A]] else [])"

text \<open>The outcome of a check and the messages it prints.\<close>

definition checkBuild :: "frontend_ext \<Rightarrow> BOpts \<Rightarrow> gateway_client \<Rightarrow> nat list \<Rightarrow> (goerr + smap) \<times> string list" where
  "checkBuild env opts c order =
     (case bo_Platforms opts of
        [] \<Rightarrow> (Inl (Errorf ''index out of range''), [])
      | pl # _ \<Rightarrow>
          (case checkPlatform env opts pl c order of
             Inl e \<Rightarrow> (Inl e, [])
           | Inr (results, res) \<Rightarrow>
               (if lint_Warnings results \<noteq> [] \<or> lint_Error results \<noteq> None then Inl (Errorf ''build check failed'') else Inr res,
                check_messages env results res)))"

section \<open>The frontend\<close>

text \<open>
  The goroutine of a platform: it resolves, reports an error of that on the unbuffered channel and goes on all the same, solves, reports an error of
  that and ends, or adds its result. The function waits for the first error or for the goroutine that waits for all of them.
\<close>

datatype platform_pc =
    PResolve
  | PSendResolve goerr
  | PSolve source_states
  | PSendSolve goerr
  | PAdd string bytes
  | PMeta bytes
  | PDone

record gateway_result =
  gr_Refs :: smap
  gr_Metadata :: "(string \<times> bytes) list"

datatype frontend_pc = FSelect | FReturned "goerr + gateway_result"

datatype waiter_pc = WWait | WSend | WEnd

record frontend_state =
  fr_pcs :: "platform_pc list"
  fr_res :: gateway_result
  fr_exp :: "(string \<times> platform) list"
  fr_main :: frontend_pc
  fr_waiter :: waiter_pc

text \<open>What the goroutines call: resolving, for the \<open>i\<close>-th platform, and solving.\<close>

record frontend_calls =
  ca_platforms :: "platform list"
  ca_resolve :: "nat \<Rightarrow> goerr + source_states"
  ca_solve :: "nat \<Rightarrow> source_states \<Rightarrow> goerr + string \<times> bytes"
  ca_key :: "platform \<Rightarrow> string"
  ca_json :: "(string \<times> platform) list \<Rightarrow> goerr + bytes"

definition empty_platform :: platform where
  "empty_platform = \<lparr>pl_architecture = [], pl_os = [], pl_os_version = [], pl_os_features = [], pl_variant = []\<rparr>"

definition frontend_init :: "frontend_calls \<Rightarrow> frontend_state" where
  "frontend_init ca =
     \<lparr>fr_pcs = map (\<lambda>_. PResolve) (ca_platforms ca), fr_res = \<lparr>gr_Refs = [], gr_Metadata = []\<rparr>,
      fr_exp = map (\<lambda>_. ([], empty_platform)) (ca_platforms ca), fr_main = FSelect, fr_waiter = WWait\<rparr>"

definition platform_step :: "frontend_calls \<Rightarrow> nat \<Rightarrow> frontend_state \<Rightarrow> frontend_state option" where
  "platform_step ca i s =
     (if length (fr_pcs s) \<le> i then None
      else
        case fr_pcs s ! i of
          PResolve \<Rightarrow>
            Some (s\<lparr>fr_pcs := (fr_pcs s)[i := case ca_resolve ca i of Inl e \<Rightarrow> PSendResolve e | Inr states \<Rightarrow> PSolve states]\<rparr>)
        | PSendResolve e \<Rightarrow>
            if fr_main s = FSelect then Some (s\<lparr>fr_pcs := (fr_pcs s)[i := PSolve []], fr_main := FReturned (Inl e)\<rparr>) else None
        | PSolve states \<Rightarrow>
            Some (s\<lparr>fr_pcs := (fr_pcs s)[i := case ca_solve ca i states of Inl e \<Rightarrow> PSendSolve e | Inr (ref, cfg) \<Rightarrow> PAdd ref cfg]\<rparr>)
        | PSendSolve e \<Rightarrow>
            if fr_main s = FSelect then Some (s\<lparr>fr_pcs := (fr_pcs s)[i := PDone], fr_main := FReturned (Inl e)\<rparr>) else None
        | PAdd ref cfg \<Rightarrow>
            Some (s\<lparr>fr_pcs := (fr_pcs s)[i := PMeta cfg],
              fr_res := (fr_res s)\<lparr>gr_Refs := AList.update (ca_key ca (ca_platforms ca ! i)) ref (gr_Refs (fr_res s))\<rparr>\<rparr>)
        | PMeta cfg \<Rightarrow>
            (let pl = ca_platforms ca ! i; plStr = ca_key ca pl
             in Some (s\<lparr>fr_pcs := (fr_pcs s)[i := PDone],
                  fr_res := (fr_res s)\<lparr>gr_Metadata := AList.update (ExporterImageConfigKey @ ''/'' @ plStr) cfg (gr_Metadata (fr_res s))\<rparr>,
                  fr_exp := (fr_exp s)[i := (plStr, pl)]\<rparr>))
        | PDone \<Rightarrow> None)"

definition frontend_result :: "frontend_calls \<Rightarrow> frontend_state \<Rightarrow> goerr + gateway_result" where
  "frontend_result ca s =
     res_bind (ca_json ca (fr_exp s)) (\<lambda>dt.
       Inr ((fr_res s)\<lparr>gr_Metadata := AList.update ExporterPlatformsKey dt (gr_Metadata (fr_res s))\<rparr>))"

definition waiter_step :: "frontend_calls \<Rightarrow> frontend_state \<Rightarrow> frontend_state option" where
  "waiter_step ca s =
     (case fr_waiter s of
        WWait \<Rightarrow> if list_all (\<lambda>pc. pc = PDone) (fr_pcs s) then Some (s\<lparr>fr_waiter := WSend\<rparr>) else None
      | WSend \<Rightarrow>
          if fr_main s = FSelect then Some (s\<lparr>fr_waiter := WEnd, fr_main := FReturned (frontend_result ca s)\<rparr>) else None
      | WEnd \<Rightarrow> None)"

text \<open>\<open>Some i\<close> is a step of the \<open>i\<close>-th goroutine, \<open>None\<close> one of the waiting goroutine.\<close>

definition frontend_apply :: "frontend_calls \<Rightarrow> nat option \<Rightarrow> frontend_state \<Rightarrow> frontend_state option" where
  "frontend_apply ca ev s = (case ev of None \<Rightarrow> waiter_step ca s | Some i \<Rightarrow> platform_step ca i s)"

inductive frontend_step :: "frontend_calls \<Rightarrow> frontend_state \<Rightarrow> frontend_state \<Rightarrow> bool" for ca where
  "frontend_apply ca ev s = Some s' \<Longrightarrow> frontend_step ca s s'"

inductive frontend_reachable :: "frontend_calls \<Rightarrow> frontend_state \<Rightarrow> bool" for ca where
  start: "frontend_reachable ca (frontend_init ca)"
| step: "frontend_reachable ca s \<Longrightarrow> frontend_step ca s s' \<Longrightarrow> frontend_reachable ca s'"

fun frontend_run :: "frontend_calls \<Rightarrow> nat option list \<Rightarrow> frontend_state \<Rightarrow> frontend_state option" where
  "frontend_run ca [] s = Some s"
| "frontend_run ca (ev # evs) s = (case frontend_apply ca ev s of None \<Rightarrow> None | Some s' \<Rightarrow> frontend_run ca evs s')"

text \<open>
  The calls of a build; \<open>orders i\<close> is the order of the stages' goroutines of the \<open>i\<close>-th platform. With a failed type
  assertion, or for a check, no goroutine is started.
\<close>

definition frontend_calls_of :: "frontend_ext \<Rightarrow> BOpts \<Rightarrow> gateway_client \<Rightarrow> (nat \<Rightarrow> nat list) \<Rightarrow> frontend_calls" where
  "frontend_calls_of env opts c orders =
     \<lparr>ca_platforms = bo_Platforms opts,
      ca_resolve = (\<lambda>i. resolveStates env opts (bo_Platforms opts ! i) (orders i)),
      ca_solve = (\<lambda>i states. solvePlatform env opts (bo_Platforms opts ! i) c states),
      ca_key = (\<lambda>pl. fe_FormatAll env (fe_Normalize env pl)), ca_json = fe_json_Platforms env\<rparr>"

definition frontend_start :: "frontend_ext \<Rightarrow> context_value \<Rightarrow> gateway_client \<Rightarrow> (nat \<Rightarrow> nat list) \<Rightarrow> goerr + (goerr + smap) + frontend_calls" where
  "frontend_start env ctx c orders =
     res_bind (newBOptsFromContext ctx) (\<lambda>opts.
       Inr (if bo_Check opts then Inl (fst (checkBuild env opts c (orders 0))) else Inr (frontend_calls_of env opts c orders)))"

section \<open>The images that a Dockerfile needs\<close>

definition needed_sources :: "frontend_ext \<Rightarrow> BOpts \<Rightarrow> char \<Rightarrow> stage list \<Rightarrow> platform \<Rightarrow> (string \<times> platform) list" where
  "needed_sources env opts esc stages pl =
     concat (map (\<lambda>i. case stage_source env opts esc stages pl i of Inr (Some x) \<Rightarrow> [x] | _ \<Rightarrow> []) [0..<length stages]) @
     map (\<lambda>nm. (nm, pl)) (List.map_filter (copy_source env stages) (concat (map sg_Commands stages)))"

definition is_ok :: "'e + 'a \<Rightarrow> bool" where
  "is_ok r = (case r of Inr _ \<Rightarrow> True | Inl _ \<Rightarrow> False)"

lemma is_ok_simps [simp]: "is_ok (Inr x)" "\<not> is_ok (Inl e)"
  by (simp_all add: is_ok_def)

definition stage_entry :: "frontend_ext \<Rightarrow> BOpts \<Rightarrow> char \<Rightarrow> stage list \<Rightarrow> platform \<Rightarrow> nat \<Rightarrow> goerr + (string \<times> stateMeta) option" where
  "stage_entry env opts esc stages pl i =
     res_bind (stage_source env opts esc stages pl i) (\<lambda>s. case s of None \<Rightarrow> Inr None | Some (nm, p) \<Rightarrow> source_entry env nm p)"

lemma resolveDockerfileStage_entry:
  "resolveDockerfileStage env opts esc stages pl i states =
     res_bind (stage_entry env opts esc stages pl i) (\<lambda>e. Inr (put_state e states))"
  by (cases "stage_source env opts esc stages pl i")
     (auto simp: resolveDockerfileStage_def stage_entry_def resolver_resolve_def split: option.split)

lemma stages_run_ok:
  "stages_run env opts esc stages pl order states = (es, states') \<Longrightarrow>
     (es = [] \<longleftrightarrow> (\<forall>i \<in> set order. is_ok (stage_entry env opts esc stages pl i))) \<and>
     (es = [] \<longrightarrow> states' = fold (\<lambda>i. put_state (projr (stage_entry env opts esc stages pl i))) order states)"
proof (induction order arbitrary: states es states')
  case (Cons i order)
  show ?case
  proof (cases "stage_entry env opts esc stages pl i")
    case (Inl e)
    with Cons.prems show ?thesis by (auto simp: resolveDockerfileStage_entry split: prod.splits)
  next
    case (Inr x)
    with Cons.prems have "stages_run env opts esc stages pl order (put_state x states) = (es, states')" by (simp add: resolveDockerfileStage_entry)
    from Cons.IH [OF this] Inr show ?thesis by simp
  qed
qed simp

lemma preseed_loop_ok:
  "(is_ok (preseed_loop env stages pl cmds states) \<longleftrightarrow>
      (\<forall>nm \<in> set (List.map_filter (copy_source env stages) cmds). is_ok (source_entry env nm pl))) \<and>
   (\<forall>states'. preseed_loop env stages pl cmds states = Inr states' \<longrightarrow>
      states' = fold (\<lambda>nm. put_state (projr (source_entry env nm pl))) (List.map_filter (copy_source env stages) cmds) states)"
proof (induction cmds arbitrary: states)
  case (Cons cmd cmds)
  show ?case
  proof (cases "copy_source env stages cmd")
    case (Some nm)
    with Cons.IH show ?thesis
      by (cases "source_entry env nm pl") (simp_all add: map_filter_simps resolver_resolve_def)
  qed (use Cons.IH in \<open>simp add: map_filter_simps\<close>)
qed (simp add: map_filter_simps)

lemma put_states_lookup:
  "map_of (fold (\<lambda>x. put_state (f x)) xs states) k = Some v \<Longrightarrow> map_of states k = Some v \<or> (\<exists>x \<in> set xs. f x = Some (k, v))"
proof (induction xs arbitrary: states)
  case (Cons x xs)
  from Cons.IH [of "put_state (f x) states"] Cons.prems show ?case
    by (cases "f x") (auto split: if_splits)
qed simp

lemma put_states_keys:
  "map_of (fold (\<lambda>x. put_state (f x)) xs states) k \<noteq> None \<longleftrightarrow> map_of states k \<noteq> None \<or> (\<exists>x \<in> set xs. \<exists>v. f x = Some (k, v))"
proof (induction xs arbitrary: states)
  case (Cons x xs)
  show ?case unfolding fold_simps o_apply Cons.IH by (cases "f x") auto
qed simp

lemma needed_stage:
  "(nm, p) \<in> set (needed_sources env opts esc stages pl) \<longleftrightarrow>
     (\<exists>i < length stages. stage_source env opts esc stages pl i = Inr (Some (nm, p))) \<or>
     p = pl \<and> nm \<in> set (List.map_filter (copy_source env stages) (concat (map sg_Commands stages)))"
  by (auto simp: needed_sources_def split: sum.splits option.splits) force+

lemma stage_entry_Some:
  "stage_entry env opts esc stages pl i = Inr (Some e) \<longleftrightarrow>
     (\<exists>nm p. stage_source env opts esc stages pl i = Inr (Some (nm, p)) \<and> source_entry env nm p = Inr (Some e))"
  by (cases "stage_source env opts esc stages pl i") (auto simp: stage_entry_def split: option.splits)

lemma stage_entry_ok:
  "is_ok (stage_entry env opts esc stages pl i) \<longleftrightarrow>
     is_ok (stage_source env opts esc stages pl i) \<and>
     (\<forall>nm p. stage_source env opts esc stages pl i = Inr (Some (nm, p)) \<longrightarrow> is_ok (source_entry env nm p))"
  by (cases "stage_source env opts esc stages pl i") (auto simp: stage_entry_def split: option.splits)

lemma is_okD: "is_ok r \<Longrightarrow> projr r = x \<longleftrightarrow> r = Inr x"
  by (cases r) auto

lemma resolveStates_run:
  assumes df: "be_parser_Parse (fe_build env) (bo_Dockerfile opts) = Inr df" "be_instructions_Parse (fe_build env) df = Inr (stages, ma)"
    and order: "set order = {..<length stages}"
  shows "(is_ok (resolveStates env opts pl order) \<longleftrightarrow>
      (\<forall>i < length stages. is_ok (stage_entry env opts (df_EscapeToken df) stages pl i)) \<and>
      (\<forall>nm \<in> set (List.map_filter (copy_source env stages) (concat (map sg_Commands stages))). is_ok (source_entry env nm pl))) \<and>
    (\<forall>states. resolveStates env opts pl order = Inr states \<longrightarrow>
      states = fold (\<lambda>nm. put_state (projr (source_entry env nm pl))) (List.map_filter (copy_source env stages) (concat (map sg_Commands stages)))
        (fold (\<lambda>i. put_state (projr (stage_entry env opts (df_EscapeToken df) stages pl i))) order []))"
proof -
  obtain es s1 where run: "stages_run env opts (df_EscapeToken df) stages pl order [] = (es, s1)" by fastforce
  note st = stages_run_ok [OF run] and pre = preseed_loop_ok [of env stages pl "concat (map sg_Commands stages)" s1]
  have eq: "resolveStates env opts pl order = (case es of [] \<Rightarrow> preseed_loop env stages pl (concat (map sg_Commands stages)) s1 | e # _ \<Rightarrow> Inl e)"
    using df run by (simp add: resolveStates_def resolveDockerfileStages_def preseedCopyFromSources_def split: list.split)
  show ?thesis using eq st pre order by (cases es) auto
qed


section \<open>The options that BuildKit's Dockerfile frontend sees\<close>

lemma cut_at_first: "cut_at sep s = Some (a, b) \<Longrightarrow> sep \<noteq> [] \<Longrightarrow> cut_at sep a = None"
proof (induction sep s arbitrary: a b rule: cut_at.induct)
  case (2 sep c s)
  show ?case
  proof (cases "prefix sep (c # s)")
    case False
    with "2.prems" obtain a' where a: "cut_at sep s = Some (a', b)" "a = c # a'" by auto
    then have "s = a' @ sep @ b" by (metis cut_at_SomeD)
    with False have "\<not> prefix sep (c # a')" by (metis append_Cons append_assoc prefix_prefix)
    with "2.IH" [OF False a(1) "2.prems"(2)] a(2) show ?thesis by simp
  qed (use "2.prems" in auto)
qed simp

lemma SplitN2_case: "(case SplitN2 k sep of [a, b] \<Rightarrow> f a | _ \<Rightarrow> d) = (case cut_at sep k of None \<Rightarrow> d | Some (a, b) \<Rightarrow> f a)"
  by (simp add: SplitN2_def split: option.split prod.split)

definition shadowing :: "string \<Rightarrow> smap \<Rightarrow> smap \<Rightarrow> smap" where
  \<comment> \<open>the added options whose part before the separator is the key\<close>
  "shadowing x base fopt = filter (\<lambda>(k, _). (case cut_at ''::'' k of Some (a, _) \<Rightarrow> a = x | None \<Rightarrow> False) \<and> \<not> go_has base k) fopt"

lemma shadowing_update:
  "k' \<notin> fst ` set fopt \<Longrightarrow> shadowing x (AList.update k' v base) fopt = shadowing x base fopt"
  unfolding shadowing_def by (rule filter_cong) (auto simp: go_has_def image_iff)

lemma shadowing_plain:
  "cut_at ''::'' a = None \<Longrightarrow> shadowing x (AList.update a v base) fopt = shadowing x base fopt"
  unfolding shadowing_def by (rule filter_cong) (auto simp: go_has_def split: option.splits if_splits)

lemma opts_loop_sep:
  "distinct (map fst fopt) \<Longrightarrow> cut_at ''::'' x \<noteq> None \<Longrightarrow> map_of (opts_loop fopt base) x = or_else (map_of base x) (map_of fopt x)"
proof (induction fopt arbitrary: base)
  case (Cons kv rest)
  obtain k v where kv: "kv = (k, v)" by fastforce
  from Cons.prems have d: "distinct (map fst rest)" "map_of rest k = None" by (auto simp: kv map_of_eq_None_iff)
  have a: "a \<noteq> x" if "cut_at ''::'' k = Some (a, b)" for a b using cut_at_first [OF that] Cons.prems(2) by auto
  show ?case
    using Cons.IH [OF d(1) Cons.prems(2)] d(2) a
    by (cases "map_of base x") (auto simp: kv go_has_def Let_def SplitN2_case split: option.splits)
qed (cases "map_of base x"; simp)

lemma opts_loop_plain:
  "distinct (map fst fopt) \<Longrightarrow> cut_at ''::'' x = None \<Longrightarrow>
     map_of (opts_loop fopt base) x =
       (if shadowing x base fopt = [] then or_else (map_of base x) (map_of fopt x) else Some (snd (last (shadowing x base fopt))))"
proof (induction fopt arbitrary: base)
  case (Cons kv rest)
  obtain k v where kv: "kv = (k, v)" by fastforce
  from Cons.prems have d: "distinct (map fst rest)" "k \<notin> fst ` set rest" "map_of rest k = None" by (auto simp: kv map_of_eq_None_iff)
  note IH = Cons.IH [OF d(1) Cons.prems(2)]
  consider (has) "go_has base k" | (plain) "\<not> go_has base k" "cut_at ''::'' k = None"
    | (split) a b where "\<not> go_has base k" "cut_at ''::'' k = Some (a, b)" by fastforce
  then show ?case
  proof cases
    case has
    then have "shadowing x base (kv # rest) = shadowing x base rest" by (simp add: shadowing_def kv)
    with has IH [of base] show ?thesis by (cases "map_of base x") (auto simp: kv go_has_def d(3))
  next
    case plain
    then have "shadowing x base (kv # rest) = shadowing x (AList.update k v base) rest"
      by (simp add: shadowing_update [OF d(2)]) (simp add: shadowing_def kv)
    with plain IH [of "AList.update k v base"] show ?thesis
      by (cases "map_of base x") (auto simp: kv go_has_def Let_def SplitN2_case)
  next
    case split
    note a = cut_at_first [OF split(2)]
    have sh: "shadowing x (AList.update a v (AList.update k v base)) rest = shadowing x base rest"
      using a by (simp add: shadowing_plain shadowing_update [OF d(2)])
    have "shadowing x base (kv # rest) = (if a = x then (k, v) # shadowing x base rest else shadowing x base rest)"
      using split by (simp add: shadowing_def kv)
    moreover have "k \<noteq> x" using split(2) Cons.prems(2) by auto
    ultimately show ?thesis using split IH [of "AList.update a v (AList.update k v base)"]
      by (cases "map_of base x") (auto simp: kv go_has_def Let_def SplitN2_case sh)
  qed
qed (cases "map_of base x"; simp add: shadowing_def)

lemma states_loop_other:
  "states_loop env states (fo, fi) = Inr (fo', fi') \<Longrightarrow> \<forall>k \<in> fst ` set states. x \<noteq> ''context:'' @ k \<and> x \<noteq> ''input-metadata:'' @ k \<Longrightarrow>
     map_of fo' x = map_of fo x"
proof (induction states arbitrary: fo fi)
  case (Cons kv rest)
  then show ?case by (cases kv) (auto simp: Let_def result_simps)
qed simp

lemma states_loop_inputs_other:
  "states_loop env states (fo, fi) = Inr (fo', fi') \<Longrightarrow> k \<notin> fst ` set states \<Longrightarrow> map_of fi' k = map_of fi k"
proof (induction states arbitrary: fo fi)
  case (Cons kv rest)
  then show ?case by (cases kv) (auto simp: Let_def result_simps)
qed simp

lemma states_loop_distinct:
  "states_loop env states (fo, fi) = Inr (fo', fi') \<Longrightarrow> distinct (map fst fo) \<Longrightarrow> distinct (map fst fo')"
proof (induction states arbitrary: fo fi)
  case (Cons kv rest)
  then show ?case by (cases kv) (auto simp: Let_def result_simps distinct_update)
qed simp

lemma states_loop_entry:
  "states_loop env states (fo, fi) = Inr (fo', fi') \<Longrightarrow> distinct (map fst states) \<Longrightarrow> (k, v) \<in> set states \<Longrightarrow>
     map_of fo' (''context:'' @ k) = Some (''input:'' @ k) \<and> map_of fo' (''input-metadata:'' @ k) = Some (sm_imgMeta v) \<and>
     (\<exists>d. fe_Marshal env (sm_state v) = Inr d \<and> map_of fi' k = Some d)"
proof (induction states arbitrary: fo fi)
  case (Cons kv rest)
  obtain k' v' where kv: "kv = (k', v')" by fastforce
  from Cons.prems(1) obtain d where d: "fe_Marshal env (sm_state v') = Inr d"
    and rest: "states_loop env rest (AList.update (''input-metadata:'' @ k') (sm_imgMeta v') (AList.update (''context:'' @ k') (''input:'' @ k') fo),
        AList.update k' d fi) = Inr (fo', fi')" by (auto simp: kv Let_def result_simps)
  show ?case
  proof (cases "(k, v) \<in> set rest")
    case True
    from Cons.IH [OF rest _ this] Cons.prems(2) show ?thesis by simp
  next
    case False
    with Cons.prems(2,3) have e: "k = k'" "v = v'" and fresh: "k \<notin> fst ` set rest" by (auto simp: kv)
    have "map_of fo' (''context:'' @ k) = Some (''input:'' @ k)" "map_of fo' (''input-metadata:'' @ k) = Some (sm_imgMeta v)"
      using fresh by (subst states_loop_other [OF rest]; auto simp: e)+
    moreover have "map_of fi' k = Some d" using states_loop_inputs_other [OF rest fresh] by (simp add: e)
    ultimately show ?thesis using d e by blast
  qed
qed simp

lemma setDockerfileSourceMap_ok: "setDockerfileSourceMap co s = Inr co' \<Longrightarrow> co_TargetPlatform co' = co_TargetPlatform co"
  by (auto simp: setDockerfileSourceMap_def split: option.splits)

lemma dockerfileConvertOpt_loop:
  assumes "dockerfileConvertOpt env opts pl c states = Inr (co, fo, fi)"
  shows "states_loop env states (go_put_all (dockerfileFrontendAttrs opts) [(''local.metadatatransfer'', ''false''), (''local.differ'', ''none'')], []) = Inr (fo, fi) \<and>
    co_TargetPlatform co = pl \<and> co_BuildPlatforms co = bo_BuildPlatforms opts \<and> co_TargetPlatforms co = bo_Platforms opts \<and>
    co_BuildArgs co = bo_BuildArgs opts \<and> co_Labels co = bo_Labels opts \<and> co_Target co = bo_Target opts"
  using assms by (auto simp: dockerfileConvertOpt_def Let_def result_simps dest: setDockerfileSourceMap_ok)

lemma convert_base:
  assumes "distinct (map fst (bo_BuildContexts b))"
    and "base = go_put_all (dockerfileFrontendAttrs b) [(''local.metadatatransfer'', ''false''), (''local.differ'', ''none'')]"
  shows "distinct (map fst base)" "map_of base ''local.metadatatransfer'' = Some ''false''" "map_of base ''local.differ'' = Some ''none''"
    and "\<forall>u \<in> fst ` set (bo_BuildContexts b). cut_at ''::'' (''context:'' @ u) = None \<Longrightarrow> cut_at ''::'' x \<noteq> None \<Longrightarrow> map_of base x = None"
proof -
  note d = distinct_dockerfileFrontendAttrs [OF assms(1)]
  note base = map_of_put_all_at [OF d, where dst = "[(''local.metadatatransfer'', ''false''), (''local.differ'', ''none'')]", folded assms(2)]
  show "distinct (map fst base)" unfolding assms(2) by (rule distinct_keys_put_all) simp
  show "map_of base ''local.metadatatransfer'' = Some ''false''" "map_of base ''local.differ'' = Some ''none''"
    using frontend_attrs_other [OF assms(1), of "''local.metadatatransfer''"] frontend_attrs_other [OF assms(1), of "''local.differ''"]
    by (simp_all add: base)
  assume u: "\<forall>u \<in> fst ` set (bo_BuildContexts b). cut_at ''::'' (''context:'' @ u) = None" and x: "cut_at ''::'' x \<noteq> None"
  have lit: "x \<notin> set [''no-cache'', ''ulimit'', ''shm-size'', ''force-network-mode'', ''add-hosts'', ''filename'', ''local.metadatatransfer'', ''local.differ'']"
    using x by auto
  have "map_of (prefixed ''context:'' (bo_BuildContexts b)) x = None"
  proof (cases "\<exists>k. x = ''context:'' @ k")
    case True
    then obtain k where k: "x = ''context:'' @ k" by blast
    with u x have "map_of (bo_BuildContexts b) k = None" by (force simp: map_of_eq_None_iff)
    then show ?thesis using map_of_prefixed [of "''context:''" "bo_BuildContexts b" k] by (simp add: k)
  qed (simp add: map_of_prefixed_None)
  then show "map_of base x = None" using lit by (simp add: base map_of_frontend_attrs [OF assms(1)])
qed

text \<open>
  C22. What the Dockerfile of an accepted request is converted with: the platforms, arguments, labels and target of the request; transfer of metadata
  and the differ switched off; and every resolved image as an input, under the name and platform that BuildKit looks up first and
  also under its plain name. The latter holds even when the request gives a build context of that name, which is then
  hidden by the resolved image.
\<close>

theorem dockerfileConvertOpt_exact:
  assumes new: "NewBuildOpts ext base md = Inr b" and co: "dockerfileConvertOpt env b pl c states = Inr (co, fo, fi)"
    and st: "distinct (map fst states)" "(k, v) \<in> set states"
    and fresh: "\<not> go_has (gc_Opts c) (''context:'' @ k)" and sep: "cut_at ''::'' (''context:'' @ k) = Some (''context:'' @ nm, p)"
    and plain: "\<forall>u \<in> fst ` set (bo_BuildContexts b). cut_at ''::'' (''context:'' @ u) = None"
    and seen: "seen = frontendClient_BuildOpts \<lparr>fc_Client = c, fc_frontendOpt = fo, fc_frontendInputs = fi\<rparr>"
  shows "co_TargetPlatform co = pl \<and> co_TargetPlatforms co = bo_Platforms b \<and> co_BuildArgs co = bo_BuildArgs b \<and>
    co_Labels co = bo_Labels b \<and> co_Target co = bo_Target b \<and>
    map_of fo ''local.metadatatransfer'' = Some ''false'' \<and> map_of fo ''local.differ'' = Some ''none'' \<and>
    (\<exists>d. fe_Marshal env (sm_state v) = Inr d \<and> map_of fi k = Some d) \<and> map_of fo (''input-metadata:'' @ k) = Some (sm_imgMeta v) \<and>
    map_of seen (''context:'' @ k) = Some (''input:'' @ k) \<and>
    (\<exists>k' \<in> fst ` set states. map_of seen (''context:'' @ nm) = Some (''input:'' @ k') \<and>
       (\<exists>p'. ''context:'' @ k' = (''context:'' @ nm) @ ''::'' @ p'))"
proof -
  from NewBuildOpts_opts_wf [OF new] have d: "distinct (map fst (bo_BuildContexts b))" by (simp add: opts_wf_def)
  define base0 where "base0 = go_put_all (dockerfileFrontendAttrs b) [(''local.metadatatransfer'', ''false''), (''local.differ'', ''none'')]"
  note base = convert_base [OF d base0_def]
  note loop = dockerfileConvertOpt_loop [OF co, folded base0_def, THEN conjunct1]
  note entry = states_loop_entry [OF loop st(1)] and dfo = states_loop_distinct [OF loop base(1)]
  have local: "map_of fo ''local.metadatatransfer'' = Some ''false''" "map_of fo ''local.differ'' = Some ''none''"
    using base(2,3) by (subst states_loop_other [OF loop]; auto)+
  have lookup: "map_of seen (''context:'' @ k) = Some (''input:'' @ k)"
    using opts_loop_sep [OF dfo, of "''context:'' @ k" "gc_Opts c"] sep fresh entry [OF st(2)] by (auto simp: seen frontendClient_BuildOpts_def go_has_def)
  let ?S = "shadowing (''context:'' @ nm) (gc_Opts c) fo"
  have "(''context:'' @ k, ''input:'' @ k) \<in> set fo" using entry [OF st(2)] by (auto dest: map_of_SomeD)
  then have ne: "?S \<noteq> []" using sep fresh unfolding shadowing_def filter_empty_conv by fastforce
  obtain kk vv where last: "last ?S = (kk, vv)" by fastforce
  then have "(kk, vv) \<in> set ?S" using last_in_set [OF ne] by simp
  then obtain p' where kk: "(kk, vv) \<in> set fo" "cut_at ''::'' kk = Some (''context:'' @ nm, p')"
    by (auto simp: shadowing_def split: option.splits)
  from kk(2) have form: "kk = (''context:'' @ nm) @ ''::'' @ p'" by (rule cut_at_SomeD)
  have look: "map_of fo kk = Some vv" using kk(1) dfo by simp
  have "\<exists>k' \<in> fst ` set states. kk = ''context:'' @ k'"
  proof (rule ccontr)
    assume "\<not> ?thesis"
    then have "map_of fo kk = map_of base0 kk" using form by (intro states_loop_other [OF loop]) auto
    with look base(4) [OF plain, of kk] kk(2) show False by simp
  qed
  then obtain k' where k': "k' \<in> fst ` set states" "kk = ''context:'' @ k'" by blast
  then have "vv = ''input:'' @ k'" using entry look by force
  moreover have "map_of seen (''context:'' @ nm) = Some vv"
    using opts_loop_plain [OF dfo, of "''context:'' @ nm" "gc_Opts c"] cut_at_first [OF sep] ne last by (simp add: seen frontendClient_BuildOpts_def)
  ultimately have plainname: "\<exists>k' \<in> fst ` set states. map_of seen (''context:'' @ nm) = Some (''input:'' @ k') \<and>
       (\<exists>p'. ''context:'' @ k' = (''context:'' @ nm) @ ''::'' @ p')" using k' form by metis
  from dockerfileConvertOpt_loop [OF co] entry [OF st(2)] local lookup plainname show ?thesis by blast
qed

section \<open>Collecting the platforms\<close>

definition platform_result :: "frontend_calls \<Rightarrow> nat \<Rightarrow> goerr + string \<times> bytes" where
  "platform_result ca i = res_bind (ca_resolve ca i) (ca_solve ca i)"

abbreviation platform_key :: "frontend_calls \<Rightarrow> nat \<Rightarrow> string" where
  "platform_key ca i \<equiv> ca_key ca (ca_platforms ca ! i)"

definition ref_ok :: "frontend_calls \<Rightarrow> gateway_result \<Rightarrow> nat \<Rightarrow> bool" where
  \<comment> \<open>the key of the platform has the reference of a platform with that key\<close>
  "ref_ok ca r i \<longleftrightarrow> (\<exists>j < length (ca_platforms ca). \<exists>ref cfg. platform_key ca j = platform_key ca i \<and>
     platform_result ca j = Inr (ref, cfg) \<and> map_of (gr_Refs r) (platform_key ca i) = Some ref)"

definition cfg_ok :: "frontend_calls \<Rightarrow> gateway_result \<Rightarrow> nat \<Rightarrow> bool" where
  "cfg_ok ca r i \<longleftrightarrow> (\<exists>j < length (ca_platforms ca). \<exists>ref cfg. platform_key ca j = platform_key ca i \<and>
     platform_result ca j = Inr (ref, cfg) \<and> map_of (gr_Metadata r) (ExporterImageConfigKey @ ''/'' @ platform_key ca i) = Some cfg)"

fun pc_ok :: "frontend_calls \<Rightarrow> frontend_state \<Rightarrow> nat \<Rightarrow> platform_pc \<Rightarrow> bool" where
  "pc_ok ca s i PResolve = True"
| "pc_ok ca s i (PSendResolve e) = (ca_resolve ca i = Inl e)"
| "pc_ok ca s i (PSolve states) = (ca_resolve ca i = Inr states)"
| "pc_ok ca s i (PSendSolve e) = (platform_result ca i = Inl e)"
| "pc_ok ca s i (PAdd ref cfg) = (platform_result ca i = Inr (ref, cfg))"
| "pc_ok ca s i (PMeta cfg) = ((\<exists>ref. platform_result ca i = Inr (ref, cfg)) \<and> ref_ok ca (fr_res s) i)"
| "pc_ok ca s i PDone = ((\<exists>x. platform_result ca i = Inr x) \<and> ref_ok ca (fr_res s) i \<and> cfg_ok ca (fr_res s) i \<and>
     fr_exp s ! i = (platform_key ca i, ca_platforms ca ! i))"

definition complete_result :: "frontend_calls \<Rightarrow> gateway_result \<Rightarrow> bool" where
  "complete_result ca r \<longleftrightarrow>
     (\<forall>i < length (ca_platforms ca). (\<exists>x. platform_result ca i = Inr x) \<and> ref_ok ca r i \<and> cfg_ok ca r i) \<and>
     (\<exists>dt. ca_json ca (map (\<lambda>pl. (ca_key ca pl, pl)) (ca_platforms ca)) = Inr dt \<and> map_of (gr_Metadata r) ExporterPlatformsKey = Some dt)"

definition error_origin :: "frontend_calls \<Rightarrow> goerr \<Rightarrow> bool" where
  "error_origin ca e \<longleftrightarrow> (\<exists>i < length (ca_platforms ca). platform_result ca i = Inl e) \<or>
     ca_json ca (map (\<lambda>pl. (ca_key ca pl, pl)) (ca_platforms ca)) = Inl e"

definition frontend_inv :: "frontend_calls \<Rightarrow> frontend_state \<Rightarrow> bool" where
  "frontend_inv ca s \<longleftrightarrow>
     length (fr_pcs s) = length (ca_platforms ca) \<and> length (fr_exp s) = length (ca_platforms ca) \<and>
     (fr_waiter s \<noteq> WWait \<longrightarrow> (\<forall>i < length (ca_platforms ca). fr_pcs s ! i = PDone)) \<and>
     (case fr_main s of
        FSelect \<Rightarrow> fr_waiter s \<noteq> WEnd \<and> (\<forall>i < length (ca_platforms ca). pc_ok ca s i (fr_pcs s ! i))
      | FReturned (Inl e) \<Rightarrow> error_origin ca e
      | FReturned (Inr r) \<Rightarrow> complete_result ca r)"

text \<open>A state that differs in nothing that the condition of another goroutine reads.\<close>

lemma pc_ok_pcs [simp]:
  "pc_ok ca (s\<lparr>fr_pcs := x\<rparr>) i pc = pc_ok ca s i pc"
  "pc_ok ca (s\<lparr>fr_pcs := x, fr_res := r\<rparr>) i pc = pc_ok ca (s\<lparr>fr_res := r\<rparr>) i pc"
  "pc_ok ca (s\<lparr>fr_pcs := x, fr_res := r, fr_exp := e\<rparr>) i pc = pc_ok ca (s\<lparr>fr_res := r, fr_exp := e\<rparr>) i pc"
  by (cases pc; simp)+

lemma pc_ok_waiter [simp]: "pc_ok ca (s\<lparr>fr_waiter := w\<rparr>) i pc = pc_ok ca s i pc"
  by (cases pc) auto

lemma pc_ok_add_ref:
  assumes "pc_ok ca s j pc" "i < length (ca_platforms ca)" "platform_result ca i = Inr (ref, cfg)"
  shows "pc_ok ca (s\<lparr>fr_res := (fr_res s)\<lparr>gr_Refs := AList.update (platform_key ca i) ref (gr_Refs (fr_res s))\<rparr>\<rparr>) j pc"
proof -
  have "ref_ok ca ((fr_res s)\<lparr>gr_Refs := AList.update (platform_key ca i) ref (gr_Refs (fr_res s))\<rparr>) j" if "ref_ok ca (fr_res s) j"
    using that assms(2,3) unfolding ref_ok_def by (cases "platform_key ca j = platform_key ca i") (auto intro: exI [of _ i])
  moreover have "cfg_ok ca ((fr_res s)\<lparr>gr_Refs := rs\<rparr>) j = cfg_ok ca (fr_res s) j" for rs by (simp add: cfg_ok_def)
  ultimately show ?thesis using assms(1) by (cases pc) auto
qed

lemma pc_ok_add_meta:
  assumes "pc_ok ca s j pc" "j \<noteq> i" "i < length (ca_platforms ca)" "platform_result ca i = Inr (ref, cfg)"
  shows "pc_ok ca (s\<lparr>fr_res := (fr_res s)\<lparr>gr_Metadata := AList.update (ExporterImageConfigKey @ ''/'' @ platform_key ca i) cfg (gr_Metadata (fr_res s))\<rparr>,
    fr_exp := (fr_exp s)[i := x]\<rparr>) j pc"
proof -
  have "cfg_ok ca ((fr_res s)\<lparr>gr_Metadata := AList.update (ExporterImageConfigKey @ ''/'' @ platform_key ca i) cfg (gr_Metadata (fr_res s))\<rparr>) j"
    if "cfg_ok ca (fr_res s) j"
    using that assms(3,4) unfolding cfg_ok_def by (cases "platform_key ca j = platform_key ca i") (auto intro: exI [of _ i])
  moreover have "ref_ok ca ((fr_res s)\<lparr>gr_Metadata := rs\<rparr>) j = ref_ok ca (fr_res s) j" for rs by (simp add: ref_ok_def)
  ultimately show ?thesis using assms(1,2) by (cases pc) auto
qed

lemma frontend_inv_init: "frontend_inv ca (frontend_init ca)"
  by (simp add: frontend_inv_def frontend_init_def)

lemma platform_step_active: "frontend_inv ca s \<Longrightarrow> platform_step ca i s = Some s' \<Longrightarrow> fr_waiter s = WWait \<and> i < length (ca_platforms ca)"
  by (auto simp: frontend_inv_def platform_step_def split: if_splits)

lemma platform_step_frame:
  "platform_step ca i s = Some s' \<Longrightarrow> fr_waiter s' = fr_waiter s \<and> length (fr_pcs s') = length (fr_pcs s) \<and> length (fr_exp s') = length (fr_exp s) \<and>
     (fr_main s \<noteq> FSelect \<longrightarrow> fr_main s' = fr_main s)"
  by (auto simp: platform_step_def Let_def split: if_splits platform_pc.splits)

lemma frontend_inv_platform_select:
  assumes inv: "frontend_inv ca s" and main: "fr_main s = FSelect" and step: "platform_step ca i s = Some s'"
  shows "case fr_main s' of
      FSelect \<Rightarrow> \<forall>j < length (ca_platforms ca). pc_ok ca s' j (fr_pcs s' ! j)
    | FReturned (Inl e) \<Rightarrow> error_origin ca e
    | FReturned (Inr r) \<Rightarrow> complete_result ca r"
proof -
  from platform_step_active [OF inv step] have i: "i < length (ca_platforms ca)" ..
  from inv main have len: "length (fr_pcs s) = length (ca_platforms ca)" "length (fr_exp s) = length (ca_platforms ca)"
    and ok: "\<And>j. j < length (ca_platforms ca) \<Longrightarrow> pc_ok ca s j (fr_pcs s ! j)" by (simp_all add: frontend_inv_def)
  note oki = ok [OF i]
  show ?thesis
  proof (cases "fr_pcs s ! i")
    case PResolve
    with step i len main ok show ?thesis by (auto simp: platform_step_def nth_list_update split: sum.split)
  next
    case (PSendResolve e)
    with oki have "platform_result ca i = Inl e" by (simp add: platform_result_def)
    with PSendResolve step i len main show ?thesis by (auto simp: platform_step_def error_origin_def)
  next
    case (PSolve states)
    with oki have "platform_result ca i = ca_solve ca i states" by (simp add: platform_result_def)
    with PSolve step i len main ok show ?thesis by (auto simp: platform_step_def nth_list_update split: sum.split)
  next
    case (PSendSolve e)
    with step i len main oki show ?thesis by (auto simp: platform_step_def error_origin_def)
  next
    case (PAdd ref cfg)
    with oki have r: "platform_result ca i = Inr (ref, cfg)" by simp
    have "ref_ok ca ((fr_res s)\<lparr>gr_Refs := AList.update (platform_key ca i) ref (gr_Refs (fr_res s))\<rparr>) i"
      unfolding ref_ok_def using i r by (auto intro: exI [of _ i])
    with PAdd step i len main pc_ok_add_ref [OF ok i r] r show ?thesis by (auto simp: platform_step_def nth_list_update)
  next
    case (PMeta cfg)
    with oki obtain ref where r: "platform_result ca i = Inr (ref, cfg)" and ref: "ref_ok ca (fr_res s) i" by auto
    let ?r = "(fr_res s)\<lparr>gr_Metadata := AList.update (ExporterImageConfigKey @ ''/'' @ platform_key ca i) cfg (gr_Metadata (fr_res s))\<rparr>"
    have "cfg_ok ca ?r i" unfolding cfg_ok_def using i r by (auto intro: exI [of _ i])
    moreover have "ref_ok ca ?r i" using ref by (simp add: ref_ok_def)
    ultimately show ?thesis using PMeta step i len main pc_ok_add_meta [OF ok _ i r] r by (auto simp: platform_step_def nth_list_update Let_def)
  next
    case PDone
    with step i len show ?thesis by (simp add: platform_step_def)
  qed
qed

lemma frontend_inv_platform:
  assumes inv: "frontend_inv ca s" and step: "platform_step ca i s = Some s'"
  shows "frontend_inv ca s'"
proof (cases "fr_main s = FSelect")
  case True
  from frontend_inv_platform_select [OF inv True step] platform_step_frame [OF step] platform_step_active [OF inv step] inv
  show ?thesis by (cases "fr_main s'") (auto simp: frontend_inv_def)
next
  case False
  with platform_step_frame [OF step] platform_step_active [OF inv step] inv show ?thesis
    by (cases "fr_main s") (auto simp: frontend_inv_def)
qed

lemma frontend_result_complete:
  assumes "frontend_inv ca s" "fr_main s = FSelect" "\<forall>i < length (ca_platforms ca). fr_pcs s ! i = PDone"
  shows "case frontend_result ca s of Inl e \<Rightarrow> error_origin ca e | Inr r \<Rightarrow> complete_result ca r"
proof -
  from assms have ok: "\<forall>i < length (ca_platforms ca). pc_ok ca s i PDone" and len: "length (fr_exp s) = length (ca_platforms ca)"
    by (auto simp: frontend_inv_def)
  then have exp: "fr_exp s = map (\<lambda>pl. (ca_key ca pl, pl)) (ca_platforms ca)" by (intro nth_equalityI) auto
  show ?thesis
  proof (cases "ca_json ca (fr_exp s)")
    case (Inl e)
    then show ?thesis by (simp add: frontend_result_def error_origin_def exp)
  next
    case (Inr dt)
    let ?r = "(fr_res s)\<lparr>gr_Metadata := AList.update ExporterPlatformsKey dt (gr_Metadata (fr_res s))\<rparr>"
    have "ref_ok ca ?r i = ref_ok ca (fr_res s) i" "cfg_ok ca ?r i = cfg_ok ca (fr_res s) i" for i
      by (simp_all add: ref_ok_def cfg_ok_def)
    then show ?thesis using ok Inr exp by (simp add: frontend_result_def complete_result_def)
  qed
qed

lemma frontend_inv_waiter:
  assumes inv: "frontend_inv ca s" and step: "waiter_step ca s = Some s'"
  shows "frontend_inv ca s'"
proof (cases "fr_waiter s")
  case WWait
  with inv step show ?thesis
    by (auto simp: frontend_inv_def waiter_step_def list_all_length split: if_splits frontend_pc.splits sum.splits)
next
  case WSend
  with step have main: "fr_main s = FSelect" and s': "s' = s\<lparr>fr_waiter := WEnd, fr_main := FReturned (frontend_result ca s)\<rparr>"
    by (auto simp: waiter_step_def split: if_splits)
  from WSend inv have "\<forall>i < length (ca_platforms ca). fr_pcs s ! i = PDone" by (simp add: frontend_inv_def)
  with frontend_result_complete [OF inv main this] inv show ?thesis by (auto simp: frontend_inv_def s' split: sum.splits)
qed (use step in \<open>simp add: waiter_step_def\<close>)

lemma frontend_inv_reachable: "frontend_reachable ca s \<Longrightarrow> frontend_inv ca s"
proof (induction rule: frontend_reachable.induct)
  case (step s s')
  from step.hyps(2) show ?case
    by (cases rule: frontend_step.cases)
       (auto simp: frontend_apply_def split: option.splits intro: frontend_inv_waiter [OF step.IH] frontend_inv_platform [OF step.IH])
qed (rule frontend_inv_init)

lemma frontend_run_reachable: "frontend_run ca evs s = Some s' \<Longrightarrow> frontend_reachable ca s \<Longrightarrow> frontend_reachable ca s'"
  by (induction ca evs s rule: frontend_run.induct)
     (auto split: option.splits intro: frontend_reachable.step frontend_step.intros)

lemma complete_result_distinct:
  assumes r: "complete_result ca r" and d: "distinct (map (ca_key ca) (ca_platforms ca))" and i: "i < length (ca_platforms ca)"
  shows "\<exists>ref cfg. platform_result ca i = Inr (ref, cfg) \<and> map_of (gr_Refs r) (platform_key ca i) = Some ref \<and>
    map_of (gr_Metadata r) (ExporterImageConfigKey @ ''/'' @ platform_key ca i) = Some cfg"
proof -
  have same: "j = i" if "j < length (ca_platforms ca)" "platform_key ca j = platform_key ca i" for j
    using nth_eq_iff_index_eq [OF d, of j i] that i by simp
  from r i have "ref_ok ca r i" "cfg_ok ca r i" by (auto simp: complete_result_def)
  then show ?thesis unfolding ref_ok_def cfg_ok_def using same by (metis Inr_inject prod.inject)
qed

text \<open>
  C8. The frontend returns a result only when every platform of the build was resolved and solved; the result then has, for every platform,
  the reference and the configuration of that platform (of one with the same name, when two have one), and the list of the platforms in the order of
  the request. An error that it returns is the error of one of the platforms, or of encoding that list. This holds in every interleaving.
\<close>

theorem frontend_complete:
  assumes "frontend_reachable (frontend_calls_of env b c orders) s" and "fr_main s = FReturned out"
    and "name_of = (\<lambda>pl. fe_FormatAll env (fe_Normalize env pl))"
  shows "case out of
      Inr r \<Rightarrow>
        complete_result (frontend_calls_of env b c orders) r \<and>
        (distinct (map name_of (bo_Platforms b)) \<longrightarrow>
          (\<forall>i < length (bo_Platforms b). \<exists>st ref cfg.
             resolveStates env b (bo_Platforms b ! i) (orders i) = Inr st \<and> solvePlatform env b (bo_Platforms b ! i) c st = Inr (ref, cfg) \<and>
             map_of (gr_Refs r) (name_of (bo_Platforms b ! i)) = Some ref \<and>
             map_of (gr_Metadata r) (ExporterImageConfigKey @ ''/'' @ name_of (bo_Platforms b ! i)) = Some cfg)) \<and>
        (\<exists>dt. fe_json_Platforms env (map (\<lambda>pl. (name_of pl, pl)) (bo_Platforms b)) = Inr dt \<and> map_of (gr_Metadata r) ExporterPlatformsKey = Some dt)
    | Inl e \<Rightarrow>
        (\<exists>i < length (bo_Platforms b). res_bind (resolveStates env b (bo_Platforms b ! i) (orders i)) (solvePlatform env b (bo_Platforms b ! i) c) = Inl e) \<or>
        fe_json_Platforms env (map (\<lambda>pl. (name_of pl, pl)) (bo_Platforms b)) = Inl e"
proof -
  let ?ca = "frontend_calls_of env b c orders"
  have ca: "ca_platforms ?ca = bo_Platforms b" "ca_key ?ca = name_of" "ca_json ?ca = fe_json_Platforms env" by (simp_all add: frontend_calls_of_def assms(3))
  have res: "platform_result ?ca i =
      res_bind (resolveStates env b (bo_Platforms b ! i) (orders i)) (solvePlatform env b (bo_Platforms b ! i) c)" for i
    by (simp add: platform_result_def frontend_calls_of_def)
  note inv = frontend_inv_reachable [OF assms(1)]
  show ?thesis
  proof (cases out)
    case (Inl e)
    with inv assms(2) show ?thesis by (simp add: frontend_inv_def error_origin_def ca res)
  next
    case (Inr r)
    with inv assms(2) have r: "complete_result ?ca r" by (simp add: frontend_inv_def)
    note d = complete_result_distinct [OF r, unfolded ca res result_simps]
    from r have "\<exists>dt. fe_json_Platforms env (map (\<lambda>pl. (name_of pl, pl)) (bo_Platforms b)) = Inr dt \<and> map_of (gr_Metadata r) ExporterPlatformsKey = Some dt"
      unfolding complete_result_def ca by blast
    with r d show ?thesis unfolding Inr sum.case by blast
  qed
qed

fun pc_weight :: "platform_pc \<Rightarrow> nat" where
  "pc_weight PResolve = 6"
| "pc_weight (PSendResolve e) = 5"
| "pc_weight (PSolve states) = 4"
| "pc_weight (PSendSolve e) = 3"
| "pc_weight (PAdd ref cfg) = 3"
| "pc_weight (PMeta cfg) = 2"
| "pc_weight PDone = 0"

fun waiter_weight :: "waiter_pc \<Rightarrow> nat" where
  "waiter_weight WWait = 2"
| "waiter_weight WSend = 1"
| "waiter_weight WEnd = 0"

definition frontend_measure :: "frontend_state \<Rightarrow> nat" where
  "frontend_measure s = sum_list (map pc_weight (fr_pcs s)) + waiter_weight (fr_waiter s)"

lemma sum_list_update_less: "i < length xs \<Longrightarrow> f y < f (xs ! i) \<Longrightarrow> sum_list (map f (xs[i := y])) < sum_list (map f xs)" for f :: "'a \<Rightarrow> nat"
proof (induction xs arbitrary: i)
  case (Cons x xs)
  then show ?case by (cases i) auto
qed simp

lemma frontend_step_measure:
  assumes "frontend_step ca s s'"
  shows "frontend_measure s' < frontend_measure s"
proof -
  from assms obtain ev where "frontend_apply ca ev s = Some s'" by cases
  then consider "waiter_step ca s = Some s'" | i where "platform_step ca i s = Some s'" by (auto simp: frontend_apply_def split: option.splits)
  then show ?thesis
  proof cases
    case 1
    then show ?thesis by (auto simp: waiter_step_def frontend_measure_def split: waiter_pc.splits if_splits)
  next
    case (2 i)
    then obtain pc where i: "i < length (fr_pcs s)" and pcs: "fr_pcs s' = (fr_pcs s)[i := pc]" "pc_weight pc < pc_weight (fr_pcs s ! i)"
      by (cases "fr_pcs s ! i") (auto simp: platform_step_def Let_def split: if_splits sum.splits)
    from sum_list_update_less [of i "fr_pcs s" pc_weight pc, OF i pcs(2)] platform_step_frame [OF 2]
    show ?thesis by (simp add: frontend_measure_def pcs(1))
  qed
qed

lemma frontend_progress:
  assumes "frontend_inv ca s" "fr_main s = FSelect"
  shows "\<exists>s'. frontend_step ca s s'"
proof (cases "\<exists>i < length (fr_pcs s). fr_pcs s ! i \<noteq> PDone")
  case True
  then obtain i where "i < length (fr_pcs s)" "fr_pcs s ! i \<noteq> PDone" by blast
  then have "\<exists>s'. platform_step ca i s = Some s'" using assms(2) by (cases "fr_pcs s ! i") (simp_all add: platform_step_def Let_def)
  then show ?thesis using frontend_step.intros [of ca "Some i" s] by (auto simp: frontend_apply_def)
next
  case False
  then have "\<exists>s'. waiter_step ca s = Some s'" using assms by (auto simp: waiter_step_def frontend_inv_def list_all_length split: waiter_pc.split)
  then show ?thesis using frontend_step.intros [of ca None s] by (auto simp: frontend_apply_def)
qed

text \<open>
  C21. The frontend always returns: every step of a goroutine lowers a bound, and as long as it waits for the platforms some goroutine can
  take a step. It does not wait for its goroutines, though: once it has returned an error of a platform, the goroutine that waits for the others stays blocked on its
  channel, or never gets there.
\<close>

theorem frontend_returns:
  "(frontend_step ca s s' \<longrightarrow> frontend_measure s' < frontend_measure s) \<and>
   (frontend_reachable ca s \<and> fr_main s = FSelect \<longrightarrow> (\<exists>s1. frontend_step ca s s1)) \<and>
   (frontend_step ca s s' \<and> fr_main s \<noteq> FSelect \<and> fr_waiter s \<noteq> WEnd \<longrightarrow> fr_main s' = fr_main s \<and> fr_waiter s' \<noteq> WEnd)"
proof -
  have "fr_main s' = fr_main s \<and> fr_waiter s' \<noteq> WEnd" if "frontend_step ca s s'" "fr_main s \<noteq> FSelect" "fr_waiter s \<noteq> WEnd"
  proof -
    from that(1) obtain ev where "frontend_apply ca ev s = Some s'" by cases
    then show ?thesis using that(2,3)
      by (auto simp: frontend_apply_def waiter_step_def split: option.splits waiter_pc.splits if_splits dest: platform_step_frame)
  qed
  then show ?thesis using frontend_step_measure frontend_progress frontend_inv_reachable by blast
qed

text \<open>A build check succeeds exactly when the linter ran without an error and without a warning.\<close>

lemma checkBuild_ok:
  assumes "bo_Platforms opts = pl # pls"
  shows "fst (checkBuild env opts c order) = Inr res \<longleftrightarrow>
    (\<exists>results. checkPlatform env opts pl c order = Inr (results, res) \<and> lint_Warnings results = [] \<and> lint_Error results = None)"
  by (auto simp: checkBuild_def assms split: sum.splits prod.splits)

lemma metadata_only_build:
  \<comment> \<open>a solve without a reference but with an image configuration is repeated on the marker layer\<close>
  assumes "dockerfileConvertOpt env opts pl c states = Inr (co, fo, fi)" "fe_Dockerfile2LLB env (bo_Dockerfile opts) co = Inr result"
    and "lr_Marshal result = Inr def" "lr_GetPlatform result = Inr ()" "client_Solve c def fo fi = Inr None" "lr_Image result = Some img"
    and "fe_Marshal env (metadataOnlyState pl) = Inr layer" "client_Solve c layer fo fi = Inr (Some r)" "fe_ToState env r = Inr ()"
  shows "solvePlatform env opts pl c states = res_bind (fe_json_Image env (Some img)) (\<lambda>cfg. Inr (r, cfg))"
  using assms by (simp add: solvePlatform_def)

section \<open>A concrete frontend\<close>

fun demo_reference :: "string \<Rightarrow> goerr + image_ref" where
  "demo_reference nm = Inr \<lparr>rf_String = ''docker.io/library/'' @ nm, rf_Digested = False\<rparr>"
fun demo_familiar :: "string \<Rightarrow> goerr + string" where
  "demo_familiar s = Inr (TrimPrefix s ''docker.io/library/'')"
fun demo_stage :: "stage list \<Rightarrow> string \<Rightarrow> nat option" where
  "demo_stage [] nm = None"
| "demo_stage (st # sts) nm = (if sg_Name st = nm then Some 0 else map_option Suc (demo_stage sts nm))"
fun demo_image_host :: round_trip where
  "demo_image_host p = Inr \<lparr>cs_build_id = ss_build_id p, cs_packet = CImageTransfer (empty_image_transfer\<lparr>it_tag := ''sha256:1'', it_data := ''cfg''\<rparr>)\<rparr>"
fun demo_uuid :: "string \<Rightarrow> platform \<Rightarrow> string" where "demo_uuid nm p = ''u''"
fun demo_marshal :: "llb_state \<Rightarrow> goerr + bytes" where "demo_marshal st = Inr ''def''"
fun demo_definition :: "bytes \<Rightarrow> goerr + bytes" where "demo_definition d = Inr d"
fun demo_entrypoint :: "string \<Rightarrow> goerr + bytes option option" where "demo_entrypoint f = Inr (Some (Some ''map''))"
fun demo_client :: "smap \<Rightarrow> goerr + ui_client" where
  "demo_client opts = Inr \<lparr>ui_ReadEntrypoint = demo_entrypoint, ui_ExtraHosts = [], ui_NetworkMode = [], ui_ShmSize = [], ui_Ulimits = []\<rparr>"
fun demo_convert :: "bytes \<Rightarrow> convert_opt \<Rightarrow> goerr + llb_result" where
  "demo_convert d co = Inr \<lparr>lr_Marshal = Inr ''llb'', lr_GetPlatform = Inr (), lr_Image = Some ''img''\<rparr>"
fun demo_lint :: "bytes \<Rightarrow> convert_opt \<Rightarrow> goerr + lint_results" where
  "demo_lint d co = Inr \<lparr>lint_Warnings = [], lint_Error = None, lint_ToResult = Inr []\<rparr>"
fun demo_print :: "lint_results \<Rightarrow> string" where "demo_print r = []"
fun demo_ref_state :: "string \<Rightarrow> goerr + unit" where "demo_ref_state r = Inr ()"
fun demo_image_json :: "bytes option \<Rightarrow> goerr + bytes" where "demo_image_json d = Inr ''json''"
fun demo_platforms_json :: "(string \<times> platform) list \<Rightarrow> goerr + bytes" where "demo_platforms_json ps = Inr ''platforms''"
fun demo_solve_call :: "solve_request \<Rightarrow> goerr + goerr + string option" where "demo_solve_call r = Inr (Inr (Some ''ref''))"

definition demo_fe :: frontend_ext where
  "demo_fe = \<lparr>fe_build = demo_ext, fe_ParseAnyReference = demo_reference, fe_ErrObjectRequired = External ''object required'',
     fe_FamiliarString = demo_familiar, fe_Format = demo_format, fe_FormatAll = demo_format, fe_Normalize = (\<lambda>p. p), fe_HasStage = demo_stage,
     fe_rt = demo_image_host, fe_uuid = demo_uuid, fe_Marshal = demo_marshal, fe_NewDefinitionOp = demo_definition, fe_NewClient = demo_client,
     fe_Dockerfile2LLB = demo_convert, fe_DockerfileLint = demo_lint, fe_PrintError = demo_print, fe_ToState = demo_ref_state,
     fe_json_Image = demo_image_json, fe_json_Platforms = demo_platforms_json\<rparr>"

definition demo_gateway :: gateway_client where
  "demo_gateway = \<lparr>gc_Opts = [(''context:alpine'', ''docker-image://mine'')], gc_Inputs = Inr [], gc_Solve = demo_solve_call\<rparr>"

abbreviation demo_pl :: platform where "demo_pl \<equiv> linux_platform ''arm64'' ''v8''"

lemma demo_entry: "\<exists>v. source_entry demo_fe ''alpine'' demo_pl = Inr (Some (''alpine::linux/arm64'', v))"
proof -
  have "case source_entry demo_fe ''alpine'' demo_pl of Inr (Some (k, _)) \<Rightarrow> k = ''alpine::linux/arm64'' | _ \<Rightarrow> False" by code_simp
  then show ?thesis by (auto split: sum.splits option.splits)
qed

abbreviation demo_stages :: "stage list" where
  "demo_stages \<equiv> [\<lparr>sg_Name = [], sg_BaseName = ''alpine'', sg_Platform = [], sg_Commands = [CopyCommand []]\<rparr>]"

lemma demo_stage_source:
  "bo_BuildPlatforms b \<noteq> [] \<Longrightarrow> stage_source demo_fe b esc demo_stages demo_pl 0 = Inr (Some (''alpine'', demo_pl))"
  by (auto simp: stage_source_def demo_fe_def demo_ext_def resolvedStagePlatform_def Let_def neq_Nil_conv)

lemma demo_needed:
  "bo_BuildPlatforms b \<noteq> [] \<Longrightarrow> needed_sources demo_fe b esc demo_stages demo_pl = [(''alpine'', demo_pl)]"
  by (simp add: needed_sources_def demo_stage_source map_filter_simps copy_source_def)


lemma demo_convert_total: "\<exists>co fo fi. dockerfileConvertOpt demo_fe b pl demo_gateway states = Inr (co, fo, fi)"
proof -
  have "\<exists>fo fi. states_loop demo_fe states x = Inr (fo, fi)" for x
  proof (induction states arbitrary: x)
    case (Cons kv rest)
    then show ?case by (cases kv; cases x) (simp add: demo_fe_def Let_def)
  qed (metis surj_pair states_loop.simps(1))
  then obtain fo fi where "states_loop demo_fe states
      (go_put_all (dockerfileFrontendAttrs b) [(''local.metadatatransfer'', ''false''), (''local.differ'', ''none'')], []) = Inr (fo, fi)" by blast
  then show ?thesis by (simp add: dockerfileConvertOpt_def Let_def) (simp add: demo_fe_def setDockerfileSourceMap_def)
qed

theorem dockerfileConvertOpt_exact_witness:
  "\<exists>b co fo fi. NewBuildOpts demo_ext ''/base'' demo_md = Inr b \<and>
     dockerfileConvertOpt demo_fe b demo_pl demo_gateway
       [(''alpine::linux/arm64'', \<lparr>sm_state = OCILayout ''alpine@1'' ''container'' demo_pl, sm_imgMeta = ''m''\<rparr>)] = Inr (co, fo, fi) \<and>
     map_of (frontendClient_BuildOpts \<lparr>fc_Client = demo_gateway, fc_frontendOpt = fo, fc_frontendInputs = fi\<rparr>) ''context:alpine'' =
       Some ''input:alpine::linux/arm64''"
proof -
  let ?v = "\<lparr>sm_state = OCILayout ''alpine@1'' ''container'' demo_pl, sm_imgMeta = ''m''\<rparr>"
  obtain b where b: "NewBuildOpts demo_ext ''/base'' demo_md = Inr b" "bo_BuildContexts b = []" using demo_opts_ok by blast
  obtain co fo fi where co: "dockerfileConvertOpt demo_fe b demo_pl demo_gateway [(''alpine::linux/arm64'', ?v)] = Inr (co, fo, fi)"
    using demo_convert_total by blast
  have "\<not> go_has (gc_Opts demo_gateway) (''context:'' @ ''alpine::linux/arm64'')"
    "cut_at ''::'' (''context:'' @ ''alpine::linux/arm64'') = Some (''context:'' @ ''alpine'', ''linux/arm64'')" by code_simp+
  from dockerfileConvertOpt_exact [OF b(1) co _ _ this _ refl, of ?v] b(2)
  have "map_of (frontendClient_BuildOpts \<lparr>fc_Client = demo_gateway, fc_frontendOpt = fo, fc_frontendInputs = fi\<rparr>) ''context:alpine'' =
       Some ''input:alpine::linux/arm64''" by auto
  with b co show ?thesis by blast
qed

lemma demo_resolve: "bo_BuildPlatforms b \<noteq> [] \<Longrightarrow> \<exists>states. resolveStates demo_fe b demo_pl [0] = Inr states"
proof -
  assume bp: "bo_BuildPlatforms b \<noteq> []"
  obtain v where v: "source_entry demo_fe ''alpine'' demo_pl = Inr (Some (''alpine::linux/arm64'', v))" using demo_entry by blast
  define df where "df = projr (demo_parse [])"
  have "be_parser_Parse (fe_build demo_fe) (bo_Dockerfile b) = Inr df"
    "be_instructions_Parse (fe_build demo_fe) df = Inr (demo_stages, [[(''A'', ''1''), (''B'', ''2'')]])" "set [0] = {..<length demo_stages}"
    by (auto simp: demo_fe_def demo_ext_def df_def)
  from resolveStates_run [OF this, of demo_pl] v demo_stage_source [OF bp]
  have "is_ok (resolveStates demo_fe b demo_pl [0])" by (simp add: map_filter_simps copy_source_def stage_entry_def)
  then show ?thesis by (auto simp: is_ok_def split: sum.splits)
qed

lemma demo_platform_solved: "solvePlatform demo_fe b demo_pl demo_gateway states = Inr (''ref'', ''json'')"
proof -
  obtain co fo fi where "dockerfileConvertOpt demo_fe b demo_pl demo_gateway states = Inr (co, fo, fi)" using demo_convert_total by blast
  then show ?thesis by (simp add: solvePlatform_def client_Solve_def) (simp add: demo_fe_def demo_gateway_def)
qed

definition demo_frontend :: "BOpts \<Rightarrow> frontend_calls" where
  "demo_frontend b = frontend_calls_of demo_fe b demo_gateway (\<lambda>_. [0])"

lemma demo_frontend_run:
  assumes "bo_Platforms b = [demo_pl]" "bo_BuildPlatforms b \<noteq> []"
  shows "\<exists>s r. frontend_run (demo_frontend b) [Some 0, Some 0, Some 0, Some 0, None, None] (frontend_init (demo_frontend b)) = Some s \<and>
    fr_main s = FReturned (Inr r)"
proof -
  obtain states where "resolveStates demo_fe b demo_pl [0] = Inr states" using demo_resolve [OF assms(2)] by blast
  then have calls: "ca_platforms (demo_frontend b) = [demo_pl]" "ca_resolve (demo_frontend b) 0 = Inr states"
    "ca_solve (demo_frontend b) 0 states = Inr (''ref'', ''json'')" "ca_json (demo_frontend b) ps = Inr ''platforms''" for ps
    using assms(1) demo_platform_solved by (simp_all add: demo_frontend_def frontend_calls_of_def) (simp add: demo_fe_def)
  then show ?thesis
    by (simp add: frontend_init_def frontend_apply_def platform_step_def waiter_step_def frontend_result_def Let_def)
qed

theorem frontend_complete_witness:
  "\<exists>b s r. NewBuildOpts demo_ext ''/base'' demo_md = Inr b \<and> frontend_reachable (demo_frontend b) s \<and> fr_main s = FReturned (Inr r) \<and>
     map_of (gr_Refs r) ''linux/arm64'' = Some ''ref''"
proof -
  obtain b where b: "NewBuildOpts demo_ext ''/base'' demo_md = Inr b" "bo_Platforms b = [demo_pl]" using demo_opts_ok by blast
  from NewBuildOpts_opts_wf [OF b(1)] have bp: "bo_BuildPlatforms b \<noteq> []" by (simp add: opts_wf_def)
  from demo_frontend_run [OF b(2) bp] obtain s r where run: "frontend_run (demo_frontend b) [Some 0, Some 0, Some 0, Some 0, None, None]
      (frontend_init (demo_frontend b)) = Some s" and r: "fr_main s = FReturned (Inr r)" by blast
  have s: "frontend_reachable (demo_frontend b) s" by (rule frontend_run_reachable [OF run frontend_reachable.start])
  have nm: "fe_FormatAll demo_fe (fe_Normalize demo_fe demo_pl) = ''linux/arm64''" by code_simp
  from frontend_complete [OF s [unfolded demo_frontend_def] r refl] demo_platform_solved [of b]
  have "map_of (gr_Refs r) ''linux/arm64'' = Some ''ref''" by (auto simp: b(2) nm)
  with b s r show ?thesis by blast
qed

theorem frontend_returns_witness:
  "\<exists>b s1. NewBuildOpts demo_ext ''/base'' demo_md = Inr b \<and> frontend_step (demo_frontend b) (frontend_init (demo_frontend b)) s1 \<and>
     frontend_measure s1 < frontend_measure (frontend_init (demo_frontend b))"
proof -
  obtain b where b: "NewBuildOpts demo_ext ''/base'' demo_md = Inr b" using demo_opts_ok by blast
  have "fr_main (frontend_init (demo_frontend b)) = FSelect" by (simp add: frontend_init_def)
  with frontend_returns [of "demo_frontend b" "frontend_init (demo_frontend b)"] frontend_reachable.start
  obtain s1 where "frontend_step (demo_frontend b) (frontend_init (demo_frontend b)) s1" by blast
  with b frontend_returns [of "demo_frontend b" "frontend_init (demo_frontend b)" s1] show ?thesis by blast
qed

end
