(* ===== verification/Server_Main.thy ===== *)
theory Server_Main
  imports Build_Frontend Tar_Receive
begin

text \<open>
  The gRPC service, the BuildKit daemon and the command (\<open>pkg/server\<close>, \<open>pkg/buildkit\<close>,
  \<open>main.go\<close>): the lookup of a cached context, the handler of a build, the listener, the configuration and the environment that
  the daemon is started with, and the preparation of the socket. The TOML encoder, the process and the
  sockets are parameters; the gRPC server, flag parsing, signals and logging are not modelled.
\<close>

section \<open>The service\<close>

record BuilderProxy =
  bp_path :: string

datatype status_code = InvalidArgument | Internal

definition LookupContext :: "BuilderProxy \<Rightarrow> string \<Rightarrow> fs \<Rightarrow> (status_code + bool) \<times> fs" where
  "LookupContext b digest fs =
     (case CachedContextPresent (path_Join [bp_path b, ''fssync'']) digest fs of
        (Inl e, fs') \<Rightarrow> (if e = ErrInvalidContextDigest then Inl InvalidArgument else Inl Internal, fs')
      | (Inr present, fs') \<Rightarrow> (Inr present, fs'))"

text \<open>
  The handler of a build, with the metadata of the stream, if any. The pipeline that it starts beside the build is
  \<open>NewPipeline\<close> on the four stages whose filters are \<open>build_filters\<close>.
\<close>

definition PerformBuild :: "build_ext \<Rightarrow> solve_ext \<Rightarrow> string list \<Rightarrow> BuilderProxy \<Rightarrow> metadata option \<Rightarrow> unit io" where
  "PerformBuild ext sx rnd b incoming =
     (case incoming of
        None \<Rightarrow> io_fail (ServerError ErrMetadataMissing)
      | Some md \<Rightarrow> io_bind (io_lift (NewBuildOpts ext (bp_path b) md)) (\<lambda>opts. Build sx rnd opts))"

definition build_pipeline :: "ctx_env \<Rightarrow> BOpts \<Rightarrow> stdio_env \<Rightarrow> pipeline \<times> filter_fn list" where
  "build_pipeline ctx opts io = (NewPipeline ctx 4, build_filters io (bo_Stdio opts))"

section \<open>The listener\<close>

record SocketConfig =
  sk_Port :: "32 word"
  sk_SocketPath :: string
  sk_SocketType :: string

record server_env =
  sv_Listen :: "string \<Rightarrow> goerr + unit"
  sv_vsock_Listen :: "32 word \<Rightarrow> nat \<Rightarrow> goerr + unit" \<comment> \<open>the outcome of each attempt\<close>
  sv_Serve :: "goerr option"

text \<open>\<open>n\<close> attempts are left, \<open>i\<close> were made; the error is that of the last attempt.\<close>

fun vsock_loop :: "(nat \<Rightarrow> goerr + 'l) \<Rightarrow> nat \<Rightarrow> nat \<Rightarrow> goerr \<Rightarrow> goerr + 'l" where
  "vsock_loop try_listen 0 i err = Inl err"
| "vsock_loop try_listen (Suc n) i err =
     (case try_listen i of Inl e \<Rightarrow> vsock_loop try_listen n (Suc i) e | Inr l \<Rightarrow> Inr l)"

definition listenVSock :: "server_env \<Rightarrow> 32 word \<Rightarrow> goerr + unit" where
  "listenVSock env port = vsock_loop (sv_vsock_Listen env port) 1000 0 (Errorf [])"

definition Run_listen :: "server_env \<Rightarrow> SocketConfig \<Rightarrow> goerr + unit" where
  "Run_listen env cfg =
     (if sk_SocketType cfg = ''unix'' then sv_Listen env (sk_SocketPath cfg)
      else if sk_SocketType cfg = ''vsock'' then listenVSock env (sk_Port cfg)
      else Inl (Errorf (''unknown socket type: '' @ sk_SocketType cfg)))"

text \<open>\<open>Run\<close> returns what \<open>Serve\<close> returns: nothing sends on the exit channel.\<close>

definition Run :: "server_env \<Rightarrow> SocketConfig \<Rightarrow> goerr option" where
  "Run env cfg = (case Run_listen env cfg of Inl e \<Rightarrow> Some e | Inr _ \<Rightarrow> sv_Serve env)"

section \<open>The configuration of the daemon\<close>

record GCPolicyRule =
  gcp_Filters :: "string list"
  gcp_KeepDuration :: "int option"
  gcp_KeepBytes :: "int option"
  gcp_All :: bool

record OCIWorkerConfig =
  oc_Enabled :: bool
  oc_RuncBinaryPath :: string
  oc_GC :: bool
  oc_GCKeepStorage :: "int option"
  oc_GCPolicy :: "GCPolicyRule list"

record DNSConfig =
  dns_Nameservers :: "string list"
  dns_Options :: "string list"
  dns_SearchDomains :: "string list"

record BuildkitdConfig =
  bc_Debug :: bool
  bc_Trace :: bool
  bc_Worker :: "OCIWorkerConfig option option" \<comment> \<open>the worker section and its OCI section, either may be nil\<close>
  bc_Registry :: "(string \<times> string list) list" \<comment> \<open>the mirrors of each registry\<close>
  bc_DebugAddress :: "string option" \<comment> \<open>the gRPC section, may be nil\<close>
  bc_DNS :: "DNSConfig option"

abbreviation ConfigPath :: string where "ConfigPath \<equiv> ''/etc/buildkit/buildkitd.toml''"

definition DefaultBuildkitdConfig :: BuildkitdConfig where
  "DefaultBuildkitdConfig =
     \<lparr>bc_Debug = False, bc_Trace = False,
      bc_Worker = Some (Some \<lparr>oc_Enabled = True, oc_RuncBinaryPath = ''/usr/bin/buildkit-runc'', oc_GC = True,
        oc_GCKeepStorage = Some (2 ^ 35), oc_GCPolicy = []\<rparr>),
      bc_Registry = [], bc_DebugAddress = Some [], bc_DNS = None\<rparr>"

definition Save :: "(BuildkitdConfig \<Rightarrow> goerr + bytes) \<Rightarrow> BuildkitdConfig \<Rightarrow> unit io" where
  "Save toml_Marshal bc =
     io_bind (io_lift (toml_Marshal bc)) (\<lambda>dat. io_then (sys_MkdirAll (path_Dir ConfigPath)) (sys_WriteFile ConfigPath dat 420))"

section \<open>Starting the daemon\<close>

definition buildkitd_argv :: "string list \<Rightarrow> string \<times> string list" where
  "buildkitd_argv args =
     (let binary = (case args of [] \<Rightarrow> [] | a # _ \<Rightarrow> a);
          binary = (if binary = [] then ''/usr/bin/buildkitd'' else binary)
      in (binary, if args = [] then [binary] else args))"

abbreviation standard_path :: string where "standard_path \<equiv> ''/sbin:/usr/sbin:/bin:/usr/bin''"

definition env_entry :: "string \<Rightarrow> string" where
  "env_entry env =
     (case SplitN2 env ''='' of
        [k, v] \<Rightarrow> k @ ''='' @ (if EqualFold k ''PATH'' then v @ '':'' @ standard_path else v)
      | k # _ \<Rightarrow> k @ ''='' @ (if EqualFold k ''PATH'' then '':'' @ standard_path else [])
      | [] \<Rightarrow> [])"

definition buildkitd_env :: "string list \<Rightarrow> string list" where
  "buildkitd_env environ = (let envs = map env_entry environ in if envs = [] then [''PATH='' @ standard_path] else envs)"

record start_env =
  se_toml_Marshal :: "BuildkitdConfig \<Rightarrow> goerr + bytes"
  se_Environ :: "string list"
  se_StartProcess :: "string \<Rightarrow> string list \<Rightarrow> string list \<Rightarrow> goerr + unit"
  se_ctx_done :: "goerr option" \<comment> \<open>the error of the context, once it is done\<close>
  se_Wait :: "goerr option option" \<comment> \<open>the error of the wait, once the process has ended\<close>

text \<open>The alternatives of the final \<open>select\<close>.\<close>

definition Start :: "start_env \<Rightarrow> BuildkitdConfig \<Rightarrow> string list \<Rightarrow> goerr option outcomes io" where
  "Start env config args =
     io_then (Save (se_toml_Marshal env) config)
       (case buildkitd_argv args of (binary, argv) \<Rightarrow>
          io_bind (io_lift (se_StartProcess env binary argv (buildkitd_env (se_Environ env)))) (\<lambda>_.
            io_return (alt_if (se_ctx_done env \<noteq> None) [se_ctx_done env] @ (case se_Wait env of None \<Rightarrow> [] | Some r \<Rightarrow> [r]))))"

section \<open>The command\<close>

record flags =
  fl_debug :: bool
  fl_enableQemu :: bool
  fl_socketPath :: string
  fl_buildkitdPath :: string
  fl_basePath :: string
  fl_registryMirrors :: "string list"
  fl_dnsNameservers :: "string list"
  fl_dnsOptions :: "string list"
  fl_dnsSearch :: "string list"
  fl_vsockPort :: int
  fl_vsockMode :: bool

definition default_flags :: flags where
  "default_flags =
     \<lparr>fl_debug = False, fl_enableQemu = False, fl_socketPath = ''/run/buildkit/shim.sock'', fl_buildkitdPath = ''/usr/bin/buildkitd'',
      fl_basePath = ''/var/lib/container-builder-shim'', fl_registryMirrors = [], fl_dnsNameservers = [], fl_dnsOptions = [],
      fl_dnsSearch = [], fl_vsockPort = 8088, fl_vsockMode = False\<rparr>"

definition prepareUnixSocket :: "string \<Rightarrow> unit io" where
  "prepareUnixSocket socketPath = io_then (sys_MkdirAll (path_Dir socketPath)) (sys_RemoveAll socketPath)"

text \<open>The result tells whether the profiling endpoint is started.\<close>

definition PersistentPreRunE :: "flags \<Rightarrow> bool io" where
  "PersistentPreRunE fl =
     (if \<not> fl_vsockMode fl then io_then (prepareUnixSocket (fl_socketPath fl)) (io_return False) else io_return (fl_debug fl))"

definition parseRegistryMirror :: "string \<Rightarrow> goerr + string \<times> string" where
  "parseRegistryMirror spec =
     (case Cut spec ''='' of (key, val, ok) \<Rightarrow>
        if \<not> ok then Inl (Errorf (''invalid registry mirror specification: '' @ spec))
        else if key = [] then Inl (Errorf (''invalid registry mirror specification: '' @ spec))
        else Inr (key, val))"

fun registry_loop :: "string list \<Rightarrow> (string \<times> string list) list \<Rightarrow> goerr + (string \<times> string list) list" where
  "registry_loop [] reg = Inr reg"
| "registry_loop (rm # rms) reg =
     res_bind (parseRegistryMirror rm) (\<lambda>(key, val).
       registry_loop rms (AList.update key ((case map_of reg key of None \<Rightarrow> [] | Some rc \<Rightarrow> rc) @ [val]) reg))"

definition config_of :: "flags \<Rightarrow> (string \<times> string list) list \<Rightarrow> goerr + string \<Rightarrow> BuildkitdConfig" where
  "config_of fl reg lookPath =
     (let config = DefaultBuildkitdConfig\<lparr>bc_Registry := reg\<rparr>;
          config = (if fl_dnsNameservers fl \<noteq> [] \<or> fl_dnsOptions fl \<noteq> [] \<or> fl_dnsSearch fl \<noteq> []
            then config\<lparr>bc_DNS := Some \<lparr>dns_Nameservers = fl_dnsNameservers fl, dns_Options = fl_dnsOptions fl,
                   dns_SearchDomains = fl_dnsSearch fl\<rparr>\<rparr> else config);
          config = (if fl_debug fl then config\<lparr>bc_Debug := True, bc_DebugAddress := Some ''127.0.0.1:10001''\<rparr> else config)
      in case lookPath of
           Inl _ \<Rightarrow> config
         | Inr runcPath \<Rightarrow>
             config\<lparr>bc_Worker := map_option (map_option (\<lambda>oci. oci\<lparr>oc_RuncBinaryPath := runcPath\<rparr>)) (bc_Worker config)\<rparr>)"

definition buildkit_config :: "flags \<Rightarrow> goerr + string \<Rightarrow> goerr + BuildkitdConfig" where
  "buildkit_config fl lookPath =
     res_bind (registry_loop (fl_registryMirrors fl) (bc_Registry DefaultBuildkitdConfig)) (\<lambda>reg. Inr (config_of fl reg lookPath))"

definition socket_config :: "flags \<Rightarrow> SocketConfig" where
  "socket_config fl =
     (if fl_vsockMode fl then \<lparr>sk_Port = word_of_int (fl_vsockPort fl), sk_SocketPath = [], sk_SocketType = ''vsock''\<rparr>
      else \<lparr>sk_Port = 0, sk_SocketPath = fl_socketPath fl, sk_SocketType = ''unix''\<rparr>)"

text \<open>\<open>os.Stat\<close> follows links.\<close>

definition sys_Stat :: "string \<Rightarrow> node io" where
  "sys_Stat s fs = (res_bind (resolve True s fs) (\<lambda>p. case fs_get fs p of None \<Rightarrow> Inl NotExist | Some n \<Rightarrow> Inr n), fs)"

definition disableQemu :: "unit io" where
  "disableQemu =
     (let path = ''/usr/bin/buildkit-qemu-x86_64''; disabled = path @ ''.disabled''
      in io_bind (io_try (sys_Stat path)) (\<lambda>r.
           case r of
             Inr _ \<Rightarrow> io_bind (io_try (sys_Rename path disabled)) (\<lambda>_. io_return ())
           | Inl _ \<Rightarrow> io_return ()))"

text \<open>What the goroutine of the daemon reports on the error channel, and what the one of the server does: the first of them ends the command.\<close>

definition RunE :: "start_env \<Rightarrow> server_env \<Rightarrow> goerr + string \<Rightarrow> flags \<Rightarrow> goerr option outcomes io" where
  "RunE senv venv lookPath fl =
     io_then (if \<not> fl_enableQemu fl then disableQemu else io_return ())
       (io_bind
          (case buildkit_config fl lookPath of
             Inl e \<Rightarrow> io_return [Some e]
           | Inr config \<Rightarrow>
               io_bind (io_try (Start senv config [fl_buildkitdPath fl])) (\<lambda>r. io_return (case r of Inl e \<Rightarrow> [Some e] | Inr alts \<Rightarrow> alts)))
          (\<lambda>daemon. io_return (daemon @ [Run venv (socket_config fl)])))"

section \<open>A received context is found\<close>

lemma LookupContext_exact:
  "LookupContext p d fs =
     (if validateContextDigest d \<noteq> Inr () then (Inl InvalidArgument, fs)
      else (case fst (checkCache (path_Join [path_Join [bp_path p, ''fssync''], d]) fs) of
          Inl e \<Rightarrow> Inl (if e = ErrInvalidContextDigest then InvalidArgument else Internal) | Inr b \<Rightarrow> Inr b, fs))"
proof (cases "validateContextDigest d")
  case (Inl e)
  then have "e = ErrInvalidContextDigest" by (auto simp: validateContextDigest_def split: sum.splits if_splits)
  then show ?thesis by (simp add: LookupContext_def CachedContextPresent_def io_then_def io_bind_def io_lift_def Inl)
next
  case (Inr u)
  then show ?thesis by (simp add: LookupContext_def CachedContextPresent_valid split: sum.split)
qed

text \<open>
  C12. The lookup that the host makes before it sends a context finds what an earlier build received: the build and the lookup share one directory, so once
  the file synchronisation of a build of this server has received a context, the lookup of its digest reports it present. Lookups change nothing, and a
  malformed digest is an invalid argument, never a file that is looked at.
\<close>

theorem received_context_found:
  assumes new: "NewBuildOpts ext (bp_path p) md = Inr b"
    and base: "path_Join [bp_path p, ''fssync''] = abs_path bs" "list_all proper bs" "bs \<noteq> []" "dirs_to bs fs" "fs_tree fs"
    and rnd: "\<forall>r \<in> set (rx_rnd_dir env) \<union> set (rx_rnd_file env). slash \<notin> set r"
    and rx: "Receive env (fp_basePath (bo_FSSync b)) (Inr header) (Inr first) (chunks, err) st fs = (Inr (digest, st'), fs')"
  shows "LookupContext p digest fs' = (Inr True, fs') \<and>
    (\<forall>d. validateContextDigest d \<noteq> Inr () \<longrightarrow> LookupContext p d fs' = (Inl InvalidArgument, fs'))"
proof -
  from NewBuildOpts_opts_wf [OF new] have "fp_basePath (bo_FSSync b) = abs_path bs" by (simp add: opts_wf_def base(1))
  note rx' = rx [unfolded this]
  from Receive_checked [OF base(2-5) rnd rx'] have d: "digest = th_checksum header" "fst (checkCache (abs_path (bs @ [digest])) fs') = Inr True" by blast+
  note valid = Receive_digest_valid [OF rx', folded d(1)]
  then have "list_all proper (bs @ [digest])" using base(2) valid_digest_proper(1) by simp
  from path_Join_snoc [OF this] d(2) valid show ?thesis by (simp add: LookupContext_exact base(1))
qed

section \<open>The daemon's configuration\<close>

definition mirror_pairs :: "string list \<Rightarrow> (string \<times> string) list" where
  "mirror_pairs specs = map (\<lambda>s. projr (parseRegistryMirror s)) specs"

lemma cut_at_char_absent: "cut_at [c] s = None \<longleftrightarrow> c \<notin> set s"
  by (induction s) auto

lemma parseRegistryMirror_ok:
  "parseRegistryMirror s = Inr (k, v) \<longleftrightarrow> s = k @ ''='' @ v \<and> k \<noteq> [] \<and> CHR ''='' \<notin> set k"
proof -
  have "cut_at ''='' s = Some (k, v) \<longleftrightarrow> s = k @ ''='' @ v \<and> CHR ''='' \<notin> set k"
    using cut_at_char_append [of "CHR ''=''" k v] cut_at_first [of "''=''" s k v] cut_at_SomeD [of "''=''" s k v]
    by (auto simp: cut_at_char_absent)
  moreover have "parseRegistryMirror s = Inr (k, v) \<longleftrightarrow> cut_at ''='' s = Some (k, v) \<and> k \<noteq> []"
    by (auto simp: parseRegistryMirror_def Cut_def split: option.split)
  ultimately show ?thesis by blast
qed

lemma registry_loop_ok:
  "registry_loop specs reg = Inr reg' \<Longrightarrow>
     (\<forall>s \<in> set specs. is_ok (parseRegistryMirror s)) \<and>
     map_of reg' k = (case map snd (filter (\<lambda>(k', _). k' = k) (mirror_pairs specs)) of
        [] \<Rightarrow> map_of reg k | vs \<Rightarrow> Some ((case map_of reg k of None \<Rightarrow> [] | Some m \<Rightarrow> m) @ vs))"
proof (induction specs arbitrary: reg)
  case (Cons s specs)
  then obtain key val where kv: "parseRegistryMirror s = Inr (key, val)"
    and rest: "registry_loop specs (AList.update key ((case map_of reg key of None \<Rightarrow> [] | Some rc \<Rightarrow> rc) @ [val]) reg) = Inr reg'"
    by (auto simp: result_simps)
  from Cons.IH [OF rest] kv show ?case by (auto simp: mirror_pairs_def split: list.splits option.splits)
qed (simp add: mirror_pairs_def)

lemma config_of_fields:
  "bc_Registry (config_of fl reg lookPath) = reg" "bc_Debug (config_of fl reg lookPath) = fl_debug fl"
  "bc_DebugAddress (config_of fl reg lookPath) = Some (if fl_debug fl then ''127.0.0.1:10001'' else [])"
  by (cases lookPath; simp add: config_of_def DefaultBuildkitdConfig_def Let_def)+

lemma registry_loop_total: "\<forall>s \<in> set specs. is_ok (parseRegistryMirror s) \<Longrightarrow> is_ok (registry_loop specs reg)"
proof (induction specs arbitrary: reg)
  case (Cons s specs)
  then show ?case by (cases "parseRegistryMirror s") auto
qed simp

text \<open>
  C39. The daemon is configured with exactly the mirrors of the command line: the configuration is refused exactly when some mirror is not
  of the form registry=mirror, and otherwise every registry has its mirrors in the order given and no other registry has any. The debug address is on the
  loopback interface, and set only in debug mode.
\<close>

theorem buildkit_config_exact:
  "(is_ok (buildkit_config fl lookPath) \<longleftrightarrow>
      (\<forall>s \<in> set (fl_registryMirrors fl). \<exists>k v. s = k @ ''='' @ v \<and> k \<noteq> [] \<and> CHR ''='' \<notin> set k)) \<and>
   (\<forall>c. buildkit_config fl lookPath = Inr c \<longrightarrow>
      (\<forall>k. map_of (bc_Registry c) k =
         (case map snd (filter (\<lambda>(k', _). k' = k) (mirror_pairs (fl_registryMirrors fl))) of [] \<Rightarrow> None | vs \<Rightarrow> Some vs)) \<and>
      bc_DebugAddress c = Some (if fl_debug fl then ''127.0.0.1:10001'' else []) \<and> bc_Debug c = fl_debug fl)"
proof -
  have ok: "is_ok (parseRegistryMirror s) \<longleftrightarrow> (\<exists>k v. s = k @ ''='' @ v \<and> k \<noteq> [] \<and> CHR ''='' \<notin> set k)" for s
    using parseRegistryMirror_ok [of s] by (cases "parseRegistryMirror s") auto
  have def: "buildkit_config fl lookPath = res_bind (registry_loop (fl_registryMirrors fl) []) (\<lambda>reg. Inr (config_of fl reg lookPath))"
    by (simp add: buildkit_config_def DefaultBuildkitdConfig_def)
  have reg: "\<exists>reg. registry_loop (fl_registryMirrors fl) [] = Inr reg \<and> bc_Registry c = reg \<and>
      bc_DebugAddress c = Some (if fl_debug fl then ''127.0.0.1:10001'' else []) \<and> bc_Debug c = fl_debug fl"
    if "buildkit_config fl lookPath = Inr c" for c
    using that unfolding def result_simps by (metis config_of_fields Inr_inject)
  have built: "is_ok (buildkit_config fl lookPath) \<longleftrightarrow> is_ok (registry_loop (fl_registryMirrors fl) [])"
    unfolding def by (cases "registry_loop (fl_registryMirrors fl) []") simp_all
  have all: "is_ok (registry_loop (fl_registryMirrors fl) []) \<longleftrightarrow> (\<forall>s \<in> set (fl_registryMirrors fl). is_ok (parseRegistryMirror s))"
    using registry_loop_ok [of "fl_registryMirrors fl" "[]"] registry_loop_total [of "fl_registryMirrors fl" "[]"]
    by (cases "registry_loop (fl_registryMirrors fl) []") auto
  have "map_of (bc_Registry c) k =
      (case map snd (filter (\<lambda>(k', _). k' = k) (mirror_pairs (fl_registryMirrors fl))) of [] \<Rightarrow> None | vs \<Rightarrow> Some vs)"
    if "buildkit_config fl lookPath = Inr c" for c k
    using reg [OF that] registry_loop_ok [of "fl_registryMirrors fl" "[]" _ k] by (auto split: list.splits)
  then show ?thesis unfolding built all ok using reg by blast
qed

section \<open>Smaller facts\<close>

lemma vsock_loop_ok:
  "vsock_loop f n i e = Inr l \<longleftrightarrow> (\<exists>k < n. f (i + k) = Inr l \<and> (\<forall>j < k. \<not> is_ok (f (i + j))))"
proof (induction n arbitrary: i e)
  case (Suc n)
  show ?case
  proof (cases "f i")
    case (Inl e')
    then have "vsock_loop f (Suc n) i e = Inr l \<longleftrightarrow> (\<exists>k < n. f (i + Suc k) = Inr l \<and> (\<forall>j < k. \<not> is_ok (f (i + Suc j))))"
      using Suc.IH [of "Suc i" e'] by simp
    also have "\<dots> \<longleftrightarrow> (\<exists>k < Suc n. f (i + k) = Inr l \<and> (\<forall>j < k. \<not> is_ok (f (i + j))))"
      using Inl by (subst Ex_less_Suc2) (auto simp: All_less_Suc2)
    finally show ?thesis .
  next
    case (Inr l')
    have "k = 0" if "\<forall>j < k. \<not> is_ok (f (i + j))" for k using that Inr by (cases k) auto
    then have "(\<exists>k < Suc n. f (i + k) = Inr l \<and> (\<forall>j < k. \<not> is_ok (f (i + j)))) \<longleftrightarrow> l' = l" using Inr by (fastforce intro: exI [of _ 0])
    then show ?thesis using Inr by simp
  qed
qed simp

text \<open>A vsock listener comes from the first attempt of a thousand that succeeds.\<close>

lemma listenVSock_ok:
  "listenVSock env port = Inr () \<longleftrightarrow> (\<exists>k < 1000. is_ok (sv_vsock_Listen env port k))"
proof -
  have "(\<exists>k < n. f k = Inr () \<and> (\<forall>j < k. \<not> is_ok (f j))) \<longleftrightarrow> (\<exists>k < n. is_ok (f k))" for n and f :: "nat \<Rightarrow> goerr + unit"
  proof
    assume "\<exists>k < n. is_ok (f k)"
    then obtain k where k: "k < n" "is_ok (f k)" "\<forall>j < k. \<not> is_ok (f j)"
      using exists_least_iff [of "\<lambda>k. k < n \<and> is_ok (f k)"] by (meson less_trans)
    then show "\<exists>k < n. f k = Inr () \<and> (\<forall>j < k. \<not> is_ok (f j))" by (cases "f k") auto
  qed (auto simp: is_ok_def)
  then show ?thesis unfolding listenVSock_def vsock_loop_ok by simp
qed

text \<open>
  An environment without a search path is passed on without one: the standard path is added to an existing entry or to an empty environment only.
\<close>

lemma buildkitd_env_path:
  "buildkitd_env [] = [''PATH='' @ standard_path]" "CHR ''='' \<notin> set v \<Longrightarrow> buildkitd_env [''HOME='' @ v] = [''HOME='' @ v]"
  "buildkitd_env [''PATH='' @ v] = [''PATH='' @ v @ '':'' @ standard_path]"
  by (simp_all add: buildkitd_env_def env_entry_def SplitN2_def EqualFold_def ToLower_def lower_char_def)

text \<open>The profiling endpoint is never started with a Unix socket, debug mode or not.\<close>

lemma profiling_needs_vsock: "PersistentPreRunE fl fs = (Inr True, fs') \<longleftrightarrow> fl_vsockMode fl \<and> fl_debug fl \<and> fs' = fs"
  by (auto simp: PersistentPreRunE_def io_then_def io_bind_def io_return_def split: prod.splits sum.splits)

lemma PerformBuild_refused:
  \<comment> \<open>a request that is refused leaves the file system as it was\<close>
  "PerformBuild ext sx rnd p None fs = (Inl (ServerError ErrMetadataMissing), fs)"
  "NewBuildOpts ext (bp_path p) md = Inl e \<Longrightarrow> PerformBuild ext sx rnd p (Some md) fs = (Inl e, fs)"
  by (simp_all add: PerformBuild_def io_fail_def io_bind_def io_lift_def)

section \<open>A concrete server\<close>

definition demo_server_fs :: fs where
  "demo_server_fs = [([''base''], Dir), ([''base'', ''fssync''], Dir)]"

lemma demo_server_fs_ok: "fs_tree demo_server_fs" "dirs_to [''base'', ''fssync''] demo_server_fs"
proof -
  have "p = [] \<or> p = [''base'']" if "fs_get demo_server_fs (p @ [c]) \<noteq> None" for p c
    using that by (auto simp: fs_get_def demo_server_fs_def append_eq_Cons_conv split: if_splits)
  moreover have d: "fs_get demo_server_fs [''base''] = Some Dir" "fs_get demo_server_fs [''base'', ''fssync''] = Some Dir"
    by (simp_all add: fs_get_def demo_server_fs_def)
  ultimately show "fs_tree demo_server_fs" unfolding fs_tree_def by (metis fs_get_root)
  show "dirs_to [''base'', ''fssync''] demo_server_fs"
    using d dirs_to_snoc [of "[''base'']" "''fssync''"] dirs_to_snoc [of "[]" "''base''"] by simp
qed

definition demo_received :: "(goerr + (string \<times> string list)) \<times> fs" where
  "demo_received = Receive demo_env ''/base/fssync'' (Inr \<lparr>th_checksum = demo_digest, th_complete = False\<rparr>) (Inr ''da'') ([''ta''], None) [] demo_server_fs"

theorem received_context_found_witness:
  "fst demo_received = Inr (demo_digest, [''a'', ''a/f'']) \<and>
   LookupContext \<lparr>bp_path = ''/base''\<rparr> demo_digest (snd demo_received) = (Inr True, snd demo_received)"
proof -
  have run: "fst demo_received = Inr (demo_digest, [''a'', ''a/f''])" by code_simp
  then have full: "demo_received = (Inr (demo_digest, [''a'', ''a/f'']), snd demo_received)" by (metis prod.collapse)
  obtain b where b: "NewBuildOpts demo_ext (bp_path \<lparr>bp_path = ''/base''\<rparr>) demo_md = Inr b" using demo_opts_ok by auto
  have p: "path_Join [''/base'', ''fssync''] = ''/base/fssync''" "abs_path [''base'', ''fssync''] = ''/base/fssync''" by code_simp+
  from NewBuildOpts_opts_wf [OF b] have base: "fp_basePath (bo_FSSync b) = ''/base/fssync''" by (simp add: opts_wf_def p)
  have "list_all proper [''base'', ''fssync'']" by code_simp
  moreover have "\<forall>r \<in> set (rx_rnd_dir demo_env) \<union> set (rx_rnd_file demo_env). slash \<notin> set r" by (simp add: demo_env_def)
  ultimately have "LookupContext \<lparr>bp_path = ''/base''\<rparr> demo_digest (snd demo_received) = (Inr True, snd demo_received)"
    using received_context_found [OF b, of "[''base'', ''fssync'']" demo_server_fs demo_env "\<lparr>th_checksum = demo_digest, th_complete = False\<rparr>" "''da''" "[''ta'']" None "[]"
        demo_digest "[''a'', ''a/f'']" "snd demo_received"] full [unfolded demo_received_def] demo_server_fs_ok
    by (simp add: p base demo_received_def)
  with run show ?thesis by blast
qed

abbreviation mirror_flags :: flags where
  "mirror_flags \<equiv> default_flags\<lparr>fl_registryMirrors := [''docker.io=m1'', ''ghcr.io=m'', ''docker.io=m2'']\<rparr>"

theorem buildkit_config_exact_witness:
  "\<exists>c. buildkit_config mirror_flags (Inl NotExist) = Inr c \<and> map_of (bc_Registry c) ''docker.io'' = Some [''m1'', ''m2''] \<and>
     map_of (bc_Registry c) ''quay.io'' = None"
proof -
  have "is_ok (buildkit_config mirror_flags (Inl NotExist))" by code_simp
  then obtain c where c: "buildkit_config mirror_flags (Inl NotExist) = Inr c" by (auto simp: is_ok_def split: sum.splits)
  have "map snd (filter (\<lambda>(k', _). k' = ''docker.io'') (mirror_pairs (fl_registryMirrors mirror_flags))) = [''m1'', ''m2'']"
    "map snd (filter (\<lambda>(k', _). k' = ''quay.io'') (mirror_pairs (fl_registryMirrors mirror_flags))) = []" by code_simp+
  with buildkit_config_exact [of mirror_flags "Inl NotExist"] c show ?thesis by (metis list.simps(4,5))
qed

end
