(* ===== verification/Spec2Isabelle.thy ===== *)
theory Spec2Isabelle
  imports Stream_Pipeline Fs_File Diff_Copy Server_Main
begin

text \<open>
  container-builder-shim: a verification development.
\<close>

end
